(* ===== verification/Prelude.thy ===== *)
theory Prelude
  imports Main "HOL-Library.Word"
begin

text \<open>
  Shared vocabulary of the development: bytes and byte strings, the memory image of the
  fixed-width integers on the little-endian hosts the program is built for, the byte-order
  conversions of \<^verbatim>\<open>arpa/inet.h\<close>, \<^verbatim>\<open>memcpy\<close>, and the \<^verbatim>\<open>std::string\<close> searches the sources
  use. The collections \<open>byte_simps\<close> and \<open>search_simps\<close> gather the rewriting rules that
  carry the component proofs.
\<close>

named_theorems byte_simps "memory images, byte order and memcpy"
named_theorems search_simps "std::string searches"

section \<open>Bytes\<close>

text \<open>
  A \<^verbatim>\<open>char\<close> is eight bits; \<^verbatim>\<open>std::string\<close> and \<^verbatim>\<open>std::vector<char>\<close> are byte lists. The text
  literals of the source are written \<open>lit ''...''\<close>.
\<close>

type_synonym byte = "8 word"
type_synonym bytes = "byte list"

definition ch :: "char \<Rightarrow> byte" where
  "ch c = of_char c"

definition lit :: "string \<Rightarrow> bytes" where
  "lit s = map ch s"

lemma lit_Nil [simp]: "lit [] = []"
  by (simp add: lit_def)

lemma lit_Cons [simp]: "lit (c # s) = ch c # lit s"
  by (simp add: lit_def)

lemma length_lit [simp]: "length (lit s) = length s"
  by (simp add: lit_def)

section \<open>Memory images of integers\<close>

text \<open>
  The hosts are little-endian: \<open>le_bytes k n\<close> is the \<open>k\<close>-byte memory image of \<open>n\<close>, and
  \<open>le_nat\<close> reads an image back.
\<close>

fun le_bytes :: "nat \<Rightarrow> nat \<Rightarrow> bytes" where
  "le_bytes 0 n = []"
| "le_bytes (Suc k) n = word_of_nat n # le_bytes k (n div 256)"

fun le_nat :: "bytes \<Rightarrow> nat" where
  "le_nat [] = 0"
| "le_nat (b # bs) = unat b + 256 * le_nat bs"

lemma length_le_bytes [simp]: "length (le_bytes k n) = k"
  by (induction k arbitrary: n) auto

lemma le_nat_bound: "le_nat bs < 256 ^ length bs"
proof (induction bs)
  case Nil
  then show ?case by simp
next
  case (Cons b bs)
  have "unat b < 256"
    using unsigned_less [of b] by simp
  with Cons show ?case by simp
qed

lemma le_nat_le_bytes: "le_nat (le_bytes k n) = n mod 256 ^ k"
proof (induction k arbitrary: n)
  case 0
  then show ?case by simp
next
  case (Suc k)
  have "le_nat (le_bytes (Suc k) n) = n mod 256 + 256 * (n div 256 mod 256 ^ k)"
    by (simp add: Suc unat_of_nat)
  also have "\<dots> = n mod 256 ^ Suc k"
    by (simp add: mod_mult2_eq)
  finally show ?case .
qed

lemma le_bytes_le_nat: "le_bytes (length bs) (le_nat bs) = bs"
proof (induction bs)
  case Nil
  then show ?case by simp
next
  case (Cons b bs)
  have b: "unat b < 256"
    using unsigned_less [of b] by simp
  have "(word_of_nat (unat b + 256 * le_nat bs) :: byte) = b"
    by (rule unsigned_word_eqI [where ?'a = nat]) (simp add: unat_of_nat b del: of_nat_add of_nat_mult)
  with Cons b show ?case by simp
qed

definition mem16 :: "16 word \<Rightarrow> bytes" where
  "mem16 w = le_bytes 2 (unat w)"

definition mem32 :: "32 word \<Rightarrow> bytes" where
  "mem32 w = le_bytes 4 (unat w)"

definition load16 :: "bytes \<Rightarrow> 16 word" where
  "load16 bs = word_of_nat (le_nat bs)"

definition load32 :: "bytes \<Rightarrow> 32 word" where
  "load32 bs = word_of_nat (le_nat bs)"

lemma length_mem16 [simp]: "length (mem16 w) = 2"
  by (simp add: mem16_def)

lemma length_mem32 [simp]: "length (mem32 w) = 4"
  by (simp add: mem32_def)

lemma load16_mem16 [byte_simps]: "load16 (mem16 w) = w"
proof -
  have "unat w < 256 ^ 2"
    using unsigned_less [of w] by simp
  then show ?thesis
    by (simp add: load16_def mem16_def le_nat_le_bytes)
qed

lemma load32_mem32 [byte_simps]: "load32 (mem32 w) = w"
proof -
  have "unat w < 256 ^ 4"
    using unsigned_less [of w] by simp
  then show ?thesis
    by (simp add: load32_def mem32_def le_nat_le_bytes)
qed

lemma mem16_load16 [byte_simps]: "length bs = 2 \<Longrightarrow> mem16 (load16 bs) = bs"
  using le_nat_bound [of bs] le_bytes_le_nat [of bs]
  by (simp add: load16_def mem16_def unat_of_nat)

lemma mem32_load32 [byte_simps]: "length bs = 4 \<Longrightarrow> mem32 (load32 bs) = bs"
  using le_nat_bound [of bs] le_bytes_le_nat [of bs]
  by (simp add: load32_def mem32_def unat_of_nat)

lemma unat_load32: "length bs = 4 \<Longrightarrow> unat (load32 bs) = le_nat bs"
  using le_nat_bound [of bs] by (simp add: load32_def unat_of_nat)

lemma unat_load16: "length bs = 2 \<Longrightarrow> unat (load16 bs) = le_nat bs"
  using le_nat_bound [of bs] by (simp add: load16_def unat_of_nat)

section \<open>Network byte order\<close>

text \<open>
  On a little-endian host \<^verbatim>\<open>htons\<close>, \<^verbatim>\<open>htonl\<close> and their inverses reverse the bytes of the
  memory image.
\<close>

definition htons :: "16 word \<Rightarrow> 16 word" where
  "htons w = load16 (rev (mem16 w))"

definition htonl :: "32 word \<Rightarrow> 32 word" where
  "htonl w = load32 (rev (mem32 w))"

definition ntohs :: "16 word \<Rightarrow> 16 word" where
  "ntohs w = load16 (rev (mem16 w))"

definition ntohl :: "32 word \<Rightarrow> 32 word" where
  "ntohl w = load32 (rev (mem32 w))"

lemma mem16_htons [byte_simps]: "mem16 (htons w) = rev (mem16 w)"
  by (simp add: htons_def byte_simps)

lemma mem32_htonl [byte_simps]: "mem32 (htonl w) = rev (mem32 w)"
  by (simp add: htonl_def byte_simps)

lemma ntohs_htons [byte_simps]: "ntohs (htons w) = w"
  by (simp add: ntohs_def byte_simps)

lemma ntohl_htonl [byte_simps]: "ntohl (htonl w) = w"
  by (simp add: ntohl_def byte_simps)

lemma htons_ntohs [byte_simps]: "htons (ntohs w) = w"
  by (simp add: htons_def ntohs_def byte_simps)

lemma htonl_ntohl [byte_simps]: "htonl (ntohl w) = w"
  by (simp add: htonl_def ntohl_def byte_simps)

text \<open>Big-endian reading of a wire field: what \<^verbatim>\<open>ntohs\<close>/\<^verbatim>\<open>ntohl\<close> of the raw bytes gives.\<close>

definition be16 :: "bytes \<Rightarrow> 16 word" where
  "be16 bs = ntohs (load16 bs)"

definition be32 :: "bytes \<Rightarrow> 32 word" where
  "be32 bs = ntohl (load32 bs)"

lemma be16_rev_mem16 [byte_simps]: "be16 (rev (mem16 w)) = w"
  by (simp add: be16_def ntohs_def byte_simps)

lemma be32_rev_mem32 [byte_simps]: "be32 (rev (mem32 w)) = w"
  by (simp add: be32_def ntohl_def byte_simps)

lemma unat_be32: "length bs = 4 \<Longrightarrow> unat (be32 bs) = le_nat (rev bs)"
  by (simp add: be32_def ntohl_def mem32_load32 unat_load32)

lemma unat_be16: "length bs = 2 \<Longrightarrow> unat (be16 bs) = le_nat (rev bs)"
  by (simp add: be16_def ntohs_def mem16_load16 unat_load16)

section \<open>memcpy\<close>

text \<open>\<open>memcpy dst pos src\<close> writes all of \<open>src\<close> into \<open>dst\<close> from position \<open>pos\<close> on.\<close>

definition memcpy :: "bytes \<Rightarrow> nat \<Rightarrow> bytes \<Rightarrow> bytes" where
  "memcpy dst pos src = take pos dst @ src @ drop (pos + length src) dst"

lemma memcpy_Nil [byte_simps]: "memcpy dst pos [] = dst"
  by (simp add: memcpy_def)

lemma length_memcpy [byte_simps]:
  "pos + length src \<le> length dst \<Longrightarrow> length (memcpy dst pos src) = length dst"
  by (simp add: memcpy_def)

lemma memcpy_all [byte_simps]: "length src = length dst \<Longrightarrow> memcpy dst 0 src = src"
  by (simp add: memcpy_def)

lemma memcpy_memcpy [byte_simps]:
  "pos \<le> length dst \<Longrightarrow> q = pos + length a \<Longrightarrow>
    memcpy (memcpy dst pos a) q b = memcpy dst pos (a @ b)"
  by (simp add: memcpy_def ac_simps)

section \<open>Searching strings\<close>

text \<open>
  \<^verbatim>\<open>std::string::find(c)\<close> and \<^verbatim>\<open>rfind(c)\<close>: the first and the last position of a byte, \<open>None\<close>
  for \<^verbatim>\<open>npos\<close>.
\<close>

fun str_find :: "byte \<Rightarrow> bytes \<Rightarrow> nat option" where
  "str_find c [] = None"
| "str_find c (x # xs) = (if x = c then Some 0 else map_option Suc (str_find c xs))"

fun str_rfind :: "byte \<Rightarrow> bytes \<Rightarrow> nat option" where
  "str_rfind c [] = None"
| "str_rfind c (x # xs) =
     (case str_rfind c xs of Some i \<Rightarrow> Some (Suc i) | None \<Rightarrow> if x = c then Some 0 else None)"

lemma str_find_None [search_simps]: "str_find c xs = None \<longleftrightarrow> c \<notin> set xs"
  by (induction xs) auto

lemma str_rfind_None [search_simps]: "str_rfind c xs = None \<longleftrightarrow> c \<notin> set xs"
  by (induction xs) (auto split: option.splits)

lemma str_find_append [search_simps]:
  "c \<notin> set xs \<Longrightarrow> str_find c (xs @ c # ys) = Some (length xs)"
  by (induction xs) auto

lemma str_rfind_append [search_simps]:
  "c \<notin> set ys \<Longrightarrow> str_rfind c (xs @ c # ys) = Some (length xs)"
proof (induction xs)
  case Nil
  then have "str_rfind c ys = None" by (simp add: str_rfind_None)
  then show ?case by simp
next
  case (Cons x xs)
  then show ?case by simp
qed

lemma str_find_less: "str_find c xs = Some i \<Longrightarrow> i < length xs"
  by (induction xs arbitrary: i) (auto split: if_splits)

lemma str_rfind_SomeD:
  "str_rfind c xs = Some i \<Longrightarrow> i < length xs \<and> xs ! i = c \<and> c \<notin> set (drop (Suc i) xs)"
proof (induction xs arbitrary: i)
  case Nil
  then show ?case by simp
next
  case (Cons x xs)
  show ?case
  proof (cases "str_rfind c xs")
    case None
    with Cons.prems show ?thesis
      by (auto simp: str_rfind_None split: if_splits)
  next
    case (Some j)
    with Cons show ?thesis by auto
  qed
qed

end
