(* ===== verification/Noncontiguous_Buffer.thy ===== *)
theory Noncontiguous_Buffer
  imports Prelude
begin

text \<open>
  The chained buffer of \<^verbatim>\<open>src/codec/noncontiguous_buffer.cc\<close>: a deque of blocks, each with its
  own read offset, and a cached count of readable bytes. The locale \<open>byte_buffer\<close> is the
  interface the codecs rely on, a queue of bytes with random-access peeking; the
  interpretation at the end proves that the block chain implements it.
\<close>

section \<open>The interface\<close>

locale byte_buffer =
  fixes empty :: "'b"
    and append :: "bytes \<Rightarrow> 'b \<Rightarrow> 'b"
    and peek :: "'b \<Rightarrow> bytes \<Rightarrow> nat \<Rightarrow> nat \<Rightarrow> nat \<times> bytes"
    and skip :: "nat \<Rightarrow> 'b \<Rightarrow> 'b"
    and readable :: "'b \<Rightarrow> nat"
    and to_string :: "'b \<Rightarrow> bytes"
    and contents :: "'b \<Rightarrow> bytes"
    and invar :: "'b \<Rightarrow> bool"
  assumes contents_empty: "contents empty = []"
    and contents_append: "invar b \<Longrightarrow> contents (append d b) = contents b @ d"
    and peek_spec: "invar b \<Longrightarrow>
      peek b dst len off =
        (length (take len (drop off (contents b))), memcpy dst 0 (take len (drop off (contents b))))"
    and contents_skip: "invar b \<Longrightarrow> contents (skip n b) = drop n (contents b)"
    and readable_spec: "invar b \<Longrightarrow> readable b = length (contents b)"
    and to_string_spec: "invar b \<Longrightarrow> to_string b = contents b"
    and invar_empty: "invar empty"
    and invar_append: "invar b \<Longrightarrow> invar (append d b)"
    and invar_skip: "invar b \<Longrightarrow> invar (skip n b)"
begin

text \<open>A read that stays inside the readable bytes fills its destination exactly.\<close>

lemma peek_exact:
  assumes "invar b" "length dst = len" "off + len \<le> length (contents b)"
  shows "peek b dst len off = (len, take len (drop off (contents b)))"
  using assms by (auto simp: peek_spec memcpy_all min_def)

text \<open>A read past the end leaves the tail of its destination as it was.\<close>

lemma peek_short:
  assumes "invar b" "length (contents b) < off + len"
  shows "snd (peek b dst len off) =
    drop off (contents b) @ drop (length (contents b) - off) dst"
proof -
  have "take len (drop off (contents b)) = drop off (contents b)"
    using assms(2) by simp
  with assms(1) show ?thesis
    by (simp add: peek_spec memcpy_def)
qed

lemma append_two:
  "invar b \<Longrightarrow> contents (append d2 (append d1 b)) = contents b @ d1 @ d2"
  by (simp add: contents_append invar_append)

lemma skip_past_prefix:
  "invar b \<Longrightarrow> contents b = p @ r \<Longrightarrow> contents (skip (length p) b) = r"
  by (simp add: contents_skip)

end

section \<open>The block chain\<close>

record Block =
  blk_data :: bytes
  blk_offset :: nat

record NoncontiguousBuffer =
  nb_blocks :: "Block list"
  nb_readable :: nat

definition empty_buffer :: NoncontiguousBuffer where
  "empty_buffer = \<lparr>nb_blocks = [], nb_readable = 0\<rparr>"

definition ReadableBytes :: "NoncontiguousBuffer \<Rightarrow> nat" where
  "ReadableBytes b = nb_readable b"

text \<open>
  \<^verbatim>\<open>Append(data, len)\<close>: nothing for an empty input; otherwise the last block grows in place
  when nothing has been read from it and it holds fewer than 4096 bytes, and a fresh block
  is pushed in every other case.
\<close>

definition Append :: "bytes \<Rightarrow> NoncontiguousBuffer \<Rightarrow> NoncontiguousBuffer" where
  "Append d b =
     (if d = [] then b
      else if nb_blocks b \<noteq> [] \<and> blk_offset (last (nb_blocks b)) = 0
              \<and> length (blk_data (last (nb_blocks b))) < 4096
      then b\<lparr>nb_blocks := butlast (nb_blocks b)
                @ [(last (nb_blocks b))\<lparr>blk_data := blk_data (last (nb_blocks b)) @ d\<rparr>],
             nb_readable := nb_readable b + length d\<rparr>
      else b\<lparr>nb_blocks := nb_blocks b @ [\<lparr>blk_data = d, blk_offset = 0\<rparr>],
             nb_readable := nb_readable b + length d\<rparr>)"

definition NoncontiguousBuffer_from :: "bytes \<Rightarrow> NoncontiguousBuffer" where
  "NoncontiguousBuffer_from d = Append d empty_buffer"

text \<open>The copy loop of \<^verbatim>\<open>Peek\<close>; the third argument is \<^verbatim>\<open>copied\<close>, the fourth \<^verbatim>\<open>skip\<close>.\<close>

primrec peek_loop :: "Block list \<Rightarrow> nat \<Rightarrow> nat \<Rightarrow> nat \<Rightarrow> bytes \<Rightarrow> nat \<times> bytes" where
  "peek_loop [] to_read copied skip dst = (copied, dst)"
| "peek_loop (blk # blks) to_read copied skip dst =
     (let block_size = length (blk_data blk) - blk_offset blk in
      if skip \<ge> block_size then peek_loop blks to_read copied (skip - block_size) dst
      else
        let from_block = min (to_read - copied) (block_size - skip);
            dst' = memcpy dst copied (take from_block (drop (blk_offset blk + skip) (blk_data blk)));
            copied' = copied + from_block
        in if copied' \<ge> to_read then (copied', dst')
           else peek_loop blks to_read copied' 0 dst')"

definition Peek :: "NoncontiguousBuffer \<Rightarrow> bytes \<Rightarrow> nat \<Rightarrow> nat \<Rightarrow> nat \<times> bytes" where
  "Peek b dst len offset =
     (if offset \<ge> nb_readable b then (0, dst)
      else peek_loop (nb_blocks b) (min len (nb_readable b - offset)) 0 offset dst)"

primrec skip_loop :: "Block list \<Rightarrow> nat \<Rightarrow> Block list" where
  "skip_loop [] len = []"
| "skip_loop (front # blks) len =
     (if len = 0 then front # blks
      else
        let block_avail = length (blk_data front) - blk_offset front in
        if len \<ge> block_avail then skip_loop blks (len - block_avail)
        else front\<lparr>blk_offset := blk_offset front + len\<rparr> # blks)"

definition Skip :: "nat \<Rightarrow> NoncontiguousBuffer \<Rightarrow> NoncontiguousBuffer" where
  "Skip len b =
     (if len \<ge> nb_readable b then b\<lparr>nb_blocks := [], nb_readable := 0\<rparr>
      else b\<lparr>nb_readable := nb_readable b - len, nb_blocks := skip_loop (nb_blocks b) len\<rparr>)"

definition ToString :: "NoncontiguousBuffer \<Rightarrow> bytes" where
  "ToString b = snd (Peek b (replicate (nb_readable b) 0) (nb_readable b) 0)"

section \<open>Abstraction and invariant\<close>

definition block_bytes :: "Block \<Rightarrow> bytes" where
  "block_bytes blk = drop (blk_offset blk) (blk_data blk)"

definition chain_bytes :: "Block list \<Rightarrow> bytes" where
  "chain_bytes blks = concat (map block_bytes blks)"

definition contents :: "NoncontiguousBuffer \<Rightarrow> bytes" where
  "contents b = chain_bytes (nb_blocks b)"

text \<open>
  The counter agrees with the blocks, and no block is exhausted: a block leaves the chain
  with its last byte.
\<close>

definition buffer_ok :: "NoncontiguousBuffer \<Rightarrow> bool" where
  "buffer_ok b \<longleftrightarrow> nb_readable b = length (contents b)
     \<and> list_all (\<lambda>blk. blk_offset blk < length (blk_data blk)) (nb_blocks b)"

lemma chain_bytes_simps [simp]:
  "chain_bytes [] = []"
  "chain_bytes (blk # blks) = block_bytes blk @ chain_bytes blks"
  "chain_bytes (xs @ ys) = chain_bytes xs @ chain_bytes ys"
  by (simp_all add: chain_bytes_def)

lemma length_block_bytes [simp]:
  "length (block_bytes blk) = length (blk_data blk) - blk_offset blk"
  by (simp add: block_bytes_def)

text \<open>
  The loop copies the next \<open>to_read - copied\<close> bytes after skipping \<open>skip\<close>, as many as the
  chain holds, whatever the block boundaries are.
\<close>

lemma peek_loop_spec:
  assumes "copied \<le> to_read" "copied \<le> length dst"
  shows "peek_loop blks to_read copied skip dst =
    (let src = take (to_read - copied) (drop skip (chain_bytes blks))
     in (copied + length src, memcpy dst copied src))"
  using assms
proof (induction blks arbitrary: copied skip dst)
  case Nil
  then show ?case by (simp add: byte_simps)
next
  case (Cons blk blks)
  define bs where "bs = block_bytes blk"
  have len: "length (blk_data blk) - blk_offset blk = length bs"
    by (simp add: bs_def)
  have src: "drop (blk_offset blk + skip) (blk_data blk) = drop skip bs"
    by (simp add: bs_def block_bytes_def add.commute)
  show ?case
  proof (cases "skip \<ge> length bs")
    case True
    with Cons.IH [of copied dst "skip - length bs"] Cons.prems show ?thesis
      by (simp add: len bs_def [symmetric] Let_def del: length_block_bytes)
  next
    case False
    define k where "k = min (to_read - copied) (length bs - skip)"
    define piece where "piece = take k (drop skip bs)"
    have lp: "length piece = k"
      by (simp add: piece_def k_def)
    show ?thesis
    proof (cases "copied + k \<ge> to_read")
      case True
      then have "k = to_read - copied" "take (to_read - copied) (drop skip bs) = piece"
        using Cons.prems by (auto simp: k_def piece_def)
      moreover have "to_read - copied \<le> length bs - skip"
        using True Cons.prems by (simp add: k_def)
      ultimately show ?thesis
        using False True lp Cons.prems
        by (simp add: len src bs_def [symmetric] Let_def k_def [symmetric] piece_def [symmetric]
            del: length_block_bytes)
    next
      case more: False
      then have k: "k = length bs - skip" and rest: "k < to_read - copied"
        by (auto simp: k_def)
      have piece: "piece = drop skip bs"
        by (simp add: piece_def k)
      have IH: "peek_loop blks to_read (copied + k) 0 (memcpy dst copied piece) =
        (let src = take (to_read - (copied + k)) (chain_bytes blks)
         in (copied + k + length src, memcpy (memcpy dst copied piece) (copied + k) src))"
        using Cons.IH [of "copied + k" "memcpy dst copied piece" 0] rest Cons.prems lp
        by (simp add: memcpy_def)
      show ?thesis
        using False more IH lp rest Cons.prems
        by (simp add: len src bs_def [symmetric] Let_def k_def [symmetric] piece_def [symmetric]
            piece k memcpy_memcpy del: length_block_bytes)
    qed
  qed
qed

lemma chain_bytes_skip_loop: "chain_bytes (skip_loop blks n) = drop n (chain_bytes blks)"
  by (induction blks arbitrary: n) (auto simp: Let_def block_bytes_def add.commute)

lemma skip_loop_blocks:
  "list_all (\<lambda>blk. blk_offset blk < length (blk_data blk)) blks \<Longrightarrow>
   list_all (\<lambda>blk. blk_offset blk < length (blk_data blk)) (skip_loop blks n)"
  by (induction blks arbitrary: n) (auto simp: Let_def)

lemma Append_contents: "contents (Append d b) = contents b @ d"
proof (cases "nb_blocks b" rule: rev_cases)
  case Nil
  then show ?thesis by (simp add: Append_def contents_def block_bytes_def)
next
  case (snoc blks blk)
  then show ?thesis by (simp add: Append_def contents_def block_bytes_def)
qed

lemma Append_ok: "buffer_ok b \<Longrightarrow> buffer_ok (Append d b)"
proof (cases "nb_blocks b" rule: rev_cases)
  case Nil
  then show "buffer_ok b \<Longrightarrow> ?thesis"
    by (simp add: Append_def buffer_ok_def contents_def block_bytes_def)
next
  case (snoc blks blk)
  then show "buffer_ok b \<Longrightarrow> ?thesis"
    by (simp add: Append_def buffer_ok_def contents_def block_bytes_def add.assoc)
qed

lemma Skip_contents: "buffer_ok b \<Longrightarrow> contents (Skip n b) = drop n (contents b)"
  by (simp add: Skip_def buffer_ok_def contents_def chain_bytes_skip_loop)

lemma Skip_ok: "buffer_ok b \<Longrightarrow> buffer_ok (Skip n b)"
  by (auto simp: Skip_def buffer_ok_def contents_def chain_bytes_skip_loop skip_loop_blocks)

lemma Peek_contents:
  assumes "buffer_ok b"
  shows "Peek b dst len off =
    (length (take len (drop off (contents b))), memcpy dst 0 (take len (drop off (contents b))))"
proof (cases "off \<ge> nb_readable b")
  case True
  with assms show ?thesis by (simp add: Peek_def buffer_ok_def byte_simps)
next
  case False
  have "take (min len (nb_readable b - off)) (drop off (contents b)) = take len (drop off (contents b))"
    using assms by (simp add: buffer_ok_def min_def)
  with False show ?thesis
    by (simp add: Peek_def peek_loop_spec contents_def [symmetric] Let_def)
qed

interpretation nb: byte_buffer empty_buffer Append Peek Skip ReadableBytes ToString contents buffer_ok
proof (unfold_locales, goal_cases)
  case 1 show ?case by (simp add: contents_def empty_buffer_def)
next
  case 2 show ?case by (rule Append_contents)
next
  case 3 then show ?case by (rule Peek_contents)
next
  case 4 then show ?case by (rule Skip_contents)
next
  case 5 then show ?case by (simp add: ReadableBytes_def buffer_ok_def)
next
  case (6 b) then show ?case
    by (simp add: ToString_def Peek_contents memcpy_all buffer_ok_def)
next
  case 7 show ?case by (simp add: buffer_ok_def contents_def empty_buffer_def)
next
  case 8 then show ?case by (rule Append_ok)
next
  case 9 then show ?case by (rule Skip_ok)
qed

lemmas buffer_simps =
  nb.contents_empty nb.contents_append nb.contents_skip nb.readable_spec nb.to_string_spec
  nb.invar_empty nb.invar_append nb.invar_skip

lemma from_ok [simp]: "buffer_ok (NoncontiguousBuffer_from d)"
  by (simp add: NoncontiguousBuffer_from_def buffer_simps)

lemma from_contents [simp]: "contents (NoncontiguousBuffer_from d) = d"
  by (simp add: NoncontiguousBuffer_from_def buffer_simps)

end
