(* ===== verification/Protocol_Message.thy ===== *)
theory Protocol_Message
  imports Prelude
begin

text \<open>
  The data of the codec layer: the constants, enumerations and the fixed 16-byte header of
  \<^verbatim>\<open>xrpc_codec.h\<close>, the protocol-neutral \<^verbatim>\<open>ProtocolMessage\<close>, the client context, and the
  protobuf messages of \<^verbatim>\<open>src/protocol\<close>. The classes that \<^verbatim>\<open>protoc\<close> generates for the latter are
  not part of the sources, so their \<^verbatim>\<open>ParseFromString\<close> and \<^verbatim>\<open>SerializeToString\<close> are the fields
  of the record \<open>protobuf\<close>, an argument of every definition that uses them.
\<close>

section \<open>Constants and enumerations\<close>

definition kMagicNumber :: "16 word" where "kMagicNumber = 0x4B52"
definition kFixedHeaderSize :: nat where "kFixedHeaderSize = 16"
definition kMaxFrameSize :: nat where "kMaxFrameSize = 16 * 1024 * 1024"

definition kCodecOk :: int where "kCodecOk = 0"
definition kCodecIncomplete :: int where "kCodecIncomplete = 1"
definition kCodecInvalidMagic :: int where "kCodecInvalidMagic = -1"
definition kCodecOversized :: int where "kCodecOversized = -2"
definition kCodecParseError :: int where "kCodecParseError = -3"
definition kCodecSerializeError :: int where "kCodecSerializeError = -4"

lemmas codec_consts =
  kMagicNumber_def kFixedHeaderSize_def kMaxFrameSize_def kCodecOk_def kCodecIncomplete_def
  kCodecInvalidMagic_def kCodecOversized_def kCodecParseError_def kCodecSerializeError_def

lemma sint_small: "unat (w :: 32 word) \<le> kMaxFrameSize \<Longrightarrow> sint w = int (unat w)"
proof -
  assume "unat w \<le> kMaxFrameSize"
  then have "uint w \<le> 16777216"
    by (simp add: kMaxFrameSize_def uint_nat del: of_nat_unat)
  then show ?thesis
    by (simp add: sint_uint) (rule signed_take_bit_int_eq_self, auto intro: order_trans [of _ 0])
qed

text \<open>
  The enumerations have a fixed underlying type, and the decoders \<^verbatim>\<open>static_cast\<close> whatever
  arrives on the wire into them, so a value of the type is any integer of that width.
\<close>

type_synonym MessageType = "8 word"
type_synonym StreamType = "8 word"
type_synonym ContentType = "32 word"
type_synonym ContentEncoding = "32 word"

definition kRequest :: MessageType where "kRequest = 0"
definition kResponse :: MessageType where "kResponse = 1"
definition kOneway :: MessageType where "kOneway = 2"
definition kUnary :: StreamType where "kUnary = 0"
definition kProtobuf :: ContentType where "kProtobuf = 0"
definition kNone :: ContentEncoding where "kNone = 0"

lemmas message_types = kRequest_def kResponse_def kOneway_def

datatype ProtocolVersion = kLegacy | kXRpc

section \<open>FixedHeader\<close>

record FixedHeader =
  fh_magic :: "16 word"
  fh_type :: "8 word"
  fh_stream_type :: "8 word"
  fh_total_size :: "32 word"
  fh_header_size :: "16 word"
  fh_stream_id :: "32 word"
  fh_reserved :: "16 word"

definition FixedHeader_init :: FixedHeader where
  "FixedHeader_init = \<lparr>fh_magic = 0, fh_type = 0, fh_stream_type = 0, fh_total_size = 0,
     fh_header_size = 0, fh_stream_id = 0, fh_reserved = 0\<rparr>"

definition HToN :: "FixedHeader \<Rightarrow> FixedHeader" where
  "HToN fh = fh\<lparr>fh_magic := htons (fh_magic fh),
                fh_total_size := htonl (fh_total_size fh),
                fh_header_size := htons (fh_header_size fh),
                fh_stream_id := htonl (fh_stream_id fh)\<rparr>"

definition NToH :: "FixedHeader \<Rightarrow> FixedHeader" where
  "NToH fh = fh\<lparr>fh_magic := ntohs (fh_magic fh),
                fh_total_size := ntohl (fh_total_size fh),
                fh_header_size := ntohs (fh_header_size fh),
                fh_stream_id := ntohl (fh_stream_id fh)\<rparr>"

definition IsValid :: "FixedHeader \<Rightarrow> bool" where
  "IsValid fh \<longleftrightarrow> fh_magic fh = kMagicNumber"

text \<open>The sum and the differences are computed in \<^verbatim>\<open>size_t\<close>.\<close>

definition BodySize :: "FixedHeader \<Rightarrow> nat" where
  "BodySize fh =
     (if unat (fh_total_size fh) < kFixedHeaderSize + unat (fh_header_size fh) then 0
      else unat (fh_total_size fh) - kFixedHeaderSize - unat (fh_header_size fh))"

text \<open>The packed memory image of the struct, and the struct read from 16 raw bytes.\<close>

definition fh_mem :: "FixedHeader \<Rightarrow> bytes" where
  "fh_mem fh = mem16 (fh_magic fh) @ [fh_type fh, fh_stream_type fh] @ mem32 (fh_total_size fh)
     @ mem16 (fh_header_size fh) @ mem32 (fh_stream_id fh) @ mem16 (fh_reserved fh)"

definition fh_load :: "bytes \<Rightarrow> FixedHeader" where
  "fh_load bs = \<lparr>fh_magic = load16 (take 2 bs), fh_type = bs ! 2, fh_stream_type = bs ! 3,
     fh_total_size = load32 (take 4 (drop 4 bs)), fh_header_size = load16 (take 2 (drop 8 bs)),
     fh_stream_id = load32 (take 4 (drop 10 bs)), fh_reserved = load16 (take 2 (drop 14 bs))\<rparr>"

lemma length_fh_mem [simp]: "length (fh_mem fh) = 16"
  by (simp add: fh_mem_def)

lemma fh_load_fh_mem [byte_simps]: "fh_load (fh_mem fh @ rest) = fh"
  by (simp add: fh_load_def fh_mem_def byte_simps nth_append)

lemma sixteen_bytes:
  assumes "length bs = 16"
  shows "bs = take 2 bs @ [bs ! 2, bs ! 3] @ take 4 (drop 4 bs) @ take 2 (drop 8 bs)
    @ take 4 (drop 10 bs) @ take 2 (drop 14 bs)"
  using assms by (auto simp: length_Suc_conv numeral_eq_Suc)

lemma fh_mem_fh_load [byte_simps]: "length bs = 16 \<Longrightarrow> fh_mem (fh_load bs) = bs"
  using sixteen_bytes [of bs] by (simp add: fh_load_def fh_mem_def byte_simps)

lemma NToH_HToN [byte_simps]: "NToH (HToN fh) = fh"
  by (simp add: NToH_def HToN_def byte_simps)

lemma HToN_NToH [byte_simps]: "HToN (NToH fh) = fh"
  by (simp add: NToH_def HToN_def byte_simps)

text \<open>What the decoders see of a frame: the header fields in host order.\<close>

definition wire_header :: "bytes \<Rightarrow> FixedHeader" where
  "wire_header bs = NToH (fh_load bs)"

lemma wire_header_frame [byte_simps]: "wire_header (fh_mem (HToN fh) @ rest) = fh"
  by (simp add: wire_header_def byte_simps)

lemma fh_load_append [byte_simps]: "16 \<le> length bs \<Longrightarrow> fh_load (bs @ rest) = fh_load bs"
  by (simp add: fh_load_def nth_append)

lemma wire_header_append [byte_simps]: "16 \<le> length bs \<Longrightarrow> wire_header (bs @ rest) = wire_header bs"
  by (simp add: wire_header_def byte_simps)

lemma wire_header_fields:
  "fh_magic (wire_header bs) = be16 (take 2 bs)"
  "fh_type (wire_header bs) = bs ! 2"
  "fh_stream_type (wire_header bs) = bs ! 3"
  "fh_total_size (wire_header bs) = be32 (take 4 (drop 4 bs))"
  "fh_header_size (wire_header bs) = be16 (take 2 (drop 8 bs))"
  "fh_stream_id (wire_header bs) = be32 (take 4 (drop 10 bs))"
  by (simp_all add: wire_header_def NToH_def fh_load_def be16_def be32_def)

section \<open>ProtocolMessage and ClientContext\<close>

record ProtocolMessage =
  pm_version :: ProtocolVersion
  pm_request_id :: "64 word"
  pm_content_type :: ContentType
  pm_content_encoding :: ContentEncoding
  pm_body :: bytes
  pm_service_name :: bytes
  pm_method_name :: bytes
  pm_args_size :: "32 word"
  pm_message_type :: MessageType
  pm_stream_type :: StreamType
  pm_stream_id :: "32 word"
  pm_timeout :: "32 word"
  pm_caller :: bytes
  pm_callee :: bytes
  pm_func_name :: bytes
  pm_caller_app :: bytes
  pm_ret_code :: "32 word"
  pm_error_msg :: bytes
  pm_trans_info :: "bytes \<rightharpoonup> bytes"

definition ProtocolMessage_init :: ProtocolMessage where
  "ProtocolMessage_init = \<lparr>pm_version = kXRpc, pm_request_id = 0, pm_content_type = kProtobuf,
     pm_content_encoding = kNone, pm_body = [], pm_service_name = [], pm_method_name = [],
     pm_args_size = 0, pm_message_type = kRequest, pm_stream_type = kUnary, pm_stream_id = 0,
     pm_timeout = 1000, pm_caller = [], pm_callee = [], pm_func_name = [], pm_caller_app = [],
     pm_ret_code = 0, pm_error_msg = [], pm_trans_info = Map.empty\<rparr>"

definition Reset :: "ProtocolMessage \<Rightarrow> ProtocolMessage" where
  "Reset m = m\<lparr>pm_version := kXRpc, pm_request_id := 0, pm_content_type := kProtobuf,
     pm_content_encoding := kNone, pm_body := [], pm_service_name := [], pm_method_name := [],
     pm_args_size := 0, pm_message_type := kRequest, pm_stream_type := kUnary, pm_stream_id := 0,
     pm_timeout := 1000, pm_caller := [], pm_callee := [], pm_func_name := [], pm_caller_app := [],
     pm_ret_code := 0, pm_error_msg := [], pm_trans_info := Map.empty\<rparr>"

definition IsRequest :: "ProtocolMessage \<Rightarrow> bool" where
  "IsRequest m \<longleftrightarrow> pm_message_type m = kRequest"

definition IsResponse :: "ProtocolMessage \<Rightarrow> bool" where
  "IsResponse m \<longleftrightarrow> pm_message_type m = kResponse"

definition IsOneway :: "ProtocolMessage \<Rightarrow> bool" where
  "IsOneway m \<longleftrightarrow> pm_message_type m = kOneway"

lemma Reset_init [simp]: "Reset m = ProtocolMessage_init"
  by (cases m) (simp add: Reset_def ProtocolMessage_init_def)

record ClientContext =
  cx_service_name :: bytes
  cx_method_name :: bytes
  cx_caller :: bytes
  cx_caller_app :: bytes
  cx_timeout_ms :: "32 word"

definition ClientContext_init :: ClientContext where
  "ClientContext_init = \<lparr>cx_service_name = [], cx_method_name = [], cx_caller = [],
     cx_caller_app = [], cx_timeout_ms = 1000\<rparr>"

section \<open>The protobuf messages\<close>

record RpcHeader =
  rh_service_name :: bytes
  rh_method_name :: bytes
  rh_args_size :: "32 word"

record RequestProtocol =
  rq_request_id :: "64 word"
  rq_timeout :: "32 word"
  rq_caller :: bytes
  rq_callee :: bytes
  rq_func_name :: bytes
  rq_content_type :: "32 word"
  rq_content_encoding :: "32 word"
  rq_trans_info :: "bytes \<rightharpoonup> bytes"
  rq_caller_app :: bytes
  rq_message_type :: "32 word"

record ResponseProtocol =
  rs_request_id :: "64 word"
  rs_ret_code :: "32 word"
  rs_error_msg :: bytes
  rs_content_type :: "32 word"
  rs_content_encoding :: "32 word"
  rs_trans_info :: "bytes \<rightharpoonup> bytes"

record protobuf =
  ParseRpcHeader :: "bytes \<Rightarrow> RpcHeader option"
  SerializeRpcHeader :: "RpcHeader \<Rightarrow> bytes option"
  ParseRequest :: "bytes \<Rightarrow> RequestProtocol option"
  SerializeRequest :: "RequestProtocol \<Rightarrow> bytes option"
  ParseResponse :: "bytes \<Rightarrow> ResponseProtocol option"
  SerializeResponse :: "ResponseProtocol \<Rightarrow> bytes option"

text \<open>
  What the codecs rely on: a message that serialises parses back to itself. The hypothesis is
  stated per message, because \<^verbatim>\<open>ParseFromString\<close> rejects proto3 \<^verbatim>\<open>string\<close> fields that are not UTF-8.
\<close>

definition roundtrips :: "('m \<Rightarrow> bytes option) \<Rightarrow> (bytes \<Rightarrow> 'm option) \<Rightarrow> 'm \<Rightarrow> bool" where
  "roundtrips ser parse m \<longleftrightarrow> (case ser m of None \<Rightarrow> True | Some h \<Rightarrow> parse h = Some m)"

lemma roundtripsD: "roundtrips ser parse m \<Longrightarrow> ser m = Some h \<Longrightarrow> parse h = Some m"
  by (simp add: roundtrips_def)

text \<open>
  A concrete instance of the parameter, which serialises one message of each kind: enough to see
  that the hypotheses on \<open>protobuf\<close> can hold.
\<close>

definition table_pb :: "RpcHeader \<Rightarrow> bytes \<Rightarrow> RequestProtocol \<Rightarrow> bytes \<Rightarrow> ResponseProtocol \<Rightarrow> bytes
    \<Rightarrow> protobuf" where
  "table_pb rh a rq b rs c =
     \<lparr>ParseRpcHeader = (\<lambda>x. if x = a then Some rh else None),
      SerializeRpcHeader = (\<lambda>m. if m = rh then Some a else None),
      ParseRequest = (\<lambda>x. if x = b then Some rq else None),
      SerializeRequest = (\<lambda>m. if m = rq then Some b else None),
      ParseResponse = (\<lambda>x. if x = c then Some rs else None),
      SerializeResponse = (\<lambda>m. if m = rs then Some c else None)\<rparr>"

lemma table_pb_roundtrips [simp]:
  "roundtrips (SerializeRpcHeader (table_pb rh a rq b rs c)) (ParseRpcHeader (table_pb rh a rq b rs c)) m1"
  "roundtrips (SerializeRequest (table_pb rh a rq b rs c)) (ParseRequest (table_pb rh a rq b rs c)) m2"
  "roundtrips (SerializeResponse (table_pb rh a rq b rs c)) (ParseResponse (table_pb rh a rq b rs c)) m3"
  by (simp_all add: table_pb_def roundtrips_def)

end
