(* ===== verification/Codec.thy ===== *)
theory Codec
  imports Noncontiguous_Buffer Protocol_Message
begin

text \<open>
  The abstract codec classes of \<^verbatim>\<open>src/include/xrpc/codec/codec.h\<close>. A class with virtual methods is
  a record of functions, an object of it a value of the record; the connection and metadata
  arguments, which no implementation reads, are left out. The locale \<open>server_codec\<close> states
  the contract in the comment of that header (\<open>prefix_len\<close> is the size of the length prefix); \<open>framed_server_codec\<close> adds that a decoded
  message is a function of its own frame.
\<close>

section \<open>Reading integers out of a buffer\<close>

text \<open>\<^verbatim>\<open>Peek\<close> into an integer variable: the variable's memory image is the destination.\<close>

definition peek16 :: "NoncontiguousBuffer \<Rightarrow> 16 word \<Rightarrow> nat \<Rightarrow> 16 word" where
  "peek16 b old off = load16 (snd (Peek b (mem16 old) 2 off))"

definition peek32 :: "NoncontiguousBuffer \<Rightarrow> 32 word \<Rightarrow> nat \<Rightarrow> 32 word" where
  "peek32 b old off = load32 (snd (Peek b (mem32 old) 4 off))"

definition peek8 :: "NoncontiguousBuffer \<Rightarrow> 8 word \<Rightarrow> nat \<Rightarrow> 8 word" where
  "peek8 b old off = hd (snd (Peek b [old] 1 off))"

lemma peek16_contents:
  "buffer_ok b \<Longrightarrow> off + 2 \<le> length (contents b) \<Longrightarrow>
   peek16 b old off = load16 (take 2 (drop off (contents b)))"
  by (simp add: peek16_def nb.peek_exact)

lemma peek32_contents:
  "buffer_ok b \<Longrightarrow> off + 4 \<le> length (contents b) \<Longrightarrow>
   peek32 b old off = load32 (take 4 (drop off (contents b)))"
  by (simp add: peek32_def nb.peek_exact)

lemma peek8_contents:
  "buffer_ok b \<Longrightarrow> off < length (contents b) \<Longrightarrow> peek8 b old off = contents b ! off"
  by (simp add: peek8_def nb.peek_exact hd_drop_conv_nth)

section \<open>The interface\<close>

record ServerCodec =
  CheckAndPick :: "NoncontiguousBuffer \<Rightarrow> int"
  ZeroCopyDecode :: "NoncontiguousBuffer \<Rightarrow> ProtocolMessage
    \<Rightarrow> int \<times> NoncontiguousBuffer \<times> ProtocolMessage"
  ZeroCopyEncode :: "ProtocolMessage \<Rightarrow> NoncontiguousBuffer \<Rightarrow> int \<times> NoncontiguousBuffer"

record ClientCodec =
  ClientEncode :: "ClientContext \<Rightarrow> ProtocolMessage \<Rightarrow> NoncontiguousBuffer
    \<Rightarrow> int \<times> ProtocolMessage \<times> NoncontiguousBuffer"
  ClientDecode :: "NoncontiguousBuffer \<Rightarrow> ProtocolMessage
    \<Rightarrow> int \<times> NoncontiguousBuffer \<times> ProtocolMessage"

text \<open>The verdict and the decoding result on a run of bytes held in a fresh buffer.\<close>

definition check_bytes :: "ServerCodec \<Rightarrow> bytes \<Rightarrow> int" where
  "check_bytes codec bs = CheckAndPick codec (NoncontiguousBuffer_from bs)"

definition decode_bytes :: "ServerCodec \<Rightarrow> bytes \<Rightarrow> int \<times> ProtocolMessage" where
  "decode_bytes codec bs =
     (case ZeroCopyDecode codec (NoncontiguousBuffer_from bs) ProtocolMessage_init of
        (r, _, m) \<Rightarrow> (r, m))"

locale server_codec =
  fixes codec :: ServerCodec
    and prefix_len :: nat
  assumes check_completable: "prefix_len \<le> length bs \<Longrightarrow> check_bytes codec bs = 0 \<Longrightarrow>
      \<exists>suffix. 0 < check_bytes codec (bs @ suffix)"
    and check_within: "buffer_ok b \<Longrightarrow> 0 < CheckAndPick codec b \<Longrightarrow>
      CheckAndPick codec b \<le> int (length (contents b))"
    and check_stable: "buffer_ok b \<Longrightarrow> buffer_ok b' \<Longrightarrow> contents b' = contents b @ suffix \<Longrightarrow>
      CheckAndPick codec b \<noteq> 0 \<Longrightarrow> CheckAndPick codec b' = CheckAndPick codec b"
    and check_empty: "buffer_ok b \<Longrightarrow> contents b = [] \<Longrightarrow> CheckAndPick codec b = 0"
    and decode_consumes: "buffer_ok b \<Longrightarrow> 0 < CheckAndPick codec b \<Longrightarrow>
      ZeroCopyDecode codec b m = (kCodecOk, b', m') \<Longrightarrow>
      buffer_ok b' \<and> contents b' = drop (nat (CheckAndPick codec b)) (contents b)"
    and decode_fresh: "ZeroCopyDecode codec b m = ZeroCopyDecode codec b m'"
    and encode_extends: "buffer_ok out \<Longrightarrow> ZeroCopyEncode codec m out = (r, out') \<Longrightarrow>
      buffer_ok out' \<and> take (length (contents out)) (contents out') = contents out"
begin

lemma check_bytes_within: "0 < check_bytes codec bs \<Longrightarrow> check_bytes codec bs \<le> int (length bs)"
  using check_within [of "NoncontiguousBuffer_from bs"] by (simp add: check_bytes_def)

lemma check_bytes_append:
  "check_bytes codec bs \<noteq> 0 \<Longrightarrow> check_bytes codec (bs @ suffix) = check_bytes codec bs"
  using check_stable [of "NoncontiguousBuffer_from bs" "NoncontiguousBuffer_from (bs @ suffix)" suffix]
  by (simp add: check_bytes_def)

lemma check_bytes_Nil: "check_bytes codec [] = 0"
  using check_empty [of "NoncontiguousBuffer_from []"] by (simp add: check_bytes_def)

text \<open>
  Once the fixed-size prefix is in, a rejection means that no continuation is acceptable, and
  conversely.
\<close>

lemma reject_exact:
  assumes "prefix_len \<le> length bs"
  shows "check_bytes codec bs < 0 \<longleftrightarrow> \<not> (\<exists>suffix. 0 < check_bytes codec (bs @ suffix))"
proof
  assume "check_bytes codec bs < 0"
  then show "\<not> (\<exists>suffix. 0 < check_bytes codec (bs @ suffix))"
    using check_bytes_append [of bs] by auto
next
  assume none: "\<not> (\<exists>suffix. 0 < check_bytes codec (bs @ suffix))"
  then have "\<not> 0 < check_bytes codec bs"
    by (metis append_Nil2)
  with none check_completable [OF assms] show "check_bytes codec bs < 0"
    by (cases "check_bytes codec bs" "0::int" rule: linorder_cases) auto
qed

text \<open>A positive verdict leaves strictly fewer bytes once the frame is retrieved.\<close>

lemma retrieve_decreases:
  "0 < check_bytes codec bs \<Longrightarrow> length (drop (nat (check_bytes codec bs)) bs) < length bs"
  using check_bytes_within [of bs] by (cases bs) (auto simp: check_bytes_Nil)

text \<open>The buffer the decoder leaves is what \<^verbatim>\<open>retrieve(frame_size)\<close> leaves of the network buffer.\<close>

lemma decode_leaves_retrieved:
  assumes "0 < check_bytes codec bs"
    and "ZeroCopyDecode codec (NoncontiguousBuffer_from bs) m = (kCodecOk, b', m')"
  shows "contents b' = drop (nat (check_bytes codec bs)) bs"
  using decode_consumes [of "NoncontiguousBuffer_from bs" m b' m'] assms
  by (simp add: check_bytes_def)

lemma decode_bytes_eq:
  "ZeroCopyDecode codec (NoncontiguousBuffer_from bs) m = (r, b', m') \<Longrightarrow>
   decode_bytes codec bs = (r, m')"
  using decode_fresh [of "NoncontiguousBuffer_from bs" m ProtocolMessage_init]
  by (simp add: decode_bytes_def)

end

locale framed_server_codec = server_codec +
  assumes decode_local: "buffer_ok b \<Longrightarrow> buffer_ok b' \<Longrightarrow> contents b' = contents b @ suffix \<Longrightarrow>
      0 < CheckAndPick codec b \<Longrightarrow>
      fst (ZeroCopyDecode codec b' m) = fst (ZeroCopyDecode codec b m)
      \<and> snd (snd (ZeroCopyDecode codec b' m)) = snd (snd (ZeroCopyDecode codec b m))"
begin

lemma decode_bytes_append:
  assumes "0 < check_bytes codec bs"
  shows "decode_bytes codec (bs @ suffix) = decode_bytes codec bs"
  using decode_local [of "NoncontiguousBuffer_from bs" "NoncontiguousBuffer_from (bs @ suffix)" suffix
      ProtocolMessage_init] assms
  by (auto simp: check_bytes_def decode_bytes_def split: prod.splits)

end

end
