(* ===== verification/Xrpc_Codec.thy ===== *)
theory Xrpc_Codec
  imports Codec
begin

text \<open>
  The new protocol, \<^verbatim>\<open>src/codec/xrpc_codec.cc\<close>: frames of a 16-byte fixed header, a protobuf
  variable header and a body.
\<close>

section \<open>Reading the fixed header\<close>

definition PeekFixedHeader :: "NoncontiguousBuffer \<Rightarrow> FixedHeader \<Rightarrow> int \<times> FixedHeader" where
  "PeekFixedHeader b fh =
     (if ReadableBytes b < kFixedHeaderSize then (kCodecIncomplete, fh)
      else (kCodecOk,
        fh\<lparr>fh_magic := ntohs (peek16 b 0 0),
           fh_type := peek8 b (fh_type fh) 2,
           fh_stream_type := peek8 b (fh_stream_type fh) 3,
           fh_total_size := ntohl (peek32 b 0 4),
           fh_header_size := ntohs (peek16 b 0 8),
           fh_stream_id := ntohl (peek32 b 0 10),
           fh_reserved := peek16 b (fh_reserved fh) 14\<rparr>))"

lemma PeekFixedHeader_contents:
  assumes "buffer_ok b"
  shows "PeekFixedHeader b fh =
    (if length (contents b) < 16 then (kCodecIncomplete, fh)
     else (kCodecOk, wire_header (contents b)))"
  using assms
  by (simp add: PeekFixedHeader_def buffer_simps kFixedHeaderSize_def peek16_contents peek32_contents
      peek8_contents wire_header_def NToH_def fh_load_def)

section \<open>The server codec\<close>

definition XRpcServer_CheckAndPick :: "NoncontiguousBuffer \<Rightarrow> int" where
  "XRpcServer_CheckAndPick b =
     (if ReadableBytes b < kFixedHeaderSize then 0
      else case PeekFixedHeader b FixedHeader_init of (r, fh) \<Rightarrow>
        if r \<noteq> kCodecOk then 0
        else if \<not> IsValid fh then kCodecInvalidMagic
        else if unat (fh_total_size fh) > kMaxFrameSize
                \<or> unat (fh_total_size fh) < kFixedHeaderSize then kCodecOversized
        else if unat (fh_header_size fh) > unat (fh_total_size fh) - kFixedHeaderSize
        then kCodecParseError
        else if ReadableBytes b < unat (fh_total_size fh) then 0
        else sint (fh_total_size fh))"

text \<open>The fields a parsed request or response header writes into the message.\<close>

definition take_request :: "RequestProtocol \<Rightarrow> ProtocolMessage \<Rightarrow> ProtocolMessage" where
  "take_request req m =
     (let m1 = m\<lparr>pm_message_type := kRequest,
                 pm_request_id := rq_request_id req,
                 pm_timeout := rq_timeout req,
                 pm_caller := rq_caller req,
                 pm_callee := rq_callee req,
                 pm_func_name := rq_func_name req,
                 pm_content_type := rq_content_type req,
                 pm_content_encoding := rq_content_encoding req,
                 pm_caller_app := rq_caller_app req,
                 pm_trans_info := pm_trans_info m ++ rq_trans_info req\<rparr>
      in case str_rfind (ch CHR ''/'') (pm_func_name m1) of
           None \<Rightarrow> m1
         | Some slash \<Rightarrow> m1\<lparr>pm_service_name := take slash (pm_func_name m1),
                            pm_method_name := drop (slash + 1) (pm_func_name m1)\<rparr>)"

definition take_response :: "ResponseProtocol \<Rightarrow> ProtocolMessage \<Rightarrow> ProtocolMessage" where
  "take_response resp m =
     m\<lparr>pm_request_id := rs_request_id resp,
       pm_ret_code := rs_ret_code resp,
       pm_error_msg := rs_error_msg resp,
       pm_content_type := rs_content_type resp,
       pm_content_encoding := rs_content_encoding resp,
       pm_trans_info := pm_trans_info m ++ rs_trans_info resp\<rparr>"

text \<open>
  The variable header and the body, read by \<^verbatim>\<open>Peek\<close> into zero-initialised strings of the
  announced lengths.
\<close>

definition peek_header :: "NoncontiguousBuffer \<Rightarrow> FixedHeader \<Rightarrow> bytes" where
  "peek_header b fh = snd (Peek b (replicate (unat (fh_header_size fh)) 0)
     (unat (fh_header_size fh)) kFixedHeaderSize)"

definition peek_body :: "NoncontiguousBuffer \<Rightarrow> FixedHeader \<Rightarrow> ProtocolMessage \<Rightarrow> ProtocolMessage" where
  "peek_body b fh m =
     (if BodySize fh > 0
      then m\<lparr>pm_body := snd (Peek b (replicate (BodySize fh) 0) (BodySize fh)
                (kFixedHeaderSize + unat (fh_header_size fh)))\<rparr>
      else m)"

definition XRpcServer_ZeroCopyDecode :: "protobuf \<Rightarrow> NoncontiguousBuffer \<Rightarrow> ProtocolMessage
    \<Rightarrow> int \<times> NoncontiguousBuffer \<times> ProtocolMessage" where
  "XRpcServer_ZeroCopyDecode pb b msg =
     (let m0 = (Reset msg)\<lparr>pm_version := kXRpc\<rparr> in
      case PeekFixedHeader b FixedHeader_init of (r, fh) \<Rightarrow>
      if r \<noteq> kCodecOk then (kCodecIncomplete, b, m0)
      else if \<not> IsValid fh then (kCodecInvalidMagic, b, m0)
      else
        let header_bytes = peek_header b fh;
            m1 = peek_body b fh m0;
            finish = (\<lambda>m. (kCodecOk, Skip (unat (fh_total_size fh)) b,
                       m\<lparr>pm_stream_type := fh_stream_type fh, pm_stream_id := fh_stream_id fh\<rparr>))
        in if fh_type fh = kRequest then
             (case ParseRequest pb header_bytes of
                None \<Rightarrow> (kCodecParseError, b, m1)
              | Some req \<Rightarrow> finish (take_request req m1))
           else if fh_type fh = kResponse then
             (case ParseResponse pb header_bytes of
                None \<Rightarrow> (kCodecParseError, b, m1)
              | Some resp \<Rightarrow> finish (take_response resp (m1\<lparr>pm_message_type := kResponse\<rparr>)))
           else if fh_type fh = kOneway then finish (m1\<lparr>pm_message_type := kOneway\<rparr>)
           else finish m1)"

text \<open>
  The frame writer shared by both encoders: the casts to \<^verbatim>\<open>uint16_t\<close> and \<^verbatim>\<open>uint32_t\<close> truncate.
\<close>

definition frame_header :: "8 word \<Rightarrow> ProtocolMessage \<Rightarrow> bytes \<Rightarrow> FixedHeader" where
  "frame_header type msg header_str =
     FixedHeader_init\<lparr>fh_magic := kMagicNumber,
       fh_type := type,
       fh_stream_type := pm_stream_type msg,
       fh_header_size := word_of_nat (length header_str),
       fh_stream_id := pm_stream_id msg,
       fh_total_size := word_of_nat (kFixedHeaderSize + length header_str + length (pm_body msg)),
       fh_reserved := 0\<rparr>"

definition write_frame :: "FixedHeader \<Rightarrow> bytes \<Rightarrow> bytes \<Rightarrow> NoncontiguousBuffer \<Rightarrow> NoncontiguousBuffer" where
  "write_frame fh header_str body out =
     (let out1 = Append header_str (Append (fh_mem (HToN fh)) out)
      in if body \<noteq> [] then Append body out1 else out1)"

definition response_header :: "ProtocolMessage \<Rightarrow> ResponseProtocol" where
  "response_header msg = \<lparr>rs_request_id = pm_request_id msg, rs_ret_code = pm_ret_code msg,
     rs_error_msg = pm_error_msg msg, rs_content_type = pm_content_type msg,
     rs_content_encoding = pm_content_encoding msg, rs_trans_info = pm_trans_info msg\<rparr>"

definition XRpcServer_ZeroCopyEncode :: "protobuf \<Rightarrow> ProtocolMessage \<Rightarrow> NoncontiguousBuffer
    \<Rightarrow> int \<times> NoncontiguousBuffer" where
  "XRpcServer_ZeroCopyEncode pb msg out =
     (case SerializeResponse pb (response_header msg) of
        None \<Rightarrow> (kCodecSerializeError, out)
      | Some header_str \<Rightarrow>
          let fh = frame_header kResponse msg header_str in
          if unat (fh_total_size fh) > kMaxFrameSize then (kCodecOversized, out)
          else (kCodecOk, write_frame fh header_str (pm_body msg) out))"

definition XRpcServerCodec :: "protobuf \<Rightarrow> ServerCodec" where
  "XRpcServerCodec pb = \<lparr>CheckAndPick = XRpcServer_CheckAndPick,
     ZeroCopyDecode = XRpcServer_ZeroCopyDecode pb,
     ZeroCopyEncode = XRpcServer_ZeroCopyEncode pb\<rparr>"

section \<open>The client codec\<close>

definition request_header :: "ClientContext \<Rightarrow> ProtocolMessage \<Rightarrow> RequestProtocol" where
  "request_header ctx msg = \<lparr>rq_request_id = pm_request_id msg,
     rq_timeout = (if pm_timeout msg > 0 then pm_timeout msg else cx_timeout_ms ctx),
     rq_caller = (if pm_caller msg = [] then cx_caller ctx else pm_caller msg),
     rq_callee = pm_callee msg,
     rq_func_name = (if pm_func_name msg = []
                     then pm_service_name msg @ lit ''/'' @ pm_method_name msg
                     else pm_func_name msg),
     rq_content_type = pm_content_type msg,
     rq_content_encoding = pm_content_encoding msg,
     rq_trans_info = pm_trans_info msg,
     rq_caller_app = (if pm_caller_app msg = [] then cx_caller_app ctx else pm_caller_app msg),
     rq_message_type = (if pm_message_type msg = kOneway then 2 else 0)\<rparr>"

definition XRpcClient_ZeroCopyEncode :: "protobuf \<Rightarrow> ClientContext \<Rightarrow> ProtocolMessage
    \<Rightarrow> NoncontiguousBuffer \<Rightarrow> int \<times> ProtocolMessage \<times> NoncontiguousBuffer" where
  "XRpcClient_ZeroCopyEncode pb ctx msg out =
     (case SerializeRequest pb (request_header ctx msg) of
        None \<Rightarrow> (kCodecSerializeError, msg, out)
      | Some header_str \<Rightarrow>
          let fh = frame_header (pm_message_type msg) msg header_str in
          if unat (fh_total_size fh) > kMaxFrameSize then (kCodecOversized, msg, out)
          else (kCodecOk, msg, write_frame fh header_str (pm_body msg) out))"

definition XRpcClient_ZeroCopyDecode :: "protobuf \<Rightarrow> NoncontiguousBuffer \<Rightarrow> ProtocolMessage
    \<Rightarrow> int \<times> NoncontiguousBuffer \<times> ProtocolMessage" where
  "XRpcClient_ZeroCopyDecode pb b msg =
     (let m0 = (Reset msg)\<lparr>pm_version := kXRpc, pm_message_type := kResponse\<rparr> in
      if ReadableBytes b < kFixedHeaderSize then (kCodecIncomplete, b, m0)
      else case PeekFixedHeader b FixedHeader_init of (r, fh) \<Rightarrow>
      if r \<noteq> kCodecOk then (kCodecIncomplete, b, m0)
      else if \<not> IsValid fh then (kCodecInvalidMagic, b, m0)
      else if unat (fh_total_size fh) > kMaxFrameSize then (kCodecOversized, b, m0)
      else if ReadableBytes b < unat (fh_total_size fh) then (kCodecIncomplete, b, m0)
      else
        let header_bytes = peek_header b fh;
            m1 = peek_body b fh m0
        in case ParseResponse pb header_bytes of
             None \<Rightarrow> (kCodecParseError, b, m1)
           | Some resp \<Rightarrow>
               (kCodecOk, Skip (unat (fh_total_size fh)) b,
                (take_response resp m1)\<lparr>pm_stream_type := fh_stream_type fh,
                                        pm_stream_id := fh_stream_id fh\<rparr>))"

definition XRpcClientCodec :: "protobuf \<Rightarrow> ClientCodec" where
  "XRpcClientCodec pb = \<lparr>ClientEncode = XRpcClient_ZeroCopyEncode pb,
     ClientDecode = XRpcClient_ZeroCopyDecode pb\<rparr>"

section \<open>The framing verdict\<close>

text \<open>The verdict as a function of the readable bytes, with the buffer abstracted away.\<close>

definition xrpc_verdict :: "bytes \<Rightarrow> int" where
  "xrpc_verdict c =
     (let fh = wire_header c; total = unat (fh_total_size fh) in
      if length c < 16 then 0
      else if fh_magic fh \<noteq> kMagicNumber then kCodecInvalidMagic
      else if total > kMaxFrameSize \<or> total < 16 then kCodecOversized
      else if unat (fh_header_size fh) > total - 16 then kCodecParseError
      else if length c < total then 0
      else int total)"

lemma XRpc_check_contents:
  "buffer_ok b \<Longrightarrow> XRpcServer_CheckAndPick b = xrpc_verdict (contents b)"
  by (auto simp: XRpcServer_CheckAndPick_def PeekFixedHeader_contents buffer_simps xrpc_verdict_def
      Let_def kFixedHeaderSize_def IsValid_def kCodecOk_def sint_small)

text \<open>A complete frame: what a positive verdict says about the header.\<close>

lemma xrpc_verdict_pos:
  assumes "0 < xrpc_verdict c"
  shows "16 \<le> length c"
    and "fh_magic (wire_header c) = kMagicNumber"
    and "unat (fh_total_size (wire_header c)) \<le> kMaxFrameSize"
    and "16 + unat (fh_header_size (wire_header c)) \<le> unat (fh_total_size (wire_header c))"
    and "unat (fh_total_size (wire_header c)) \<le> length c"
    and "xrpc_verdict c = int (unat (fh_total_size (wire_header c)))"
  using assms
  by (auto simp: xrpc_verdict_def Let_def kCodecInvalidMagic_def kCodecOversized_def
      kCodecParseError_def split: if_splits)

lemma xrpc_verdict_within: "0 < xrpc_verdict c \<Longrightarrow> xrpc_verdict c \<le> int (length c)"
  using xrpc_verdict_pos(5,6) [of c] by (simp only: of_nat_le_iff)

lemma xrpc_verdict_append: "xrpc_verdict c \<noteq> 0 \<Longrightarrow> xrpc_verdict (c @ suffix) = xrpc_verdict c"
  by (auto simp: xrpc_verdict_def Let_def byte_simps split: if_splits)

lemma BodySize_total:
  "16 + unat (fh_header_size fh) \<le> unat (fh_total_size fh) \<Longrightarrow>
   BodySize fh = unat (fh_total_size fh) - 16 - unat (fh_header_size fh)"
  by (simp add: BodySize_def kFixedHeaderSize_def)

section \<open>Decoding as a function of the frame\<close>

lemma peek_header_contents:
  "buffer_ok b \<Longrightarrow> 16 + unat (fh_header_size fh) \<le> length (contents b) \<Longrightarrow>
   peek_header b fh = take (unat (fh_header_size fh)) (drop 16 (contents b))"
  by (simp add: peek_header_def nb.peek_exact kFixedHeaderSize_def)

lemma peek_body_contents:
  assumes "buffer_ok b" "16 + unat (fh_header_size fh) \<le> unat (fh_total_size fh)"
    "unat (fh_total_size fh) \<le> length (contents b)" "pm_body m = []"
  shows "peek_body b fh m =
    m\<lparr>pm_body := take (BodySize fh) (drop (16 + unat (fh_header_size fh)) (contents b))\<rparr>"
proof (cases "BodySize fh = 0")
  case True
  with assms(4) show ?thesis by (cases m) (simp add: peek_body_def)
next
  case False
  with assms show ?thesis
    by (simp add: peek_body_def nb.peek_exact kFixedHeaderSize_def BodySize_total)
qed

lemma decode_cong:
  assumes "PeekFixedHeader b' FixedHeader_init = PeekFixedHeader b FixedHeader_init"
    and "\<And>r fh. PeekFixedHeader b FixedHeader_init = (r, fh) \<Longrightarrow> peek_header b' fh = peek_header b fh"
    and "\<And>r fh m. PeekFixedHeader b FixedHeader_init = (r, fh) \<Longrightarrow> pm_body m = []
      \<Longrightarrow> peek_body b' fh m = peek_body b fh m"
  shows "fst (XRpcServer_ZeroCopyDecode pb b' m) = fst (XRpcServer_ZeroCopyDecode pb b m)
    \<and> snd (snd (XRpcServer_ZeroCopyDecode pb b' m)) = snd (snd (XRpcServer_ZeroCopyDecode pb b m))"
proof -
  obtain r fh where fh: "PeekFixedHeader b FixedHeader_init = (r, fh)"
    by (cases "PeekFixedHeader b FixedHeader_init")
  have "peek_body b' fh (ProtocolMessage_init\<lparr>pm_version := kXRpc\<rparr>)
      = peek_body b fh (ProtocolMessage_init\<lparr>pm_version := kXRpc\<rparr>)"
    using assms(3) [OF fh] by (simp add: ProtocolMessage_init_def)
  with assms(1) assms(2) [OF fh] fh show ?thesis
    by (simp add: XRpcServer_ZeroCopyDecode_def Let_def split: option.splits)
qed

lemma XRpc_decode_Ok_Skip:
  assumes "buffer_ok b" "16 \<le> length (contents b)"
    and "XRpcServer_ZeroCopyDecode pb b m = (kCodecOk, b', m')"
  shows "b' = Skip (unat (fh_total_size (wire_header (contents b)))) b"
  using assms
  by (auto simp: XRpcServer_ZeroCopyDecode_def PeekFixedHeader_contents Let_def codec_consts
      split: if_splits option.splits)

section \<open>Frames on the wire\<close>

definition xrpc_frame :: "8 word \<Rightarrow> ProtocolMessage \<Rightarrow> bytes \<Rightarrow> bytes" where
  "xrpc_frame type msg header_str =
     fh_mem (HToN (frame_header type msg header_str)) @ header_str @ pm_body msg"

lemma write_frame_contents:
  assumes "buffer_ok out"
  shows "buffer_ok (write_frame fh h body out)"
    and "contents (write_frame fh h body out) = contents out @ fh_mem (HToN fh) @ h @ body"
  using assms by (simp_all add: write_frame_def Let_def buffer_simps)

lemma length_xrpc_frame [simp]:
  "length (xrpc_frame type msg h) = 16 + length h + length (pm_body msg)"
  by (simp add: xrpc_frame_def)

lemma wire_header_xrpc_frame [simp]:
  "wire_header (xrpc_frame type msg h @ rest) = frame_header type msg h"
  "wire_header (xrpc_frame type msg h) = frame_header type msg h"
  using wire_header_frame [of "frame_header type msg h" "h @ pm_body msg"]
  by (simp_all add: xrpc_frame_def byte_simps)

text \<open>Within the size limits the announced sizes are the true ones.\<close>

definition frame_fits :: "bytes \<Rightarrow> ProtocolMessage \<Rightarrow> bool" where
  "frame_fits h msg \<longleftrightarrow> length h < 2 ^ 16 \<and> 16 + length h + length (pm_body msg) \<le> kMaxFrameSize"

lemma frame_header_sizes:
  assumes "frame_fits h msg"
  shows "unat (fh_header_size (frame_header type msg h)) = length h"
    and "unat (fh_total_size (frame_header type msg h)) = 16 + length h + length (pm_body msg)"
  using assms
  by (simp_all add: frame_header_def frame_fits_def kFixedHeaderSize_def kMaxFrameSize_def
      unat_of_nat del: of_nat_add)

lemma frame_header_fields [simp]:
  "fh_magic (frame_header type msg h) = kMagicNumber"
  "fh_type (frame_header type msg h) = type"
  "fh_stream_type (frame_header type msg h) = pm_stream_type msg"
  "fh_stream_id (frame_header type msg h) = pm_stream_id msg"
  by (simp_all add: frame_header_def)

lemma xrpc_verdict_frame:
  "frame_fits h msg \<Longrightarrow>
   xrpc_verdict (xrpc_frame type msg h @ rest) = 16 + int (length h) + int (length (pm_body msg))"
  by (simp add: xrpc_verdict_def Let_def frame_header_sizes frame_fits_def)

lemma PeekFixedHeader_frame:
  "buffer_ok b \<Longrightarrow> contents b = xrpc_frame type msg h @ rest \<Longrightarrow>
   PeekFixedHeader b fh = (kCodecOk, frame_header type msg h)"
  by (simp add: PeekFixedHeader_contents)

lemma peek_parts_frame:
  assumes "buffer_ok b" "contents b = xrpc_frame type msg h @ rest" "frame_fits h msg"
  shows "peek_header b (frame_header type msg h) = h"
    and "pm_body m = [] \<Longrightarrow> peek_body b (frame_header type msg h) m = m\<lparr>pm_body := pm_body msg\<rparr>"
  using assms
  by (simp_all add: peek_header_contents peek_body_contents BodySize_total frame_header_sizes
      xrpc_frame_def)

lemma contents_Skip_frame:
  assumes "buffer_ok b" "contents b = xrpc_frame type msg h @ rest" "frame_fits h msg"
  shows "contents (Skip (unat (fh_total_size (frame_header type msg h))) b) = rest"
  using assms by (simp add: buffer_simps frame_header_sizes)

section \<open>The codec implements its interface\<close>

lemma XRpc_check_suffix:
  assumes ok: "buffer_ok b" "buffer_ok b'" and c: "contents b' = contents b @ suffix"
    and pos: "0 < XRpcServer_CheckAndPick b"
  shows "fst (XRpcServer_ZeroCopyDecode pb b' m) = fst (XRpcServer_ZeroCopyDecode pb b m)
    \<and> snd (snd (XRpcServer_ZeroCopyDecode pb b' m)) = snd (snd (XRpcServer_ZeroCopyDecode pb b m))"
proof -
  note v = xrpc_verdict_pos [of "contents b", OF pos [unfolded XRpc_check_contents [OF ok(1)]]]
  let ?fh = "wire_header (contents b)"
  have fh: "PeekFixedHeader b FixedHeader_init = (kCodecOk, ?fh)"
    using ok v(1) by (simp add: PeekFixedHeader_contents)
  have fh': "PeekFixedHeader b' FixedHeader_init = (kCodecOk, ?fh)"
    using ok c v(1) by (simp add: PeekFixedHeader_contents byte_simps)
  have hd: "peek_header b' ?fh = peek_header b ?fh"
    using ok c v(4,5) by (simp add: peek_header_contents)
  have bd: "peek_body b' ?fh x = peek_body b ?fh x" if "pm_body x = []" for x
    using ok c v(4,5) that by (simp add: peek_body_contents BodySize_total)
  show ?thesis
    by (rule decode_cong) (use fh fh' hd bd in auto)
qed

lemma xrpc_verdict_completable:
  assumes "16 \<le> length c" "xrpc_verdict c = 0"
  shows "0 < xrpc_verdict (c @ replicate (unat (fh_total_size (wire_header c))) 0)"
  using assms
  by (auto simp: xrpc_verdict_def Let_def byte_simps codec_consts uint_nat
      simp del: of_nat_unat split: if_splits)

interpretation xrpc_server: framed_server_codec "XRpcServerCodec pb" kFixedHeaderSize for pb
proof (unfold_locales, goal_cases)
  case (1 bs)
  then show ?case
    using xrpc_verdict_completable [of bs]
    by (auto simp: check_bytes_def XRpcServerCodec_def XRpc_check_contents kFixedHeaderSize_def)
next
  case (2 b)
  then show ?case
    using xrpc_verdict_within [of "contents b"] by (simp add: XRpcServerCodec_def XRpc_check_contents)
next
  case (3 b b' suffix)
  then show ?case
    using xrpc_verdict_append [of "contents b" suffix] by (simp add: XRpcServerCodec_def XRpc_check_contents)
next
  case (4 b)
  then show ?case by (simp add: XRpcServerCodec_def XRpc_check_contents xrpc_verdict_def)
next
  case (5 b m b' m')
  then show ?case
    using xrpc_verdict_pos [of "contents b"] XRpc_decode_Ok_Skip [of b pb m b' m']
    by (simp add: XRpcServerCodec_def XRpc_check_contents buffer_simps)
next
  case (6 b m m')
  show ?case by (simp add: XRpcServerCodec_def XRpcServer_ZeroCopyDecode_def)
next
  case (7 out m r out')
  then show ?case
    by (auto simp: XRpcServerCodec_def XRpcServer_ZeroCopyEncode_def Let_def write_frame_contents
        split: option.splits if_splits)
next
  case (8 b b' suffix m)
  then show ?case
    using XRpc_check_suffix [of b b' suffix pb m] by (simp add: XRpcServerCodec_def)
qed

lemma xrpc_response_decodes:
  assumes ser: "SerializeResponse pb (response_header msg) = Some h"
    and rt: "roundtrips (SerializeResponse pb) (ParseResponse pb) (response_header msg)"
    and fits: "frame_fits h msg"
    and b: "buffer_ok b" "contents b = xrpc_frame kResponse msg h @ rest"
  shows "\<exists>b'. XRpcClient_ZeroCopyDecode pb b m =
          (kCodecOk, b', ProtocolMessage_init
             \<lparr>pm_message_type := kResponse, pm_body := pm_body msg,
              pm_request_id := pm_request_id msg, pm_ret_code := pm_ret_code msg,
              pm_error_msg := pm_error_msg msg, pm_content_type := pm_content_type msg,
              pm_content_encoding := pm_content_encoding msg,
              pm_trans_info := pm_trans_info msg,
              pm_stream_type := pm_stream_type msg, pm_stream_id := pm_stream_id msg\<rparr>)
      \<and> buffer_ok b' \<and> contents b' = rest"
proof -
  let ?fh = "frame_header kResponse msg h"
  have parse: "ParseResponse pb h = Some (response_header msg)"
    by (rule roundtripsD [OF rt ser])
  have small: "unat (fh_total_size ?fh) \<le> kMaxFrameSize"
    using fits by (simp add: frame_header_sizes frame_fits_def)
  have avail: "16 \<le> ReadableBytes b" "unat (fh_total_size ?fh) \<le> ReadableBytes b"
    using b fits by (simp_all add: buffer_simps frame_header_sizes)
  show ?thesis
    using b fits parse small avail contents_Skip_frame [OF b fits]
    by (simp add: XRpcClient_ZeroCopyDecode_def PeekFixedHeader_frame IsValid_def peek_parts_frame
        ProtocolMessage_init_def take_response_def response_header_def kFixedHeaderSize_def not_less
        buffer_simps)
qed

section \<open>Properties\<close>

text \<open>What the fields of a request header become: the function name that is sent, its two parts
  around the last slash, and the whole message the server keeps for the header the client built.\<close>

definition func_name_of :: "ProtocolMessage \<Rightarrow> bytes" where
  "func_name_of msg = (if pm_func_name msg = []
     then pm_service_name msg @ lit ''/'' @ pm_method_name msg else pm_func_name msg)"

definition service_part :: "bytes \<Rightarrow> bytes" where
  "service_part f = (case str_rfind (ch CHR ''/'') f of None \<Rightarrow> [] | Some i \<Rightarrow> take i f)"

definition method_part :: "bytes \<Rightarrow> bytes" where
  "method_part f = (case str_rfind (ch CHR ''/'') f of None \<Rightarrow> [] | Some i \<Rightarrow> drop (i + 1) f)"

lemma func_name_parts:
  "if ch CHR ''/'' \<in> set f
   then f = service_part f @ lit ''/'' @ method_part f \<and> ch CHR ''/'' \<notin> set (method_part f)
   else service_part f = [] \<and> method_part f = []"
proof (cases "str_rfind (ch CHR ''/'') f")
  case None
  then have "ch CHR ''/'' \<notin> set f" by (simp add: str_rfind_None)
  with None show ?thesis by (simp add: service_part_def method_part_def)
next
  case (Some i)
  from str_rfind_SomeD [OF this] have "f = take i f @ ch CHR ''/'' # drop (Suc i) f"
    using id_take_nth_drop [of i f] by simp
  moreover have "ch CHR ''/'' \<in> set f"
    using str_rfind_SomeD [OF Some] nth_mem [of i f] by simp
  ultimately show ?thesis
    using Some str_rfind_SomeD [OF Some] by (simp add: service_part_def method_part_def)
qed

lemma func_name_names:
  assumes "pm_func_name msg = []" and "ch CHR ''/'' \<notin> set (pm_method_name msg)"
  shows "service_part (func_name_of msg) = pm_service_name msg"
    and "method_part (func_name_of msg) = pm_method_name msg"
  using assms
  by (simp_all add: func_name_of_def service_part_def method_part_def str_rfind_append)

lemma take_request_header:
  "take_request (request_header ctx msg) (ProtocolMessage_init\<lparr>pm_body := pm_body msg\<rparr>) =
    ProtocolMessage_init
      \<lparr>pm_message_type := kRequest, pm_body := pm_body msg, pm_request_id := pm_request_id msg,
       pm_timeout := (if pm_timeout msg > 0 then pm_timeout msg else cx_timeout_ms ctx),
       pm_caller := (if pm_caller msg = [] then cx_caller ctx else pm_caller msg),
       pm_callee := pm_callee msg, pm_func_name := func_name_of msg,
       pm_content_type := pm_content_type msg, pm_content_encoding := pm_content_encoding msg,
       pm_caller_app := (if pm_caller_app msg = [] then cx_caller_app ctx else pm_caller_app msg),
       pm_trans_info := pm_trans_info msg,
       pm_service_name := service_part (func_name_of msg),
       pm_method_name := method_part (func_name_of msg)\<rparr>"
  unfolding take_request_def request_header_def func_name_of_def [symmetric] Let_def
    service_part_def method_part_def
  by (simp add: ProtocolMessage_init_def split: option.split)

text \<open>C3: encoding a request with the client codec and decoding it with the server codec. Within the
  size limits the encoder succeeds and appends exactly one frame, and for any buffer that starts with
  that frame the server accepts exactly it, consumes exactly it, and its message has the request id,
  callee, content type, encoding, pass-through map, body and stream fields of the client's message, and
  the timeout, caller and caller application of the message or, where those are empty, of the client
  context. The service and method names arrive as they were sent when the client named no function;
  a function name is passed on and split at its last slash. The protobuf header on the wire carries
  each of these values under its own field.\<close>

theorem xrpc_request_roundtrip:
  assumes out: "buffer_ok out"
    and ser: "SerializeRequest pb (request_header ctx msg) = Some h"
    and rt: "roundtrips (SerializeRequest pb) (ParseRequest pb) (request_header ctx msg)"
    and fits: "frame_fits h msg"
    and ty: "pm_message_type msg = kRequest"
    and b: "buffer_ok b" "contents b = xrpc_frame kRequest msg h @ rest"
  shows "\<exists>out' b' fname service procedure.
      XRpcClient_ZeroCopyEncode pb ctx msg out = (kCodecOk, msg, out')
      \<and> contents out' = contents out @ xrpc_frame kRequest msg h
      \<and> XRpcServer_CheckAndPick b = int (length (xrpc_frame kRequest msg h))
      \<and> XRpcServer_ZeroCopyDecode pb b m = (kCodecOk, b', ProtocolMessage_init
          \<lparr>pm_message_type := kRequest, pm_body := pm_body msg,
           pm_request_id := pm_request_id msg,
           pm_timeout := (if pm_timeout msg > 0 then pm_timeout msg else cx_timeout_ms ctx),
           pm_caller := (if pm_caller msg = [] then cx_caller ctx else pm_caller msg),
           pm_callee := pm_callee msg, pm_func_name := fname,
           pm_content_type := pm_content_type msg, pm_content_encoding := pm_content_encoding msg,
           pm_caller_app := (if pm_caller_app msg = [] then cx_caller_app ctx else pm_caller_app msg),
           pm_trans_info := pm_trans_info msg,
           pm_service_name := service, pm_method_name := procedure,
           pm_stream_type := pm_stream_type msg, pm_stream_id := pm_stream_id msg\<rparr>)
      \<and> contents b' = rest
      \<and> (pm_func_name msg \<noteq> [] \<longrightarrow> fname = pm_func_name msg)
      \<and> (pm_func_name msg = [] \<longrightarrow> fname = pm_service_name msg @ lit ''/'' @ pm_method_name msg)
      \<and> (pm_func_name msg = [] \<and> ch CHR ''/'' \<notin> set (pm_method_name msg) \<longrightarrow>
          service = pm_service_name msg \<and> procedure = pm_method_name msg)
      \<and> (if ch CHR ''/'' \<in> set fname
         then fname = service @ lit ''/'' @ procedure \<and> ch CHR ''/'' \<notin> set procedure
         else service = [] \<and> procedure = [])
      \<and> ParseRequest pb h = Some \<lparr>rq_request_id = pm_request_id msg,
           rq_timeout = (if pm_timeout msg > 0 then pm_timeout msg else cx_timeout_ms ctx),
           rq_caller = (if pm_caller msg = [] then cx_caller ctx else pm_caller msg),
           rq_callee = pm_callee msg, rq_func_name = fname,
           rq_content_type = pm_content_type msg, rq_content_encoding = pm_content_encoding msg,
           rq_trans_info = pm_trans_info msg,
           rq_caller_app = (if pm_caller_app msg = [] then cx_caller_app ctx else pm_caller_app msg),
           rq_message_type = 0\<rparr>"
proof -
  let ?fh = "frame_header kRequest msg h"
  have parse: "ParseRequest pb h = Some (request_header ctx msg)"
    by (rule roundtripsD [OF rt ser])
  have small: "unat (fh_total_size ?fh) \<le> kMaxFrameSize"
    using fits by (simp add: frame_header_sizes frame_fits_def)
  have enc: "XRpcClient_ZeroCopyEncode pb ctx msg out =
      (kCodecOk, msg, write_frame ?fh h (pm_body msg) out)"
    using small by (simp add: XRpcClient_ZeroCopyEncode_def ser ty Let_def)
  have verdict: "XRpcServer_CheckAndPick b = int (length (xrpc_frame kRequest msg h))"
    using b fits by (simp add: XRpc_check_contents xrpc_verdict_frame)
  have dec: "XRpcServer_ZeroCopyDecode pb b m =
      (kCodecOk, Skip (unat (fh_total_size ?fh)) b,
       (take_request (request_header ctx msg) (ProtocolMessage_init\<lparr>pm_body := pm_body msg\<rparr>))
         \<lparr>pm_stream_type := pm_stream_type msg, pm_stream_id := pm_stream_id msg\<rparr>)"
    using b fits parse
    by (simp add: XRpcServer_ZeroCopyDecode_def PeekFixedHeader_frame IsValid_def peek_parts_frame
        ProtocolMessage_init_def)
  have "contents (write_frame ?fh h (pm_body msg) out) = contents out @ xrpc_frame kRequest msg h"
    using write_frame_contents [OF out] by (simp add: xrpc_frame_def)
  moreover have "func_name_of msg = pm_func_name msg" if "pm_func_name msg \<noteq> []"
    using that by (simp add: func_name_of_def)
  moreover have "func_name_of msg = pm_service_name msg @ lit ''/'' @ pm_method_name msg"
    if "pm_func_name msg = []"
    using that by (simp add: func_name_of_def)
  moreover have "request_header ctx msg = \<lparr>rq_request_id = pm_request_id msg,
      rq_timeout = (if pm_timeout msg > 0 then pm_timeout msg else cx_timeout_ms ctx),
      rq_caller = (if pm_caller msg = [] then cx_caller ctx else pm_caller msg),
      rq_callee = pm_callee msg, rq_func_name = func_name_of msg,
      rq_content_type = pm_content_type msg, rq_content_encoding = pm_content_encoding msg,
      rq_trans_info = pm_trans_info msg,
      rq_caller_app = (if pm_caller_app msg = [] then cx_caller_app ctx else pm_caller_app msg),
      rq_message_type = 0\<rparr>"
    using ty by (simp add: request_header_def func_name_of_def kRequest_def kOneway_def)
  ultimately show ?thesis
    unfolding dec take_request_header parse
    using enc verdict contents_Skip_frame [OF b fits] func_name_parts [of "func_name_of msg"]
      func_name_names [of msg] by blast
qed

text \<open>C10: the same for a response, from the server codec to the client codec: the client recovers
  the request id, return code, error text, content type and encoding, the pass-through map, the body
  and the stream fields, and consumes exactly the frame.\<close>

theorem xrpc_response_roundtrip:
  assumes out: "buffer_ok out"
    and ser: "SerializeResponse pb (response_header msg) = Some h"
    and rt: "roundtrips (SerializeResponse pb) (ParseResponse pb) (response_header msg)"
    and fits: "frame_fits h msg"
    and b: "buffer_ok b" "contents b = xrpc_frame kResponse msg h @ rest"
  shows "\<exists>out' b'. XRpcServer_ZeroCopyEncode pb msg out = (kCodecOk, out')
      \<and> contents out' = contents out @ xrpc_frame kResponse msg h
      \<and> XRpcClient_ZeroCopyDecode pb b m =
          (kCodecOk, b', ProtocolMessage_init
             \<lparr>pm_message_type := kResponse, pm_body := pm_body msg,
              pm_request_id := pm_request_id msg, pm_ret_code := pm_ret_code msg,
              pm_error_msg := pm_error_msg msg, pm_content_type := pm_content_type msg,
              pm_content_encoding := pm_content_encoding msg,
              pm_trans_info := pm_trans_info msg,
              pm_stream_type := pm_stream_type msg, pm_stream_id := pm_stream_id msg\<rparr>)
      \<and> contents b' = rest"
proof -
  let ?fh = "frame_header kResponse msg h"
  have "unat (fh_total_size ?fh) \<le> kMaxFrameSize"
    using fits by (simp add: frame_header_sizes frame_fits_def)
  then have "XRpcServer_ZeroCopyEncode pb msg out = (kCodecOk, write_frame ?fh h (pm_body msg) out)"
    by (simp add: XRpcServer_ZeroCopyEncode_def ser Let_def)
  with write_frame_contents(2) [OF out] xrpc_response_decodes [OF ser rt fits b, of m] show ?thesis
    by (auto simp: xrpc_frame_def)
qed

text \<open>C12: once the fixed header has arrived, the server codec rejects the bytes exactly when no
  continuation of them could ever become an acceptable frame: a connection is dropped for a framing
  error only when waiting is pointless, and never kept waiting for a frame that cannot come.\<close>

theorem xrpc_reject_exact:
  assumes "16 \<le> length bs"
  shows "check_bytes (XRpcServerCodec pb) bs < 0 \<longleftrightarrow>
    \<not> (\<exists>suffix. 0 < check_bytes (XRpcServerCodec pb) (bs @ suffix))"
  by (rule xrpc_server.reject_exact) (use assms in \<open>simp add: kFixedHeaderSize_def\<close>)


text \<open>The limit of 16 MiB is checked after the size has been cut to 32 bits. Whatever the true
  size is, the encoder accepts exactly when the truncated size is within the limit, and that
  truncated size is what the frame announces.\<close>

lemma xrpc_size_limit_modulo:
  assumes ser: "SerializeResponse pb (response_header msg) = Some h"
  shows "XRpcServer_ZeroCopyEncode pb msg out =
    (if (16 + length h + length (pm_body msg)) mod 2 ^ 32 > kMaxFrameSize then (kCodecOversized, out)
     else (kCodecOk, write_frame (frame_header kResponse msg h) h (pm_body msg) out))
    \<and> unat (fh_total_size (wire_header (xrpc_frame kResponse msg h)))
        = (16 + length h + length (pm_body msg)) mod 2 ^ 32"
proof -
  have "unat (fh_total_size (frame_header kResponse msg h))
      = (16 + length h + length (pm_body msg)) mod 2 ^ 32"
    by (simp add: frame_header_def kFixedHeaderSize_def unat_of_nat del: of_nat_add)
  then show ?thesis
    by (simp add: XRpcServer_ZeroCopyEncode_def ser Let_def)
qed

text \<open>A one-way frame never names its target. The server codec does not parse the variable
  header of a frame of type \<^verbatim>\<open>kOneway\<close>, although the client codec writes the function name there, so
  the decoded message has no service and no method name.\<close>

lemma xrpc_oneway_loses_target:
  assumes ser: "SerializeRequest pb (request_header ctx msg) = Some h"
    and fits: "frame_fits h msg"
    and ty: "pm_message_type msg = kOneway"
    and b: "buffer_ok b" "contents b = xrpc_frame kOneway msg h @ rest"
  shows "fst (XRpcClient_ZeroCopyEncode pb ctx msg out) = kCodecOk
    \<and> (\<exists>b' m'. XRpcServer_ZeroCopyDecode pb b m = (kCodecOk, b', m')
        \<and> contents b' = rest \<and> pm_body m' = pm_body msg \<and> IsOneway m'
        \<and> pm_service_name m' = [] \<and> pm_method_name m' = [])"
proof -
  let ?fh = "frame_header kOneway msg h"
  have "unat (fh_total_size ?fh) \<le> kMaxFrameSize"
    using fits by (simp add: frame_header_sizes frame_fits_def)
  then have "fst (XRpcClient_ZeroCopyEncode pb ctx msg out) = kCodecOk"
    by (simp add: XRpcClient_ZeroCopyEncode_def ser ty Let_def)
  moreover have "XRpcServer_ZeroCopyDecode pb b m = (kCodecOk, Skip (unat (fh_total_size ?fh)) b,
      ProtocolMessage_init\<lparr>pm_body := pm_body msg, pm_message_type := kOneway,
        pm_stream_type := pm_stream_type msg, pm_stream_id := pm_stream_id msg\<rparr>)"
    using b fits
    by (simp add: XRpcServer_ZeroCopyDecode_def PeekFixedHeader_frame IsValid_def peek_parts_frame
        ProtocolMessage_init_def message_types)
  ultimately show ?thesis
    using contents_Skip_frame [OF b fits] by (simp add: IsOneway_def ProtocolMessage_init_def)
qed

section \<open>Witnesses\<close>

definition sample_request :: ProtocolMessage where
  "sample_request = ProtocolMessage_init\<lparr>pm_service_name := lit ''UserServiceRpc'',
     pm_method_name := lit ''Login'', pm_body := [10, 1, 97]\<rparr>"

definition sample_response :: ProtocolMessage where
  "sample_response = ProtocolMessage_init\<lparr>pm_message_type := kResponse, pm_body := [16, 1]\<rparr>"

lemma sample_fields [simp]:
  "pm_service_name sample_request = lit ''UserServiceRpc''"
  "pm_method_name sample_request = lit ''Login''" "pm_func_name sample_request = []"
  "pm_body sample_request = [10, 1, 97]" "pm_message_type sample_request = kRequest"
  "pm_body sample_response = [16, 1]"
  by (simp_all add: sample_request_def sample_response_def ProtocolMessage_init_def)

definition sample_pb :: "RequestProtocol \<Rightarrow> bytes \<Rightarrow> protobuf" where
  "sample_pb req h = table_pb \<lparr>rh_service_name = [], rh_method_name = [], rh_args_size = 0\<rparr> []
     req h (response_header sample_response) [8, 0]"

lemma sample_pb_simps [simp]:
  "SerializeRequest (sample_pb req h) req = Some h"
  "SerializeResponse (sample_pb req h) (response_header sample_response) = Some [8, 0]"
  "roundtrips (SerializeRequest (sample_pb req h)) (ParseRequest (sample_pb req h)) m2"
  "roundtrips (SerializeResponse (sample_pb req h)) (ParseResponse (sample_pb req h)) m3"
  by (simp_all add: sample_pb_def) (simp_all add: table_pb_def)

theorem xrpc_request_roundtrip_witness:
  "\<exists>out' b' m'. XRpcClient_ZeroCopyEncode
        (sample_pb (request_header ClientContext_init sample_request) [8, 7])
        ClientContext_init sample_request empty_buffer = (kCodecOk, sample_request, out')
      \<and> contents out' = xrpc_frame kRequest sample_request [8, 7]
      \<and> XRpcServer_CheckAndPick
          (NoncontiguousBuffer_from (xrpc_frame kRequest sample_request [8, 7] @ [75, 82])) = 21
      \<and> XRpcServer_ZeroCopyDecode
          (sample_pb (request_header ClientContext_init sample_request) [8, 7])
          (NoncontiguousBuffer_from (xrpc_frame kRequest sample_request [8, 7] @ [75, 82]))
          ProtocolMessage_init = (kCodecOk, b', m')
      \<and> pm_service_name m' = lit ''UserServiceRpc'' \<and> pm_method_name m' = lit ''Login''
      \<and> pm_body m' = [10, 1, 97] \<and> contents b' = [75, 82]"
proof -
  let ?pb = "sample_pb (request_header ClientContext_init sample_request) [8, 7]"
  let ?b = "NoncontiguousBuffer_from (xrpc_frame kRequest sample_request [8, 7] @ [75, 82])"
  have fits: "frame_fits [8, 7] sample_request" by (simp add: frame_fits_def kMaxFrameSize_def)
  have plain: "ch CHR ''/'' \<notin> set (pm_method_name sample_request)" by simp code_simp
  note rt = xrpc_request_roundtrip [of empty_buffer ?pb ClientContext_init sample_request "[8, 7]"
      ?b "[75, 82]" ProtocolMessage_init, OF _ sample_pb_simps(1,3) fits]
  have ok: "buffer_ok empty_buffer" "contents empty_buffer = []" "buffer_ok ?b"
    "contents ?b = xrpc_frame kRequest sample_request [8, 7] @ [75, 82]"
    by (simp_all add: buffer_simps)
  have "int (length (xrpc_frame kRequest sample_request [8, 7])) = 21" by simp
  with rt [OF ok(1) sample_fields(5) ok(3,4)] ok(2) plain show ?thesis
    unfolding sample_fields by (elim exE conjE) (simp del: lit_Cons)
qed

theorem xrpc_response_roundtrip_witness:
  "\<exists>out' b' m'. XRpcServer_ZeroCopyEncode
        (sample_pb (request_header ClientContext_init sample_request) []) sample_response empty_buffer
        = (kCodecOk, out')
      \<and> XRpcClient_ZeroCopyDecode (sample_pb (request_header ClientContext_init sample_request) [])
          (NoncontiguousBuffer_from (xrpc_frame kResponse sample_response [8, 0]))
          ProtocolMessage_init = (kCodecOk, b', m')
      \<and> pm_body m' = [16, 1] \<and> contents b' = []"
  using xrpc_response_roundtrip [of empty_buffer
      "sample_pb (request_header ClientContext_init sample_request) []" sample_response "[8, 0]"
      "NoncontiguousBuffer_from (xrpc_frame kResponse sample_response [8, 0])"
      "[]" ProtocolMessage_init]
  by (auto simp: buffer_simps frame_fits_def kMaxFrameSize_def)

theorem xrpc_reject_exact_witness:
  "check_bytes (XRpcServerCodec (sample_pb (request_header ClientContext_init sample_request) []))
      (replicate 16 0) < 0
    \<and> \<not> (\<exists>suffix. 0 < check_bytes
         (XRpcServerCodec (sample_pb (request_header ClientContext_init sample_request) []))
         (replicate 16 0 @ suffix))"
proof -
  have "xrpc_verdict (replicate 16 0) = kCodecInvalidMagic"
    by code_simp
  then have "check_bytes (XRpcServerCodec pb) (replicate 16 0) < 0" for pb
    by (simp add: check_bytes_def XRpcServerCodec_def XRpc_check_contents kCodecInvalidMagic_def)
  then show ?thesis
    using xrpc_reject_exact [of "replicate 16 0"
        "sample_pb (request_header ClientContext_init sample_request) []"] by simp
qed


end
