(* ===== verification/Legacy_Codec.thy ===== *)
theory Legacy_Codec
  imports Codec
begin

text \<open>
  The old protocol, \<^verbatim>\<open>src/codec/legacy_codec.cc\<close>: a 4-byte total length, a 4-byte header length, a
  protobuf \<^verbatim>\<open>RpcHeader\<close> and the body in a request; a 4-byte length and the body in a response.
  The lengths are 32-bit, and their sums and differences wrap around as they do in the source.
\<close>

section \<open>The server codec\<close>

definition LegacyServer_CheckAndPick :: "NoncontiguousBuffer \<Rightarrow> int" where
  "LegacyServer_CheckAndPick b =
     (if ReadableBytes b < 4 then 0
      else
        let total_len = ntohl (peek32 b 0 0) in
        if unat total_len > kMaxFrameSize then kCodecOversized
        else if unat total_len < 4 then kCodecParseError
        else if ReadableBytes b < unat (4 + total_len) then 0
        else sint (4 + total_len))"

definition LegacyServer_ZeroCopyDecode :: "protobuf \<Rightarrow> NoncontiguousBuffer \<Rightarrow> ProtocolMessage
    \<Rightarrow> int \<times> NoncontiguousBuffer \<times> ProtocolMessage" where
  "LegacyServer_ZeroCopyDecode pb b msg =
     (let m0 = (Reset msg)\<lparr>pm_version := kLegacy\<rparr>;
          total_len = ntohl (peek32 b 0 0);
          header_len = ntohl (peek32 b 0 4);
          header_bytes = snd (Peek b (replicate (unat header_len) 0) (unat header_len) 8)
      in case ParseRpcHeader pb header_bytes of
           None \<Rightarrow> (kCodecParseError, b, m0)
         | Some rpc_header \<Rightarrow>
             let m1 = m0\<lparr>pm_service_name := rh_service_name rpc_header,
                         pm_method_name := rh_method_name rpc_header,
                         pm_args_size := rh_args_size rpc_header\<rparr>;
                 body_len = unat (total_len - 4 - header_len);
                 m2 = (if body_len > 0
                       then m1\<lparr>pm_body := snd (Peek b (replicate body_len 0) body_len
                                               (unat (8 + header_len)))\<rparr>
                       else m1)
             in (kCodecOk, Skip (unat (4 + total_len)) b, m2))"

definition LegacyServer_ZeroCopyEncode :: "ProtocolMessage \<Rightarrow> NoncontiguousBuffer
    \<Rightarrow> int \<times> NoncontiguousBuffer" where
  "LegacyServer_ZeroCopyEncode msg out =
     (let body_len = (word_of_nat (length (pm_body msg)) :: 32 word);
          total_len = body_len;
          out1 = Append (mem32 (htonl total_len)) out
      in (kCodecOk, if unat body_len > 0 then Append (take (unat body_len) (pm_body msg)) out1
                    else out1))"

definition LegacyServerCodec :: "protobuf \<Rightarrow> ServerCodec" where
  "LegacyServerCodec pb = \<lparr>CheckAndPick = LegacyServer_CheckAndPick,
     ZeroCopyDecode = LegacyServer_ZeroCopyDecode pb,
     ZeroCopyEncode = LegacyServer_ZeroCopyEncode\<rparr>"

section \<open>The client codec\<close>

definition rpc_header :: "ClientContext \<Rightarrow> ProtocolMessage \<Rightarrow> RpcHeader" where
  "rpc_header ctx msg =
     \<lparr>rh_service_name = (if pm_service_name msg = [] then cx_service_name ctx else pm_service_name msg),
      rh_method_name = (if pm_method_name msg = [] then cx_method_name ctx else pm_method_name msg),
      rh_args_size = word_of_nat (length (pm_body msg))\<rparr>"

definition LegacyClient_ZeroCopyEncode :: "protobuf \<Rightarrow> ClientContext \<Rightarrow> ProtocolMessage
    \<Rightarrow> NoncontiguousBuffer \<Rightarrow> int \<times> ProtocolMessage \<times> NoncontiguousBuffer" where
  "LegacyClient_ZeroCopyEncode pb ctx msg0 out =
     (let msg = msg0\<lparr>pm_version := kLegacy\<rparr> in
      case SerializeRpcHeader pb (rpc_header ctx msg) of
        None \<Rightarrow> (kCodecSerializeError, msg, out)
      | Some header_str \<Rightarrow>
          let header_len = (word_of_nat (length header_str) :: 32 word);
              total_len = (word_of_nat (4 + unat header_len + length (pm_body msg)) :: 32 word);
              out1 = Append (mem32 (htonl total_len)) out;
              out2 = Append (mem32 (htonl header_len)) out1;
              out3 = Append header_str out2
          in (kCodecOk, msg, if pm_body msg \<noteq> [] then Append (pm_body msg) out3 else out3))"

definition LegacyClient_ZeroCopyDecode :: "NoncontiguousBuffer \<Rightarrow> ProtocolMessage
    \<Rightarrow> int \<times> NoncontiguousBuffer \<times> ProtocolMessage" where
  "LegacyClient_ZeroCopyDecode b msg =
     (let m0 = (Reset msg)\<lparr>pm_version := kLegacy\<rparr> in
      if ReadableBytes b < 4 then (kCodecIncomplete, b, m0)
      else
        let total_len = ntohl (peek32 b 0 0) in
        if unat total_len > kMaxFrameSize then (kCodecOversized, b, m0)
        else if ReadableBytes b < unat (4 + total_len) then (kCodecIncomplete, b, m0)
        else (kCodecOk, Skip (unat (4 + total_len)) b,
              m0\<lparr>pm_body := snd (Peek b (replicate (unat total_len) 0) (unat total_len) 4),
                 pm_message_type := kResponse\<rparr>))"

definition LegacyClientCodec :: "protobuf \<Rightarrow> ClientCodec" where
  "LegacyClientCodec pb = \<lparr>ClientEncode = LegacyClient_ZeroCopyEncode pb,
     ClientDecode = LegacyClient_ZeroCopyDecode\<rparr>"

section \<open>The framing verdict\<close>

definition legacy_verdict :: "bytes \<Rightarrow> int" where
  "legacy_verdict c =
     (let total = unat (be32 (take 4 c)) in
      if length c < 4 then 0
      else if total > kMaxFrameSize then kCodecOversized
      else if total < 4 then kCodecParseError
      else if length c < 4 + total then 0
      else 4 + int total)"

lemma unat_plus_small:
  "k \<le> 16 \<Longrightarrow> unat w \<le> kMaxFrameSize \<Longrightarrow> unat (word_of_nat k + w :: 32 word) = k + unat w"
  by (subst unat_add_lem [THEN iffD1]) (simp_all add: unat_of_nat kMaxFrameSize_def)

lemma unat_4_plus: "unat w \<le> kMaxFrameSize \<Longrightarrow> unat (4 + w :: 32 word) = 4 + unat w"
  using unat_plus_small [of 4 w] by simp

lemma sint_4_plus: "unat w \<le> kMaxFrameSize \<Longrightarrow> sint (4 + w :: 32 word) = 4 + int (unat w)"
  using unat_4_plus [of w]
  by (simp add: sint_uint uint_nat kMaxFrameSize_def signed_take_bit_int_eq_self del: of_nat_unat)

lemma Legacy_check_contents:
  "buffer_ok b \<Longrightarrow> LegacyServer_CheckAndPick b = legacy_verdict (contents b)"
  by (auto simp: LegacyServer_CheckAndPick_def legacy_verdict_def Let_def buffer_simps peek32_contents
      be32_def unat_4_plus sint_4_plus)

lemma legacy_verdict_pos:
  assumes "0 < legacy_verdict c"
  shows "8 \<le> length c"
    and "4 \<le> unat (be32 (take 4 c))" "unat (be32 (take 4 c)) \<le> kMaxFrameSize"
    and "4 + unat (be32 (take 4 c)) \<le> length c"
    and "legacy_verdict c = 4 + int (unat (be32 (take 4 c)))"
  using assms
  by (auto simp: legacy_verdict_def Let_def kCodecOversized_def kCodecParseError_def
      split: if_splits)

lemma legacy_verdict_within: "0 < legacy_verdict c \<Longrightarrow> legacy_verdict c \<le> int (length c)"
  using legacy_verdict_pos(4,5) [of c] by linarith

lemma legacy_verdict_append: "legacy_verdict c \<noteq> 0 \<Longrightarrow> legacy_verdict (c @ suffix) = legacy_verdict c"
  by (auto simp: legacy_verdict_def Let_def split: if_splits)

lemma legacy_verdict_completable:
  assumes "4 \<le> length c" "legacy_verdict c = 0"
  shows "0 < legacy_verdict (c @ replicate (unat (be32 (take 4 c))) 0)"
  using assms
  by (auto simp: legacy_verdict_def Let_def codec_consts uint_nat simp del: of_nat_unat
      split: if_splits)

interpretation legacy_server: server_codec "LegacyServerCodec pb" 4 for pb
proof (unfold_locales, goal_cases)
  case (1 bs)
  then show ?case
    using legacy_verdict_completable [of bs]
    by (auto simp: check_bytes_def LegacyServerCodec_def Legacy_check_contents)
next
  case (2 b)
  then show ?case
    using legacy_verdict_within [of "contents b"] by (simp add: LegacyServerCodec_def Legacy_check_contents)
next
  case (3 b b' suffix)
  then show ?case
    using legacy_verdict_append [of "contents b" suffix] by (simp add: LegacyServerCodec_def Legacy_check_contents)
next
  case (4 b)
  then show ?case by (simp add: LegacyServerCodec_def Legacy_check_contents legacy_verdict_def)
next
  case (5 b m b' m')
  then have pos: "0 < legacy_verdict (contents b)"
    by (simp add: LegacyServerCodec_def Legacy_check_contents)
  from 5(3) have "b' = Skip (unat (4 + ntohl (peek32 b 0 0))) b"
    by (auto simp: LegacyServerCodec_def LegacyServer_ZeroCopyDecode_def Let_def codec_consts
        split: option.splits)
  with 5(1) pos legacy_verdict_pos [OF pos] show ?case
    by (simp add: LegacyServerCodec_def Legacy_check_contents buffer_simps peek32_contents
        be32_def [symmetric] unat_4_plus nat_add_distrib)
next
  case (6 b m m')
  show ?case by (simp add: LegacyServerCodec_def LegacyServer_ZeroCopyDecode_def)
next
  case (7 out m r out')
  then show ?case
    by (auto simp: LegacyServerCodec_def LegacyServer_ZeroCopyEncode_def Let_def buffer_simps)
qed

section \<open>Frames on the wire\<close>

definition legacy_request_frame :: "bytes \<Rightarrow> bytes \<Rightarrow> bytes" where
  "legacy_request_frame h body =
     rev (mem32 (word_of_nat (4 + length h + length body))) @ rev (mem32 (word_of_nat (length h)))
     @ h @ body"

definition legacy_response_frame :: "bytes \<Rightarrow> bytes" where
  "legacy_response_frame body = rev (mem32 (word_of_nat (length body))) @ body"

lemma length_legacy_frames [simp]:
  "length (legacy_request_frame h body) = 8 + length h + length body"
  "length (legacy_response_frame body) = 4 + length body"
  by (simp_all add: legacy_request_frame_def legacy_response_frame_def)

lemma unat_of_nat_small: "n \<le> kMaxFrameSize \<Longrightarrow> unat (word_of_nat n :: 32 word) = n"
  by (simp add: unat_of_nat kMaxFrameSize_def)

text \<open>The two length fields at the head of a buffer.\<close>

lemma legacy_lengths:
  assumes "buffer_ok b" "contents b = rev (mem32 tot) @ rev (mem32 hl) @ rest"
  shows "ntohl (peek32 b 0 0) = tot" and "ntohl (peek32 b 0 4) = hl"
  using assms by (simp_all add: peek32_contents be32_def [symmetric] byte_simps)

lemma legacy_verdict_request:
  "4 + length h + length body \<le> kMaxFrameSize \<Longrightarrow>
   legacy_verdict (legacy_request_frame h body @ rest) = 8 + int (length h) + int (length body)"
  by (simp add: legacy_verdict_def legacy_request_frame_def byte_simps unat_of_nat_small Let_def
      del: of_nat_add)

lemma unat_body_len:
  assumes "4 + h + n \<le> kMaxFrameSize"
  shows "unat (word_of_nat (4 + h + n) - 4 - word_of_nat h :: 32 word) = n"
proof -
  have "(word_of_nat (4 + h + n) - 4 - word_of_nat h :: 32 word) = word_of_nat n"
    by (simp add: algebra_simps)
  with assms show ?thesis by (simp add: unat_of_nat_small)
qed

lemma legacy_encode_frame:
  assumes "buffer_ok out" "SerializeRpcHeader pb (rpc_header ctx msg) = Some h" "length h < 2 ^ 32"
  shows "\<exists>out'. LegacyClient_ZeroCopyEncode pb ctx msg out
          = (kCodecOk, msg\<lparr>pm_version := kLegacy\<rparr>, out') \<and> buffer_ok out'
      \<and> contents out' = contents out @ legacy_request_frame h (pm_body msg)"
proof -
  have "rpc_header ctx (msg\<lparr>pm_version := kLegacy\<rparr>) = rpc_header ctx msg"
    by (simp add: rpc_header_def)
  with assms show ?thesis
    by (auto simp: LegacyClient_ZeroCopyEncode_def Let_def buffer_simps byte_simps unat_of_nat
        legacy_request_frame_def simp del: of_nat_add)
qed

lemma legacy_decode_frame:
  assumes b: "buffer_ok b" "contents b = legacy_request_frame h body @ rest"
    and size: "4 + length h + length body \<le> kMaxFrameSize"
    and parse: "ParseRpcHeader pb h = Some rh"
  shows "\<exists>b'. LegacyServer_ZeroCopyDecode pb b m =
      (kCodecOk, b', ProtocolMessage_init\<lparr>pm_version := kLegacy,
         pm_service_name := rh_service_name rh, pm_method_name := rh_method_name rh,
         pm_args_size := rh_args_size rh, pm_body := body\<rparr>)
      \<and> buffer_ok b' \<and> contents b' = rest"
proof -
  let ?total = "word_of_nat (4 + length h + length body) :: 32 word"
  let ?hl = "word_of_nat (length h) :: 32 word"
  have hl: "unat ?hl = length h" and total: "unat ?total = 4 + length h + length body"
    using size by (simp_all add: unat_of_nat_small del: of_nat_add)
  have off: "unat (8 + ?hl) = 8 + length h"
    using size unat_plus_small [of 8 ?hl] by (simp add: unat_of_nat_small)
  have skip: "unat (4 + ?total) = 8 + length h + length body"
    using size total unat_4_plus [of ?total] by (simp del: of_nat_add)
  have c: "contents b = rev (mem32 ?total) @ rev (mem32 ?hl) @ (h @ body @ rest)"
    by (simp add: b(2) legacy_request_frame_def del: of_nat_add)
  have hd: "snd (Peek b (replicate (length h) 0) (length h) 8) = h"
    and bd: "snd (Peek b (replicate (length body) 0) (length body) (8 + length h)) = body"
    using b(1) c by (simp_all add: nb.peek_exact)
  have "LegacyServer_ZeroCopyDecode pb b m =
      (kCodecOk, Skip (8 + length h + length body) b,
       ProtocolMessage_init\<lparr>pm_version := kLegacy,
         pm_service_name := rh_service_name rh, pm_method_name := rh_method_name rh,
         pm_args_size := rh_args_size rh, pm_body := body\<rparr>)"
    using legacy_lengths [OF b(1) c] unat_body_len [OF size] bd
    by (auto simp: LegacyServer_ZeroCopyDecode_def Let_def hl hd parse off skip
        ProtocolMessage_init_def simp del: of_nat_add)
  with b show ?thesis by (simp add: buffer_simps)
qed

text \<open>The client's view of a response frame, within the limit and beyond it.\<close>

lemma legacy_client_decode_frame:
  assumes size: "length body < 2 ^ 32"
    and b: "buffer_ok b" "contents b = legacy_response_frame body @ rest"
  shows "if length body \<le> kMaxFrameSize
     then \<exists>b'. LegacyClient_ZeroCopyDecode b m =
            (kCodecOk, b', ProtocolMessage_init\<lparr>pm_version := kLegacy, pm_body := body,
               pm_message_type := kResponse\<rparr>)
          \<and> contents b' = rest
     else LegacyClient_ZeroCopyDecode b m =
            (kCodecOversized, b, ProtocolMessage_init\<lparr>pm_version := kLegacy\<rparr>)"
proof -
  let ?n = "length body"
  let ?total = "word_of_nat ?n :: 32 word"
  have total: "unat ?total = ?n"
    using size by (simp add: unat_of_nat)
  have len: "ntohl (peek32 b 0 0) = ?total"
    using b by (simp add: peek32_contents be32_def [symmetric] byte_simps legacy_response_frame_def)
  have avail: "4 + ?n \<le> ReadableBytes b"
    using b by (simp add: buffer_simps)
  have "LegacyClient_ZeroCopyDecode b m = (kCodecOk, Skip (4 + ?n) b,
      ProtocolMessage_init\<lparr>pm_version := kLegacy, pm_body := body,
        pm_message_type := kResponse\<rparr>)" if "?n \<le> kMaxFrameSize"
    using that avail unat_4_plus [of ?total] total b
    by (simp add: LegacyClient_ZeroCopyDecode_def Let_def len nb.peek_exact legacy_response_frame_def
        ProtocolMessage_init_def)
  moreover have "contents (Skip (4 + ?n) b) = rest"
    using b by (simp add: buffer_simps)
  moreover have "LegacyClient_ZeroCopyDecode b m =
      (kCodecOversized, b, ProtocolMessage_init\<lparr>pm_version := kLegacy\<rparr>)" if "\<not> ?n \<le> kMaxFrameSize"
    using that avail total by (simp add: LegacyClient_ZeroCopyDecode_def Let_def len)
  ultimately show ?thesis by auto
qed

section \<open>Properties\<close>

text \<open>C9: a request encoded by the legacy client codec and read by the legacy server codec. Up to
  the 16 MiB limit the client appends one frame, the server's verdict on any buffer starting with it
  is its length, and decoding gives back the service and method named by the message or, where it names
  none, by the client context, the length of the body as argument size, and the body, and leaves the
  bytes after the frame. These are also the values of the protobuf header on the wire.\<close>

theorem legacy_request_roundtrip:
  assumes out: "buffer_ok out"
    and ser: "SerializeRpcHeader pb (rpc_header ctx msg) = Some h"
    and rt: "roundtrips (SerializeRpcHeader pb) (ParseRpcHeader pb) (rpc_header ctx msg)"
    and size: "4 + length h + length (pm_body msg) \<le> kMaxFrameSize"
    and b: "buffer_ok b" "contents b = legacy_request_frame h (pm_body msg) @ rest"
  shows "\<exists>out' b'. LegacyClient_ZeroCopyEncode pb ctx msg out
          = (kCodecOk, msg\<lparr>pm_version := kLegacy\<rparr>, out')
      \<and> contents out' = contents out @ legacy_request_frame h (pm_body msg)
      \<and> LegacyServer_CheckAndPick b = int (length (legacy_request_frame h (pm_body msg)))
      \<and> LegacyServer_ZeroCopyDecode pb b m =
          (kCodecOk, b', ProtocolMessage_init\<lparr>pm_version := kLegacy,
             pm_service_name :=
               (if pm_service_name msg = [] then cx_service_name ctx else pm_service_name msg),
             pm_method_name :=
               (if pm_method_name msg = [] then cx_method_name ctx else pm_method_name msg),
             pm_args_size := word_of_nat (length (pm_body msg)), pm_body := pm_body msg\<rparr>)
      \<and> contents b' = rest
      \<and> ParseRpcHeader pb h = Some
          \<lparr>rh_service_name =
             (if pm_service_name msg = [] then cx_service_name ctx else pm_service_name msg),
           rh_method_name =
             (if pm_method_name msg = [] then cx_method_name ctx else pm_method_name msg),
           rh_args_size = word_of_nat (length (pm_body msg))\<rparr>"
proof -
  have parse: "ParseRpcHeader pb h = Some (rpc_header ctx msg)"
    by (rule roundtripsD [OF rt ser])
  have "length h < 2 ^ 32"
    using size by (simp add: kMaxFrameSize_def)
  moreover have "LegacyServer_CheckAndPick b = int (length (legacy_request_frame h (pm_body msg)))"
    using b size by (simp add: Legacy_check_contents legacy_verdict_request)
  ultimately show ?thesis
    using legacy_encode_frame [OF out ser] legacy_decode_frame [OF b size parse, of m] parse
    unfolding rpc_header_def by auto
qed

text \<open>C17: a response from the legacy server codec to the legacy client codec: up to the limit the
  client recovers the body and consumes exactly the frame; a larger response is still encoded, and
  the client rejects it as oversized.\<close>

theorem legacy_response_roundtrip:
  assumes out: "buffer_ok out"
    and size: "length (pm_body msg) < 2 ^ 32"
    and b: "buffer_ok b" "contents b = legacy_response_frame (pm_body msg) @ rest"
  shows "\<exists>out'. LegacyServer_ZeroCopyEncode msg out = (kCodecOk, out')
    \<and> contents out' = contents out @ legacy_response_frame (pm_body msg)
    \<and> (if length (pm_body msg) \<le> kMaxFrameSize
       then \<exists>b'. LegacyClient_ZeroCopyDecode b m =
              (kCodecOk, b', ProtocolMessage_init\<lparr>pm_version := kLegacy, pm_body := pm_body msg,
                 pm_message_type := kResponse\<rparr>)
            \<and> contents b' = rest
       else LegacyClient_ZeroCopyDecode b m =
              (kCodecOversized, b, ProtocolMessage_init\<lparr>pm_version := kLegacy\<rparr>))"
proof -
  have "unat (word_of_nat (length (pm_body msg)) :: 32 word) = length (pm_body msg)"
    using size by (simp add: unat_of_nat)
  then have "\<exists>out'. LegacyServer_ZeroCopyEncode msg out = (kCodecOk, out')
      \<and> contents out' = contents out @ legacy_response_frame (pm_body msg)"
    using out
    by (auto simp: LegacyServer_ZeroCopyEncode_def Let_def buffer_simps byte_simps
        legacy_response_frame_def)
  then show ?thesis
    using legacy_client_decode_frame [OF size b, of m] by (auto simp del: ex_simps)
qed

text \<open>As for the new protocol, the legacy server codec rejects bytes that hold a length prefix
  exactly when no continuation of them could become an acceptable frame.\<close>

lemma legacy_reject_exact:
  assumes "4 \<le> length bs"
  shows "check_bytes (LegacyServerCodec pb) bs < 0 \<longleftrightarrow>
    \<not> (\<exists>suffix. 0 < check_bytes (LegacyServerCodec pb) (bs @ suffix))"
  by (rule legacy_server.reject_exact) (rule assms)

text \<open>The header length of a legacy request is not checked against the total length. The verdict
  accepts a frame whose header length reaches past its end; decoding then hands the parser bytes of
  whatever follows the frame (padded with zeros where nothing has arrived), and when the parser
  accepts them the body length wraps around to nearly 4 GiB.\<close>

lemma legacy_header_len_unchecked:
  assumes b: "buffer_ok b" "contents b = rev (mem32 tot) @ rev (mem32 hl) @ payload @ rest"
    and frame: "length payload + 4 = unat tot" "unat tot \<le> kMaxFrameSize"
    and over: "length payload < unat hl"
    and hb: "hb = take (unat hl) (payload @ rest @ replicate (unat hl) 0)"
    and parse: "ParseRpcHeader pb hb = Some rh"
  shows "LegacyServer_CheckAndPick b = 8 + int (length payload)
    \<and> (\<exists>b' m'. LegacyServer_ZeroCopyDecode pb b m = (kCodecOk, b', m')
        \<and> contents b' = rest
        \<and> length (pm_body m') = 2 ^ 32 + length payload - unat hl)"
proof -
  note len = legacy_lengths [OF b]
  have skip: "unat (4 + tot) = 8 + length payload"
    using frame unat_4_plus [of tot] by simp
  have hd: "snd (Peek b (replicate (unat hl) 0) (unat hl) 8) = hb"
  proof (cases "unat hl \<le> length payload + length rest")
    case True
    with b show ?thesis by (simp add: nb.peek_exact hb)
  next
    case False
    with b show ?thesis
      using nb.peek_short [of b 8 "unat hl" "replicate (unat hl) 0"] by (simp add: hb min_def)
  qed
  have wrap: "unat (tot - 4 - hl) = 2 ^ 32 + length payload - unat hl"
  proof -
    have "tot = word_of_nat (length payload + 4)"
      by (simp only: frame(1) unsigned_of_nat) simp
    then have "tot - 4 = word_of_nat (length payload)"
      by simp
    then show ?thesis
      using over frame by (simp add: unat_sub_if' unat_of_nat kMaxFrameSize_def)
  qed
  have pos: "0 < unat (tot - 4 - hl)"
    using wrap unsigned_less [of hl, where ?'a = nat] by simp
  have body: "length (snd (Peek b (replicate n 0) n off)) = n" for n off
    using b(1) by (simp add: nb.peek_spec length_memcpy)
  have "LegacyServer_CheckAndPick b = 8 + int (length payload)"
    using b frame
    by (simp add: Legacy_check_contents legacy_verdict_def byte_simps Let_def uint_nat
        del: of_nat_unat)
  moreover have "contents (Skip (8 + length payload) b) = rest"
    using b by (simp add: buffer_simps)
  ultimately show ?thesis
    using pos body [of "unat (tot - 4 - hl)"]
    by (simp add: LegacyServer_ZeroCopyDecode_def Let_def len hd parse skip) (simp add: wrap)
qed

section \<open>Witnesses\<close>

definition sample_legacy_request :: ProtocolMessage where
  "sample_legacy_request = ProtocolMessage_init\<lparr>pm_service_name := lit ''UserServiceRpc'',
     pm_method_name := lit ''Login'', pm_body := [10, 1, 97]\<rparr>"

definition sample_legacy_pb :: "bytes \<Rightarrow> protobuf" where
  "sample_legacy_pb h = table_pb (rpc_header ClientContext_init sample_legacy_request) h
     (RequestProtocol.make 0 0 [] [] [] 0 0 Map.empty [] 0) []
     (ResponseProtocol.make 0 0 [] 0 0 Map.empty) []"

lemma sample_legacy_simps [simp]:
  "pm_body sample_legacy_request = [10, 1, 97]"
  "SerializeRpcHeader (sample_legacy_pb h) (rpc_header ClientContext_init sample_legacy_request) = Some h"
  "ParseRpcHeader (sample_legacy_pb h) h = Some (rpc_header ClientContext_init sample_legacy_request)"
  "roundtrips (SerializeRpcHeader (sample_legacy_pb h)) (ParseRpcHeader (sample_legacy_pb h)) m"
  by (simp_all add: sample_legacy_request_def sample_legacy_pb_def ProtocolMessage_init_def)
    (simp_all add: table_pb_def)

lemma sample_legacy_names:
  "pm_service_name sample_legacy_request = lit ''UserServiceRpc''"
  "pm_method_name sample_legacy_request = lit ''Login''"
  by (simp_all add: sample_legacy_request_def ProtocolMessage_init_def)

theorem legacy_request_roundtrip_witness:
  "\<exists>out' b' m'. LegacyClient_ZeroCopyEncode (sample_legacy_pb [10, 0]) ClientContext_init
        sample_legacy_request empty_buffer
          = (kCodecOk, sample_legacy_request\<lparr>pm_version := kLegacy\<rparr>, out')
      \<and> LegacyServer_CheckAndPick
          (NoncontiguousBuffer_from (legacy_request_frame [10, 0] [10, 1, 97] @ [0])) = 13
      \<and> LegacyServer_ZeroCopyDecode (sample_legacy_pb [10, 0])
          (NoncontiguousBuffer_from (legacy_request_frame [10, 0] [10, 1, 97] @ [0]))
          ProtocolMessage_init = (kCodecOk, b', m')
      \<and> pm_service_name m' = lit ''UserServiceRpc'' \<and> pm_method_name m' = lit ''Login''
      \<and> pm_args_size m' = 3 \<and> contents b' = [0]"
  using legacy_request_roundtrip [of empty_buffer "sample_legacy_pb [10, 0]" ClientContext_init
      sample_legacy_request "[10, 0]"
      "NoncontiguousBuffer_from (legacy_request_frame [10, 0] [10, 1, 97] @ [0])" "[0]"
      ProtocolMessage_init]
  by (auto simp: buffer_simps kMaxFrameSize_def sample_legacy_names)

theorem legacy_response_roundtrip_witness:
  "\<exists>b'. LegacyClient_ZeroCopyDecode (NoncontiguousBuffer_from (legacy_response_frame [10, 1, 97] @ [0]))
        ProtocolMessage_init =
          (kCodecOk, b', ProtocolMessage_init\<lparr>pm_version := kLegacy, pm_body := [10, 1, 97],
             pm_message_type := kResponse\<rparr>)
      \<and> contents b' = [0]"
proof -
  have "\<exists>out'. LegacyServer_ZeroCopyEncode sample_legacy_request empty_buffer = (kCodecOk, out')
    \<and> contents out' = contents empty_buffer @ legacy_response_frame (pm_body sample_legacy_request)
    \<and> (if length (pm_body sample_legacy_request) \<le> kMaxFrameSize
       then \<exists>b'. LegacyClient_ZeroCopyDecode
              (NoncontiguousBuffer_from (legacy_response_frame [10, 1, 97] @ [0])) ProtocolMessage_init =
              (kCodecOk, b', ProtocolMessage_init\<lparr>pm_version := kLegacy,
                 pm_body := pm_body sample_legacy_request, pm_message_type := kResponse\<rparr>)
            \<and> contents b' = [0]
       else LegacyClient_ZeroCopyDecode
              (NoncontiguousBuffer_from (legacy_response_frame [10, 1, 97] @ [0])) ProtocolMessage_init =
              (kCodecOversized, NoncontiguousBuffer_from (legacy_response_frame [10, 1, 97] @ [0]),
               ProtocolMessage_init\<lparr>pm_version := kLegacy\<rparr>))"
    by (rule legacy_response_roundtrip) (simp_all add: buffer_simps)
  then show ?thesis by (simp add: kMaxFrameSize_def) blast
qed

end
