(* ===== verification/Codec_Factory.thy ===== *)
theory Codec_Factory
  imports Xrpc_Codec Legacy_Codec
begin

text \<open>
  \<^verbatim>\<open>src/codec/codec_factory.cc\<close>: the choice of a codec from the first two bytes of a connection, or
  by hand.
\<close>

definition CreateServerCodec_auto :: "protobuf \<Rightarrow> NoncontiguousBuffer \<Rightarrow> ServerCodec" where
  "CreateServerCodec_auto pb b =
     (if ReadableBytes b \<ge> 2 \<and> ntohs (peek16 b 0 0) = kMagicNumber then XRpcServerCodec pb
      else LegacyServerCodec pb)"

definition CreateServerCodec :: "protobuf \<Rightarrow> bool \<Rightarrow> ServerCodec" where
  "CreateServerCodec pb useXrpc = (if useXrpc then XRpcServerCodec pb else LegacyServerCodec pb)"

definition CreateClientCodec :: "protobuf \<Rightarrow> bool \<Rightarrow> ClientCodec" where
  "CreateClientCodec pb useXrpc = (if useXrpc then XRpcClientCodec pb else LegacyClientCodec pb)"

text \<open>The probe in terms of the bytes.\<close>

definition starts_with_magic :: "bytes \<Rightarrow> bool" where
  "starts_with_magic c \<longleftrightarrow> 2 \<le> length c \<and> be16 (take 2 c) = kMagicNumber"

lemma CreateServerCodec_auto_contents:
  "buffer_ok b \<Longrightarrow> CreateServerCodec_auto pb b =
     (if starts_with_magic (contents b) then XRpcServerCodec pb else LegacyServerCodec pb)"
  by (auto simp: CreateServerCodec_auto_def starts_with_magic_def buffer_simps peek16_contents be16_def)

text \<open>
  The magic number read as the high half of a legacy length is far above the frame limit, so
  the two protocols cannot be confused.
\<close>

lemma magic_as_length:
  assumes "starts_with_magic c" "4 \<le> length c"
  shows "kMaxFrameSize < unat (be32 (take 4 c))"
proof -
  obtain a b x y r where c: "c = a # b # x # y # r"
    using assms(2) by (auto simp: Suc_le_length_iff numeral_eq_Suc)
  have "unat (be16 (take 2 c)) = 19282"
    using assms(1) by (simp add: starts_with_magic_def kMagicNumber_def)
  then have "unat b + 256 * unat a = 19282"
    by (simp add: c unat_be16)
  moreover have "unat (be32 (take 4 c)) = unat y + 256 * (unat x + 256 * (unat b + 256 * unat a))"
    by (simp add: c unat_be32)
  ultimately show ?thesis
    by (simp add: kMaxFrameSize_def)
qed

lemma legacy_verdict_magic:
  "starts_with_magic c \<Longrightarrow> 4 \<le> length c \<Longrightarrow> legacy_verdict c = kCodecOversized"
  using magic_as_length [of c] by (simp add: legacy_verdict_def Let_def)

lemma xrpc_verdict_no_magic:
  "\<not> starts_with_magic c \<Longrightarrow> 16 \<le> length c \<Longrightarrow> xrpc_verdict c = kCodecInvalidMagic"
  by (simp add: xrpc_verdict_def starts_with_magic_def wire_header_fields)

lemma starts_with_magic_append: "starts_with_magic c \<Longrightarrow> starts_with_magic (c @ r)"
  by (simp add: starts_with_magic_def)

lemma starts_with_magic_xrpc_frame: "starts_with_magic (xrpc_frame ty msg h @ rest)"
proof -
  have "be16 (take 2 (xrpc_frame ty msg h @ rest)) = kMagicNumber"
    by (simp only: wire_header_fields(1) [symmetric] wire_header_xrpc_frame frame_header_fields)
  then show ?thesis by (simp add: starts_with_magic_def del: take_append)
qed

text \<open>C22: the automatic choice is right whenever there is a first frame to serve: if a connection's
  first bytes hold a complete frame of either protocol, the factory returns the codec of that
  protocol, and in particular no byte sequence is a complete first frame of both.\<close>

theorem factory_picks_accepting_codec:
  assumes "buffer_ok b"
  shows "(0 < XRpcServer_CheckAndPick b \<longrightarrow> CreateServerCodec_auto pb b = XRpcServerCodec pb)
    \<and> (0 < LegacyServer_CheckAndPick b \<longrightarrow> CreateServerCodec_auto pb b = LegacyServerCodec pb)
    \<and> \<not> (0 < XRpcServer_CheckAndPick b \<and> 0 < LegacyServer_CheckAndPick b)"
proof -
  have x: "starts_with_magic (contents b)" if "0 < xrpc_verdict (contents b)"
    using xrpc_verdict_pos [OF that] by (simp add: starts_with_magic_def wire_header_fields)
  have l: "\<not> starts_with_magic (contents b)" if "0 < legacy_verdict (contents b)"
    using legacy_verdict_pos [OF that] magic_as_length [of "contents b"] by auto
  show ?thesis
    using assms x l
    by (auto simp: XRpc_check_contents Legacy_check_contents CreateServerCodec_auto_contents)
qed

theorem factory_picks_accepting_codec_witness:
  "CreateServerCodec_auto (sample_legacy_pb [])
     (NoncontiguousBuffer_from (xrpc_frame kRequest sample_request [8, 7]))
   = XRpcServerCodec (sample_legacy_pb [])"
  using factory_picks_accepting_codec [of
      "NoncontiguousBuffer_from (xrpc_frame kRequest sample_request [8, 7])" "sample_legacy_pb []"]
    xrpc_verdict_frame [of "[8, 7]" sample_request kRequest "[]"]
  by (simp add: XRpc_check_contents frame_fits_def kMaxFrameSize_def)

end
