(* ===== verification/Libc.thy ===== *)
theory Libc
  imports Prelude
begin

text \<open>
  The C library routines the sources call: NUL-terminated strings, \<^verbatim>\<open>atoi\<close>, the \<^verbatim>\<open>%d\<close> of
  \<^verbatim>\<open>sprintf\<close> and of \<^verbatim>\<open>std::to_string\<close>, \<^verbatim>\<open>fgets\<close> and \<^verbatim>\<open>getopt\<close>. The main facts are that \<^verbatim>\<open>atoi\<close>
  reads back what \<^verbatim>\<open>%d\<close> prints, and that \<^verbatim>\<open>fgets\<close> cuts a file into its lines.
\<close>

named_theorems libc_simps "C strings, decimal numbers and line reading"

section \<open>C strings\<close>

text \<open>A \<^verbatim>\<open>char*\<close> made from a string ends at the first NUL.\<close>

definition c_str :: "bytes \<Rightarrow> bytes" where
  "c_str s = takeWhile (\<lambda>c. c \<noteq> 0) s"

lemma c_str_id [libc_simps]: "0 \<notin> set s \<Longrightarrow> c_str s = s"
  by (auto simp: c_str_def takeWhile_eq_all_conv)

lemma c_str_idem [simp]: "c_str (c_str s) = c_str s"
  by (simp add: c_str_def)

lemma c_str_no_NUL [simp]: "0 \<notin> set (c_str s)"
  by (auto simp: c_str_def dest: set_takeWhileD)

lemma set_c_str: "c \<in> set (c_str s) \<Longrightarrow> c \<in> set s"
  by (auto simp: c_str_def dest: set_takeWhileD)

section \<open>Decimal numbers\<close>

definition digit :: "nat \<Rightarrow> byte" where
  "digit d = word_of_nat (48 + d)"

definition isdigit :: "byte \<Rightarrow> bool" where
  "isdigit c \<longleftrightarrow> 48 \<le> unat c \<and> unat c \<le> 57"

definition isspace :: "byte \<Rightarrow> bool" where
  "isspace c \<longleftrightarrow> unat c = 32 \<or> 9 \<le> unat c \<and> unat c \<le> 13"

fun dec_nat :: "nat \<Rightarrow> bytes" where
  "dec_nat n = (if n < 10 then [digit n] else dec_nat (n div 10) @ [digit (n mod 10)])"

declare dec_nat.simps [simp del]

definition dec_int :: "int \<Rightarrow> bytes" where
  "dec_int i = (if i < 0 then ch CHR ''-'' # dec_nat (nat (- i)) else dec_nat (nat i))"

definition digits_value :: "bytes \<Rightarrow> nat" where
  "digits_value ds = foldl (\<lambda>a c. 10 * a + (unat c - 48)) 0 ds"

text \<open>
  \<^verbatim>\<open>strtol\<close> in base 10 on a 64-bit \<^verbatim>\<open>long\<close>, which it saturates, and \<^verbatim>\<open>atoi\<close>, which casts the
  result to \<^verbatim>\<open>int\<close>.
\<close>

definition strtol :: "bytes \<Rightarrow> int" where
  "strtol s =
     (let t = dropWhile isspace s;
          neg = (t \<noteq> [] \<and> hd t = ch CHR ''-'');
          u = (if t \<noteq> [] \<and> (hd t = ch CHR ''-'' \<or> hd t = ch CHR ''+'') then tl t else t);
          v = int (digits_value (takeWhile isdigit u))
      in max (- (2 ^ 63)) (min (2 ^ 63 - 1) (if neg then - v else v)))"

definition atoi :: "bytes \<Rightarrow> 32 word" where
  "atoi s = word_of_int (strtol s)"

lemma unat_digit: "d < 10 \<Longrightarrow> unat (digit d) = 48 + d"
  by (simp add: digit_def unat_of_nat del: of_nat_add)

lemma isdigit_digit: "d < 10 \<Longrightarrow> isdigit (digit d)"
  by (simp add: isdigit_def unat_digit)

lemma digits_value_snoc [simp]: "digits_value (ds @ [c]) = 10 * digits_value ds + (unat c - 48)"
  by (simp add: digits_value_def)

lemma digits_value_dec [libc_simps]: "digits_value (dec_nat n) = n"
proof (induction n rule: dec_nat.induct)
  case (1 n)
  show ?case
  proof (cases "n < 10")
    case True
    then show ?thesis
      by (subst dec_nat.simps) (simp add: digits_value_def unat_digit)
  next
    case False
    with 1 show ?thesis
      by (subst dec_nat.simps) (simp add: unat_digit)
  qed
qed

lemma dec_nat_digits: "c \<in> set (dec_nat n) \<Longrightarrow> isdigit c"
proof (induction n rule: dec_nat.induct)
  case (1 n)
  then show ?case
    by (subst (asm) (2) dec_nat.simps) (auto simp: isdigit_digit split: if_splits)
qed

lemma dec_nat_not_Nil [simp]: "dec_nat n \<noteq> []"
  by (subst dec_nat.simps) simp

lemma unat_ch_sign: "unat (ch CHR ''-'') = 45" "unat (ch CHR ''+'') = 43"
  by (simp_all add: ch_def)

lemma isdigit_not_sign: "isdigit c \<Longrightarrow> c \<noteq> ch CHR ''-'' \<and> c \<noteq> ch CHR ''+'' \<and> \<not> isspace c"
  by (auto simp: isdigit_def isspace_def unat_ch_sign)

text \<open>A number is printed with a first byte that is not white space, and with neither of the signs
  unless it is negative.\<close>

lemma dec_nat_hd: "isdigit (hd (dec_nat n))"
  by (rule dec_nat_digits [of _ n]) simp

lemma takeWhile_dec [libc_simps]: "takeWhile isdigit (dec_nat n) = dec_nat n"
  by (simp add: takeWhile_eq_all_conv dec_nat_digits)

lemma dropWhile_dec [libc_simps]: "dropWhile isspace (dec_nat n) = dec_nat n"
  using dec_nat_hd [of n] by (cases "dec_nat n") (simp_all add: isdigit_not_sign)

lemma strtol_dec_nat: "n < 2 ^ 63 \<Longrightarrow> strtol (dec_nat n) = int n"
  using isdigit_not_sign [OF dec_nat_hd [of n]] by (simp add: strtol_def Let_def libc_simps)

lemma strtol_dec [libc_simps]:
  assumes "- (2 ^ 31) \<le> i" "i < 2 ^ 31"
  shows "strtol (dec_int i) = i"
proof (cases "i < 0")
  case True
  then have "strtol (dec_int i) = max (- (2 ^ 63)) (min (2 ^ 63 - 1) i)"
    by (simp add: strtol_def dec_int_def Let_def isspace_def unat_ch_sign libc_simps)
  with assms show ?thesis by simp
next
  case False
  with assms show ?thesis
    using strtol_dec_nat [of "nat i"] by (simp add: dec_int_def)
qed

lemma atoi_dec [libc_simps]: "atoi (dec_int (sint (w :: 32 word))) = w"
  using sint_range_size [of w] by (simp add: atoi_def strtol_dec word_size)

lemma dec_int_no_NUL [simp]: "0 \<notin> set (dec_int i)"
  by (auto simp: dec_int_def isdigit_def ch_def dest: dec_nat_digits)

lemma dec_int_chars: "c \<in> set (dec_int i) \<Longrightarrow> isdigit c \<or> c = ch CHR ''-''"
  by (auto simp: dec_int_def dest: dec_nat_digits split: if_splits)

section \<open>Reading lines\<close>

text \<open>
  \<open>fgets n s\<close> is what \<^verbatim>\<open>fgets(buf, n + 1, file)\<close> stores, and what is left of the file: at most
  \<open>n\<close> bytes, up to and including the first newline.
\<close>

definition newline :: byte where
  "newline = 10"

fun fgets :: "nat \<Rightarrow> bytes \<Rightarrow> bytes \<times> bytes" where
  "fgets 0 s = ([], s)"
| "fgets (Suc n) [] = ([], [])"
| "fgets (Suc n) (c # s) =
     (if c = newline then ([c], s) else case fgets n s of (l, r) \<Rightarrow> (c # l, r))"

lemma fgets_split: "fgets n s = (l, r) \<Longrightarrow> s = l @ r"
  by (induction n s arbitrary: l r rule: fgets.induct) (auto split: if_splits prod.splits)

lemma fgets_length: "fgets n s = (l, r) \<Longrightarrow> length l \<le> n"
  by (induction n s arbitrary: l r rule: fgets.induct) (auto split: if_splits prod.splits)

lemma fgets_progress: "0 < n \<Longrightarrow> s \<noteq> [] \<Longrightarrow> length (snd (fgets n s)) < length s"
proof -
  assume "0 < n" "s \<noteq> []"
  then obtain m c t where nm: "n = Suc m" and st: "s = c # t"
    by (cases n; cases s) auto
  show ?thesis
    using fgets_split [of m t] by (auto simp: nm st split: prod.splits)
qed

lemma fgets_shorter: "(l, r) = fgets n s \<Longrightarrow> 0 < n \<Longrightarrow> s \<noteq> [] \<Longrightarrow> length r < length s"
  using fgets_progress [of n s] by (metis snd_conv)

lemma fgets_line [libc_simps]:
  "newline \<notin> set l \<Longrightarrow> length l < n \<Longrightarrow> fgets n (l @ newline # r) = (l @ [newline], r)"
proof (induction l arbitrary: n)
  case Nil
  then show ?case by (cases n) auto
next
  case (Cons c l)
  then show ?case by (cases n) auto
qed

section \<open>Command lines\<close>

text \<open>
  GNU \<^verbatim>\<open>getopt\<close> with an option string in which every option takes an argument, as the list of
  its results up to the first \<^verbatim>\<open>-1\<close> or \<^verbatim>\<open>'?'\<close> (\<open>None\<close>): an argument is the rest of the word or
  the next word, words that are not options are passed over, \<^verbatim>\<open>--\<close> ends the options, and an
  unknown option or a missing argument gives \<^verbatim>\<open>'?'\<close>.
\<close>

fun getopt_all :: "byte list \<Rightarrow> bytes list \<Rightarrow> (byte \<times> bytes) option list" where
  "getopt_all opts [] = []"
| "getopt_all opts (w # ws) =
     (if w = lit ''--'' then []
      else if length w < 2 \<or> hd w \<noteq> ch CHR ''-'' then getopt_all opts ws
      else if w ! 1 \<notin> set opts then [None]
      else if 2 < length w then Some (w ! 1, drop 2 w) # getopt_all opts ws
      else case ws of
             [] \<Rightarrow> [None]
           | x # ws' \<Rightarrow> Some (w ! 1, x) # getopt_all opts ws')"

end
