(* ===== verification/Config.thy ===== *)
theory Config
  imports Libc
begin

text \<open>
  The configuration of \<^verbatim>\<open>src/common/config.cc\<close> and the start-up of \<^verbatim>\<open>src/common/application.cc\<close>:
  reading \<^verbatim>\<open>key=value\<close> lines with \<^verbatim>\<open>fgets\<close> into a map that keeps the first value of a key, and
  command line options that override the file. A file system is a map from names to contents;
  \<^verbatim>\<open>exit(EXIT_FAILURE)\<close> is \<open>None\<close>.
\<close>

type_synonym config_map = "bytes \<rightharpoonup> bytes"
type_synonym file_system = "bytes \<rightharpoonup> bytes"

abbreviation blank :: byte where "blank \<equiv> 32"
abbreviation eq_sign :: byte where "eq_sign \<equiv> 61"
abbreviation hash_sign :: byte where "hash_sign \<equiv> 35"

section \<open>Trim\<close>

fun find_first_not_of :: "byte \<Rightarrow> bytes \<Rightarrow> nat option" where
  "find_first_not_of c [] = None"
| "find_first_not_of c (x # xs) = (if x \<noteq> c then Some 0 else map_option Suc (find_first_not_of c xs))"

definition find_last_not_of :: "byte \<Rightarrow> bytes \<Rightarrow> nat option" where
  "find_last_not_of c xs = map_option (\<lambda>i. length xs - 1 - i) (find_first_not_of c (rev xs))"

definition Trim :: "bytes \<Rightarrow> bytes" where
  "Trim read_buf =
     (let s = (case find_first_not_of blank read_buf of
                 None \<Rightarrow> read_buf
               | Some index \<Rightarrow> take (length read_buf - index) (drop index read_buf))
      in case find_last_not_of blank s of
           None \<Rightarrow> s
         | Some index \<Rightarrow> take (index + 1) s)"

section \<open>The file\<close>

text \<open>One line: \<open>None\<close> when the loop body skips it.\<close>

definition config_line :: "bytes \<Rightarrow> (bytes \<times> bytes) option" where
  "config_line buf =
     (let read_buf = Trim (c_str buf)
      in if read_buf = [] \<or> hd read_buf = hash_sign then None
         else case str_find eq_sign read_buf of
                None \<Rightarrow> None
              | Some index \<Rightarrow>
                  let key = Trim (take index read_buf);
                      value = (case str_find newline (drop index read_buf) of
                                 None \<Rightarrow> drop (index + 1) read_buf
                               | Some k \<Rightarrow> take (k - 1) (drop (index + 1) read_buf))
                  in Some (key, Trim value))"

definition config_insert :: "config_map \<Rightarrow> (bytes \<times> bytes) option \<Rightarrow> config_map" where
  "config_insert m e =
     (case e of None \<Rightarrow> m | Some (key, value) \<Rightarrow> if m key = None then m(key \<mapsto> value) else m)"

function load_lines :: "bytes \<Rightarrow> config_map \<Rightarrow> config_map" where
  "load_lines s m =
     (if s = [] then m
      else case fgets 1023 s of (buf, rest) \<Rightarrow> load_lines rest (config_insert m (config_line buf)))"
  by pat_completeness auto
termination
  by (relation "measure (\<lambda>(s, m). length s)") (auto dest: fgets_shorter)

declare load_lines.simps [simp del]

definition LoadConfigFile :: "file_system \<Rightarrow> bytes \<Rightarrow> config_map \<Rightarrow> config_map option" where
  "LoadConfigFile fs config_file m =
     (case fs (c_str config_file) of None \<Rightarrow> None | Some s \<Rightarrow> Some (load_lines s m))"

definition Load :: "config_map \<Rightarrow> bytes \<Rightarrow> bytes" where
  "Load m key = (case m key of None \<Rightarrow> [] | Some v \<Rightarrow> v)"

definition Write :: "bytes \<Rightarrow> bytes \<Rightarrow> config_map \<Rightarrow> config_map" where
  "Write key value m = m(key \<mapsto> value)"

section \<open>Application::Init\<close>

record cli_options =
  config_file :: bytes
  ip_override :: bytes
  port_override :: bytes

fun parse_options :: "(byte \<times> bytes) option list \<Rightarrow> cli_options \<Rightarrow> cli_options option" where
  "parse_options [] o' = Some o'"
| "parse_options (None # rs) o' = None"
| "parse_options (Some (c, optarg) # rs) o' =
     parse_options rs
       (if c = ch CHR ''i'' then o'\<lparr>config_file := optarg\<rparr>
        else if c = ch CHR ''a'' then o'\<lparr>ip_override := optarg\<rparr>
        else if c = ch CHR ''p'' then o'\<lparr>port_override := optarg\<rparr>
        else o')"

definition Application_Init :: "file_system \<Rightarrow> bytes list \<Rightarrow> config_map \<Rightarrow> config_map option" where
  "Application_Init fs argv m =
     (if length argv < 2 then None
      else case parse_options (getopt_all (lit ''iap'') (tl argv))
                  \<lparr>config_file = [], ip_override = [], port_override = []\<rparr> of
             None \<Rightarrow> None
           | Some o' \<Rightarrow>
               (case LoadConfigFile fs (config_file o') m of
                  None \<Rightarrow> None
                | Some m1 \<Rightarrow>
                    let m2 = (if ip_override o' \<noteq> [] then Write (lit ''rpcserverip'') (ip_override o') m1 else m1)
                    in Some (if port_override o' \<noteq> [] then Write (lit ''rpcserverport'') (port_override o') m2
                             else m2)))"

section \<open>Lemmas on Trim\<close>

definition trimmed :: "bytes \<Rightarrow> bool" where
  "trimmed s \<longleftrightarrow> s \<noteq> [] \<and> hd s \<noteq> blank \<and> last s \<noteq> blank"

lemma find_first_not_of_replicate:
  "s \<noteq> [] \<Longrightarrow> hd s \<noteq> c \<Longrightarrow> find_first_not_of c (replicate a c @ s) = Some a"
  by (induction a) (auto simp: neq_Nil_conv)

lemma find_last_not_of_replicate:
  "s \<noteq> [] \<Longrightarrow> last s \<noteq> c \<Longrightarrow> find_last_not_of c (s @ replicate b c) = Some (length s - 1)"
  using find_first_not_of_replicate [of "rev s" c b]
  by (simp add: find_last_not_of_def hd_rev)

lemma find_first_not_of_None: "find_first_not_of c s = None \<longleftrightarrow> set s \<subseteq> {c}"
  by (induction s) auto

text \<open>Trimming removes the blanks around a text, except when there is no text.\<close>

lemma Trim_padded [libc_simps]:
  assumes "trimmed s"
  shows "Trim (replicate a blank @ s @ replicate b blank) = s"
proof -
  have "find_first_not_of blank (replicate a blank @ s @ replicate b blank) = Some a"
    using assms find_first_not_of_replicate [of "s @ replicate b blank" blank a]
    by (simp add: trimmed_def)
  moreover have "find_last_not_of blank (s @ replicate b blank) = Some (length s - 1)"
    using assms by (simp add: find_last_not_of_replicate trimmed_def)
  ultimately show ?thesis
    using assms by (simp add: Trim_def trimmed_def Let_def)
qed

lemma Trim_blanks [libc_simps]: "Trim (replicate a blank) = replicate a blank"
  using find_first_not_of_None [of blank "replicate a blank"]
  by (auto simp: Trim_def find_last_not_of_def split: option.splits)

lemma Trim_Nil [simp]: "Trim [] = []"
  using Trim_blanks [of 0] by simp

lemma Trim_trimmed: "trimmed s \<Longrightarrow> Trim s = s"
  using Trim_padded [of s 0 0] by simp

lemma Trim_left: "trimmed s \<Longrightarrow> Trim (replicate a blank @ s) = s"
  using Trim_padded [of s a 0] by simp

lemma Trim_right: "trimmed s \<Longrightarrow> Trim (s @ replicate a blank) = s"
  using Trim_padded [of s 0 a] by simp

section \<open>Files as they are written\<close>

text \<open>
  A well-formed file as a list of lines: entries with blanks around the key and the value, comments,
  and lines without an equals sign.
\<close>

datatype config_text =
    Entry nat bytes nat nat bytes nat
  | Comment nat bytes
  | Other bytes

fun render_line :: "config_text \<Rightarrow> bytes" where
  "render_line (Entry a k b c v d) =
     replicate a blank @ k @ replicate b blank @ eq_sign # replicate c blank @ v @ replicate d blank"
| "render_line (Comment a t) = replicate a blank @ hash_sign # t"
| "render_line (Other t) = t"

fun wf_line :: "config_text \<Rightarrow> bool" where
  "wf_line (Entry a k b c v d) \<longleftrightarrow> trimmed k \<and> hd k \<noteq> hash_sign \<and> eq_sign \<notin> set k
     \<and> (trimmed v \<or> v = [] \<and> c = 0 \<and> d = 0)"
| "wf_line (Comment a t) \<longleftrightarrow> True"
| "wf_line (Other t) \<longleftrightarrow> eq_sign \<notin> set t"

definition config_text_ok :: "config_text \<Rightarrow> bool" where
  "config_text_ok l \<longleftrightarrow> wf_line l \<and> newline \<notin> set (render_line l) \<and> 0 \<notin> set (render_line l)
     \<and> length (render_line l) < 1023"

definition render :: "config_text list \<Rightarrow> bytes" where
  "render ls = concat (map (\<lambda>l. render_line l @ [newline]) ls)"

fun entry_of :: "config_text \<Rightarrow> (bytes \<times> bytes) option" where
  "entry_of (Entry a k b c v d) = Some (k, v)"
| "entry_of (Comment a t) = None"
| "entry_of (Other t) = None"

lemma find_first_not_of_le: "find_first_not_of c s = Some i \<Longrightarrow> i < length s"
  by (induction s arbitrary: i) (auto split: if_splits)

lemma set_Trim: "set (Trim s) \<subseteq> set s"
  by (auto simp: Trim_def Let_def split: option.splits dest!: in_set_takeD in_set_dropD)

lemma newline_neq [simp]: "newline \<noteq> blank" "newline \<noteq> eq_sign" "newline \<noteq> 0"
  by (simp_all add: newline_def)

text \<open>A line read from the file, trimmed on the left only: its last byte is the newline.\<close>

lemma Trim_line: "s \<noteq> [] \<Longrightarrow> hd s \<noteq> blank \<Longrightarrow> Trim (replicate a blank @ s @ [newline]) = s @ [newline]"
  using Trim_left [of "s @ [newline]" a] by (simp add: trimmed_def)

lemma config_line_entry:
  assumes "config_text_ok (Entry a k b c v d)"
  shows "config_line (render_line (Entry a k b c v d) @ [newline]) = Some (k, v)"
proof -
  let ?pre = "k @ replicate b blank" and ?post = "replicate c blank @ v @ replicate d blank"
  have k: "trimmed k" "hd k \<noteq> hash_sign" "eq_sign \<notin> set k"
    and v: "trimmed v \<or> v = [] \<and> c = 0 \<and> d = 0" and nl: "newline \<notin> set v" and z: "0 \<notin> set k" "0 \<notin> set v"
    using assms by (auto simp: config_text_ok_def)
  have c: "c_str (render_line (Entry a k b c v d) @ [newline]) =
      replicate a blank @ (?pre @ eq_sign # ?post) @ [newline]"
    using z by (simp add: c_str_id)
  have t: "Trim \<dots> = ?pre @ eq_sign # ?post @ [newline]"
    using k(1) Trim_line [of "?pre @ eq_sign # ?post" a] by (simp add: trimmed_def)
  have "str_find eq_sign (?pre @ eq_sign # ?post @ [newline]) = Some (length ?pre)"
    using k(3) by (intro str_find_append) simp
  moreover have "str_find newline ((eq_sign # ?post) @ newline # []) = Some (Suc (length ?post))"
    using nl by (subst str_find_append) auto
  moreover have "Trim ?pre = k"
    using k(1) by (simp add: Trim_right)
  moreover have "Trim ?post = v"
    using v by (auto simp: Trim_padded)
  ultimately show ?thesis
    using k by (simp only: config_line_def c t Let_def) (simp add: trimmed_def)
qed

lemma config_line_skipped:
  assumes "config_text_ok l" "entry_of l = None"
  shows "config_line (render_line l @ [newline]) = None"
proof (cases l)
  case (Comment a t)
  have "Trim (c_str (render_line l @ [newline])) = (hash_sign # t) @ [newline]"
    using assms(1) Trim_line [of "hash_sign # t" a]
    by (simp add: Comment config_text_ok_def c_str_id)
  then show ?thesis by (simp add: config_line_def)
next
  case (Other t)
  have "eq_sign \<notin> set (Trim (c_str (t @ [newline])))"
    using assms(1) set_Trim [of "c_str (t @ [newline])"] set_c_str [of eq_sign "t @ [newline]"]
    by (auto simp: Other config_text_ok_def newline_def)
  then have "str_find eq_sign (Trim (c_str (t @ [newline]))) = None"
    by (simp add: str_find_None)
  then show ?thesis by (simp add: config_line_def Other Let_def)
qed (use assms in auto)

lemma config_line_render:
  "config_text_ok l \<Longrightarrow> config_line (render_line l @ [newline]) = entry_of l"
  using config_line_entry config_line_skipped by (cases l) (auto simp del: render_line.simps)

lemma load_lines_render:
  assumes "\<forall>l \<in> set ls. config_text_ok l"
  shows "load_lines (render ls) m = map_of (List.map_filter entry_of ls) ++ m"
  using assms
proof (induction ls arbitrary: m)
  case Nil
  then show ?case
    by (subst load_lines.simps) (simp add: render_def List.map_filter_def)
next
  case (Cons l ls)
  have "fgets 1023 (render (l # ls)) = (render_line l @ [newline], render ls)"
    using Cons.prems fgets_line [of "render_line l" 1023 "render ls"]
    by (simp add: render_def config_text_ok_def)
  then have "load_lines (render (l # ls)) m = load_lines (render ls) (config_insert m (entry_of l))"
    using Cons.prems by (subst load_lines.simps) (simp add: config_line_render, simp add: render_def)
  also have "\<dots> = map_of (List.map_filter entry_of ls) ++ config_insert m (entry_of l)"
    using Cons by simp
  also have "\<dots> = map_of (List.map_filter entry_of (l # ls)) ++ m"
    by (rule ext) (auto simp: config_insert_def List.map_filter_simps map_add_def split: option.splits)
  finally show ?case .
qed

section \<open>Command line options\<close>

lemma option_chars [simp]:
  "ch CHR ''i'' \<noteq> ch CHR ''a''" "ch CHR ''i'' \<noteq> ch CHR ''p''" "ch CHR ''a'' \<noteq> ch CHR ''p''"
  "ch CHR ''a'' \<noteq> ch CHR ''i''" "ch CHR ''p'' \<noteq> ch CHR ''i''" "ch CHR ''p'' \<noteq> ch CHR ''a''"
  by (simp_all add: ch_def)

text \<open>The last value given for an option, the empty string when there is none.\<close>

definition last_option :: "char \<Rightarrow> (byte \<times> bytes) list \<Rightarrow> bytes" where
  "last_option c rs = (case map_of (rev rs) (ch c) of None \<Rightarrow> [] | Some v \<Rightarrow> v)"

lemma parse_options_last:
  "parse_options (map Some rs) o' = Some
     \<lparr>config_file = (case map_of (rev rs) (ch CHR ''i'') of None \<Rightarrow> config_file o' | Some v \<Rightarrow> v),
      ip_override = (case map_of (rev rs) (ch CHR ''a'') of None \<Rightarrow> ip_override o' | Some v \<Rightarrow> v),
      port_override = (case map_of (rev rs) (ch CHR ''p'') of None \<Rightarrow> port_override o' | Some v \<Rightarrow> v)\<rparr>"
proof (induction rs arbitrary: o')
  case Nil
  then show ?case by simp
next
  case (Cons r rs)
  obtain c v where r: "r = (c, v)" by (cases r)
  show ?case
    using option_chars by (auto simp: r Cons.IH map_add_def split: option.splits)
qed

lemma parse_options_None: "None \<in> set rs \<Longrightarrow> parse_options rs o' = None"
  by (induction rs o' rule: parse_options.induct) auto

lemma all_Some_map: "None \<notin> set xs \<Longrightarrow> \<exists>ys. xs = map Some ys"
proof (induction xs)
  case Nil
  then show ?case by simp
next
  case (Cons x xs)
  then obtain ys y where "xs = map Some ys" "x = Some y" by (cases x) auto
  then show ?case by (intro exI [of _ "y # ys"]) simp
qed

section \<open>Properties\<close>

text \<open>C34: loading a well-formed file (entries with any blanks around key and value, comments, other
  lines; every line shorter than the buffer of 1024 bytes) succeeds, leaves every key that was
  already set alone, and otherwise gives each key the value of its first entry, without the blanks.\<close>

theorem config_file_read:
  assumes "fs (c_str name) = Some (render ls)" "\<forall>l \<in> set ls. config_text_ok l"
  shows "\<exists>m'. LoadConfigFile fs name m = Some m' \<and>
    (\<forall>key. m' key = (case m key of Some v \<Rightarrow> Some v
                     | None \<Rightarrow> map_of (List.map_filter entry_of ls) key))"
  using assms by (auto simp: LoadConfigFile_def load_lines_render map_add_def split: option.splits)

text \<open>Start-up reads the configuration file named by the last \<^verbatim>\<open>-i\<close> and lets a non-empty \<^verbatim>\<open>-a\<close> and
  \<^verbatim>\<open>-p\<close> override the address and the port of the file; every other key is what the file says. The
  program exits exactly when there is no option word, when \<^verbatim>\<open>getopt\<close> reports an error, or when
  the file cannot be opened.\<close>

lemma application_init_spec:
  "(Application_Init fs argv m = None \<longleftrightarrow>
      length argv < 2 \<or> None \<in> set (getopt_all (lit ''iap'') (tl argv))
      \<or> (\<exists>rs. getopt_all (lit ''iap'') (tl argv) = map Some rs \<and> fs (c_str (last_option CHR ''i'' rs)) = None))
   \<and> (\<forall>m' rs. Application_Init fs argv m = Some m' \<and> getopt_all (lit ''iap'') (tl argv) = map Some rs \<longrightarrow>
      (\<exists>s. fs (c_str (last_option CHR ''i'' rs)) = Some s \<and>
        (\<forall>key. m' key =
           (if key = lit ''rpcserverport'' \<and> last_option CHR ''p'' rs \<noteq> [] then Some (last_option CHR ''p'' rs)
            else if key = lit ''rpcserverip'' \<and> last_option CHR ''a'' rs \<noteq> [] then Some (last_option CHR ''a'' rs)
            else load_lines s m key))))"
proof (cases "None \<in> set (getopt_all (lit ''iap'') (tl argv))")
  case True
  then show ?thesis
    by (auto simp: Application_Init_def parse_options_None)
next
  case False
  obtain rs where rs: "getopt_all (lit ''iap'') (tl argv) = map Some rs"
    using all_Some_map [OF False] by blast
  have inj: "map Some rs = map Some rs' \<longleftrightarrow> rs' = rs" for rs'
    by (auto simp: inj_map_eq_map)
  have names: "lit ''rpcserverip'' \<noteq> lit ''rpcserverport''"
    by (simp add: ch_def)
  show ?thesis
    using names
    by (auto simp: Application_Init_def rs inj parse_options_last LoadConfigFile_def Write_def Let_def
        last_option_def simp del: lit_Cons split: option.splits)
qed

section \<open>Witnesses\<close>

definition sample_lines :: "config_text list" where
  "sample_lines =
     [Comment 0 (lit ''rpc node''), Entry 0 (lit ''port'') 1 1 (lit ''8000'') 0,
      Entry 2 (lit ''port'') 0 0 (lit ''9'') 0]"

lemma sample_lines_ok: "\<forall>l \<in> set sample_lines. config_text_ok l"
  by (simp add: sample_lines_def config_text_ok_def trimmed_def ch_def newline_def)

theorem config_file_read_witness:
  "\<exists>m'. LoadConfigFile [lit ''a.conf'' \<mapsto> render sample_lines] (lit ''a.conf'') Map.empty = Some m'
     \<and> m' (lit ''port'') = Some (lit ''8000'')"
proof -
  have "c_str (lit ''a.conf'') = lit ''a.conf''"
    by (simp add: c_str_id ch_def)
  then obtain m' where
    "LoadConfigFile [lit ''a.conf'' \<mapsto> render sample_lines] (lit ''a.conf'') Map.empty = Some m'"
    and m': "\<And>key. m' key = (case Map.empty key of Some v \<Rightarrow> Some v
        | None \<Rightarrow> map_of (List.map_filter entry_of sample_lines) key)"
    using config_file_read [of "[lit ''a.conf'' \<mapsto> render sample_lines]" "lit ''a.conf''" sample_lines
        Map.empty] sample_lines_ok by auto
  moreover from m' have "m' (lit ''port'') = Some (lit ''8000'')"
    by (simp add: sample_lines_def List.map_filter_simps)
  ultimately show ?thesis by blast
qed

end
