(* ===== verification/Zookeeper_Client.thy ===== *)
theory Zookeeper_Client
  imports Config
begin

text \<open>
  The ZooKeeper wrapper of \<^verbatim>\<open>src/registry/zookeeper_client.cc\<close>. The ZooKeeper C client is not part of
  the program: it is a parameter, a value of the record \<open>zoo\<close> with one field per function the
  wrapper calls, over a state the model knows nothing about. What the proofs use of it is the
  named hypothesis \<open>zk_tree\<close>, the documented behaviour of the node tree on well-formed paths; \<open>list_zoo\<close>
  is a concrete client that satisfies it.
\<close>

section \<open>The C client\<close>

text \<open>The return codes the wrapper distinguishes, and the watcher events.\<close>

datatype zoo_code = ZOK | ZNONODE | ZError

datatype zoo_state = ZOO_CONNECTED_STATE | ZOO_EXPIRED_SESSION_STATE | Other_state

datatype zoo_event =
    ZOO_SESSION_EVENT zoo_state
  | ZOO_CHILD_EVENT "bytes option"
  | Other_event

datatype create_mode = Persistent | ZOO_EPHEMERAL

record 'z zoo =
  zookeeper_init :: "bytes \<Rightarrow> bool"
  zookeeper_close :: "'z \<Rightarrow> 'z"
  zoo_exists :: "'z \<Rightarrow> bytes \<Rightarrow> zoo_code"
  zoo_create :: "'z \<Rightarrow> bytes \<Rightarrow> bytes option \<Rightarrow> create_mode \<Rightarrow> zoo_code \<times> 'z"
  zoo_get :: "'z \<Rightarrow> bytes \<Rightarrow> nat \<Rightarrow> zoo_code \<times> bytes"
  zoo_get_children :: "'z \<Rightarrow> bytes \<Rightarrow> bool \<Rightarrow> zoo_code \<times> bytes list \<times> 'z"

section \<open>The wrapper\<close>

record ZookeeperClient =
  is_connected :: bool
  m_zhandle :: bool

definition ZookeeperClient_init :: ZookeeperClient where
  "ZookeeperClient_init = \<lparr>is_connected = False, m_zhandle = False\<rparr>"

definition ZookeeperClient_destroy :: "'z zoo \<Rightarrow> ZookeeperClient \<Rightarrow> 'z \<Rightarrow> 'z" where
  "ZookeeperClient_destroy zk client z = (if m_zhandle client then zookeeper_close zk z else z)"

text \<open>The session branch of \<^verbatim>\<open>global_watcher\<close>; an expired session is only logged.\<close>

definition session_event :: "zoo_event \<Rightarrow> ZookeeperClient \<Rightarrow> ZookeeperClient" where
  "session_event ev client =
     (if ev = ZOO_SESSION_EVENT ZOO_CONNECTED_STATE then client\<lparr>is_connected := True\<rparr> else client)"

text \<open>
  \<^verbatim>\<open>Start\<close> exits when there is no handle, and otherwise waits until an event of the session has
  set \<^verbatim>\<open>is_connected\<close>; \<open>events\<close> are the events that ever arrive.
\<close>

datatype 'a start_result = Start_exit | Start_waiting 'a | Started 'a

definition Start :: "'z zoo \<Rightarrow> config_map \<Rightarrow> zoo_event list \<Rightarrow> ZookeeperClient \<Rightarrow> ZookeeperClient start_result" where
  "Start zk cfg events client =
     (let connstr = Load cfg (lit ''zookeeperip'') @ lit '':'' @ Load cfg (lit ''zookeeperport'')
      in if \<not> zookeeper_init zk (c_str connstr) then Start_exit
         else let client' = fold session_event events (client\<lparr>m_zhandle := True\<rparr>)
              in if is_connected client' then Started client' else Start_waiting client')"

datatype zk_error = Exit_failure | Stack_overflow

definition Create :: "'z zoo \<Rightarrow> bytes \<Rightarrow> bytes option \<Rightarrow> create_mode \<Rightarrow> 'z \<Rightarrow> zk_error + 'z" where
  "Create zk path data state z =
     (if zoo_exists zk z (c_str path) = ZNONODE
      then case zoo_create zk z (c_str path) data state of (flag, z') \<Rightarrow>
             if flag = ZOK then Inr z' else Inl Exit_failure
      else Inr z)"

text \<open>
  \<^verbatim>\<open>GetData\<close> hands \<^verbatim>\<open>zoo_get\<close> an uninitialised array of 64 bytes, here \<open>stack\<close>, and returns the C
  string in it; without a NUL in the array (\<open>None\<close>) it reads past its end.
\<close>

definition GetData :: "'z zoo \<Rightarrow> bytes \<Rightarrow> bytes \<Rightarrow> 'z \<Rightarrow> bytes option" where
  "GetData zk stack path z =
     (case zoo_get zk z (c_str path) 64 of (flag, value) \<Rightarrow>
        if flag \<noteq> ZOK then Some []
        else let buf = memcpy stack 0 value
             in if 0 \<in> set buf then Some (c_str buf) else None)"

definition GetChildren :: "'z zoo \<Rightarrow> bytes \<Rightarrow> bool \<Rightarrow> 'z \<Rightarrow> bytes list \<times> 'z" where
  "GetChildren zk path watch z =
     (case zoo_get_children zk z (c_str path) watch of (flag, children, z') \<Rightarrow>
        if flag \<noteq> ZOK then ([], z') else (map c_str children, z'))"

section \<open>The node tree\<close>

abbreviation slash :: byte where "slash \<equiv> ch CHR ''/''"

text \<open>A name that can be a component of a node path: not empty, not one of the relative names, and made
  of printable characters other than the slash.\<close>

definition plain_text :: "bytes \<Rightarrow> bool" where
  "plain_text n \<longleftrightarrow> (\<forall>x \<in> set n. 32 \<le> x \<and> x < 127 \<and> x \<noteq> slash)"

definition plain_name :: "bytes \<Rightarrow> bool" where
  "plain_name n \<longleftrightarrow> n \<noteq> [] \<and> n \<noteq> lit ''.'' \<and> n \<noteq> lit ''..'' \<and> plain_text n"

text \<open>
  The documented behaviour of a ZooKeeper that is reachable and open to the program: \<open>nodes\<close> is the set of
  its node paths and \<open>eph\<close> the set of those that are ephemeral. A node that is not there yet, with a
  well-formed name, can be created under the root or under an existing node that is not ephemeral; it
  is ephemeral only when asked for; the children of a node are listed by name. Nothing is said
  about malformed paths, about missing or ephemeral parents, or about the node that is the root.
\<close>

definition zk_exists_law :: "'z zoo \<Rightarrow> ('z \<Rightarrow> bytes set) \<Rightarrow> bool" where
  "zk_exists_law zk nodes \<longleftrightarrow>
     (\<forall>z p. p \<in> nodes z \<longrightarrow> zoo_exists zk z p = ZOK)
     \<and> (\<forall>z q c. q = [] \<or> q \<in> nodes z \<and> q \<noteq> [slash] \<longrightarrow> plain_name c \<longrightarrow> q @ slash # c \<notin> nodes z \<longrightarrow>
          zoo_exists zk z (q @ slash # c) = ZNONODE)"

definition zk_create_law :: "'z zoo \<Rightarrow> ('z \<Rightarrow> bytes set) \<Rightarrow> ('z \<Rightarrow> bytes set) \<Rightarrow> bool" where
  "zk_create_law zk nodes eph \<longleftrightarrow>
     (\<forall>z q c d st. q = [] \<or> q \<in> nodes z \<and> q \<notin> eph z \<and> q \<noteq> [slash] \<longrightarrow> plain_name c \<longrightarrow>
        q @ slash # c \<notin> nodes z \<longrightarrow>
        (\<exists>z'. zoo_create zk z (q @ slash # c) d st = (ZOK, z')
           \<and> nodes z' = insert (q @ slash # c) (nodes z)
           \<and> eph z' \<subseteq> (if st = ZOO_EPHEMERAL then insert (q @ slash # c) (eph z) else eph z)))"

definition zk_children_law :: "'z zoo \<Rightarrow> ('z \<Rightarrow> bytes set) \<Rightarrow> bool" where
  "zk_children_law zk nodes \<longleftrightarrow>
     (\<forall>z p w. p \<in> nodes z \<longrightarrow> p \<noteq> [slash] \<longrightarrow>
        (\<exists>cs z'. zoo_get_children zk z p w = (ZOK, cs, z') \<and> nodes z' = nodes z
           \<and> set cs = {c. c \<noteq> [] \<and> slash \<notin> set c \<and> p @ slash # c \<in> nodes z}))"

definition zk_tree :: "'z zoo \<Rightarrow> ('z \<Rightarrow> bytes set) \<Rightarrow> ('z \<Rightarrow> bytes set) \<Rightarrow> bool" where
  "zk_tree zk nodes eph \<longleftrightarrow>
     zk_exists_law zk nodes \<and> zk_create_law zk nodes eph \<and> zk_children_law zk nodes"

lemma plain_text_chars: "plain_text n \<Longrightarrow> slash \<notin> set n \<and> 0 \<notin> set n"
  by (auto simp: plain_text_def)

lemma plain_nameD: "plain_name n \<Longrightarrow> n \<noteq> [] \<and> slash \<notin> set n \<and> 0 \<notin> set n"
  by (simp add: plain_name_def plain_text_chars)

lemma zk_tree_exists:
  assumes "zk_tree zk nodes eph"
  shows "p \<in> nodes z \<Longrightarrow> zoo_exists zk z p = ZOK"
    and "q = [] \<or> q \<in> nodes z \<and> q \<noteq> [slash] \<Longrightarrow> plain_name c \<Longrightarrow> q @ slash # c \<notin> nodes z \<Longrightarrow>
      zoo_exists zk z (q @ slash # c) = ZNONODE"
  using assms unfolding zk_tree_def zk_exists_law_def by blast+

lemma zk_tree_create:
  "zk_tree zk nodes eph \<Longrightarrow> q = [] \<or> q \<in> nodes z \<and> q \<notin> eph z \<and> q \<noteq> [slash] \<Longrightarrow> plain_name c \<Longrightarrow>
   q @ slash # c \<notin> nodes z \<Longrightarrow>
   \<exists>z'. zoo_create zk z (q @ slash # c) d st = (ZOK, z') \<and> nodes z' = insert (q @ slash # c) (nodes z)
     \<and> eph z' \<subseteq> (if st = ZOO_EPHEMERAL then insert (q @ slash # c) (eph z) else eph z)"
  unfolding zk_tree_def zk_create_law_def by (elim conjE) blast

lemma zk_tree_children:
  "zk_tree zk nodes eph \<Longrightarrow> p \<in> nodes z \<Longrightarrow> p \<noteq> [slash] \<Longrightarrow>
   \<exists>cs z'. zoo_get_children zk z p w = (ZOK, cs, z') \<and> nodes z' = nodes z
     \<and> set cs = {c. c \<noteq> [] \<and> slash \<notin> set c \<and> p @ slash # c \<in> nodes z}"
  unfolding zk_tree_def zk_children_law_def by (elim conjE) blast

lemma Create_tree:
  assumes "zk_tree zk nodes eph" "q = [] \<or> q \<in> nodes z \<and> q \<notin> eph z \<and> q \<noteq> [slash]" "plain_name c" "0 \<notin> set q"
  shows "\<exists>z'. Create zk (q @ slash # c) d st z = Inr z' \<and> nodes z' = insert (q @ slash # c) (nodes z)
    \<and> eph z' \<subseteq> (if st = ZOO_EPHEMERAL then insert (q @ slash # c) (eph z) else eph z)"
proof -
  let ?p = "q @ slash # c"
  have p: "c_str ?p = ?p"
    using assms(4) plain_nameD [OF assms(3)] by (intro c_str_id) (auto simp: ch_def)
  show ?thesis
  proof (cases "?p \<in> nodes z")
    case True
    with zk_tree_exists(1) [OF assms(1) True] show ?thesis
      by (auto simp: Create_def p insert_absorb)
  next
    case False
    then have "zoo_exists zk z ?p = ZNONODE"
      using zk_tree_exists(2) [OF assms(1) _ assms(3)] assms(2) by blast
    moreover obtain z' where "zoo_create zk z ?p d st = (ZOK, z')" "nodes z' = insert ?p (nodes z)"
        "eph z' \<subseteq> (if st = ZOO_EPHEMERAL then insert ?p (eph z) else eph z)"
      using zk_tree_create [OF assms(1,2,3) False] by blast
    ultimately show ?thesis
      by (simp add: Create_def p)
  qed
qed

lemma GetChildren_tree:
  assumes "zk_tree zk nodes eph" "0 \<notin> set p" "p \<in> nodes z" "p \<noteq> [slash]"
  shows "set (fst (GetChildren zk p w z)) =
      c_str ` {c. c \<noteq> [] \<and> slash \<notin> set c \<and> p @ slash # c \<in> nodes z}
    \<and> nodes (snd (GetChildren zk p w z)) = nodes z"
proof -
  obtain cs z' where "zoo_get_children zk z p w = (ZOK, cs, z')" "nodes z' = nodes z"
    "set cs = {c. c \<noteq> [] \<and> slash \<notin> set c \<and> p @ slash # c \<in> nodes z}"
    using zk_tree_children [OF assms(1,3,4)] by blast
  then show ?thesis
    by (simp add: GetChildren_def c_str_id assms(2))
qed

text \<open>A concrete client, whose state is the list of its nodes. It never lets a session end and treats
  ephemeral nodes like the others.\<close>

definition parent :: "bytes \<Rightarrow> bytes" where
  "parent p = (case str_rfind slash p of None \<Rightarrow> [] | Some i \<Rightarrow> take i p)"

lemma parent_child [simp]: "slash \<notin> set c \<Longrightarrow> parent (p @ slash # c) = p"
  by (simp add: parent_def str_rfind_append)

definition list_zoo :: "bytes list zoo" where
  "list_zoo =
     \<lparr>zookeeper_init = (\<lambda>_. True), zookeeper_close = (\<lambda>z. z),
      zoo_exists = (\<lambda>z p. if p \<in> set z then ZOK else ZNONODE),
      zoo_create = (\<lambda>z p d st. if p \<in> set z \<or> parent p \<noteq> [] \<and> parent p \<notin> set z then (ZError, z)
         else (ZOK, p # z)),
      zoo_get = (\<lambda>z p n. if p \<in> set z then (ZOK, []) else (ZNONODE, [])),
      zoo_get_children = (\<lambda>z p w. if p \<in> set z
         then (ZOK, map (drop (length p + 1)) (filter (\<lambda>q. take (length p + 1) q = p @ [slash]
            \<and> drop (length p + 1) q \<noteq> [] \<and> slash \<notin> set (drop (length p + 1) q)) z), z)
         else (ZNONODE, [], z))\<rparr>"

lemma list_zoo_tree: "zk_tree list_zoo set (\<lambda>_. {})"
proof -
  have "{c. c \<noteq> [] \<and> slash \<notin> set c \<and> p @ slash # c \<in> set z} =
    drop (length p + 1) ` {q \<in> set z. take (length p + 1) q = p @ [slash]
       \<and> drop (length p + 1) q \<noteq> [] \<and> slash \<notin> set (drop (length p + 1) q)}" (is "?l = ?r") for p z
  proof
    show "?l \<subseteq> ?r"
      by (force intro: image_eqI [where x = "p @ slash # _"])
    show "?r \<subseteq> ?l"
    proof clarify
      fix q assume q: "q \<in> set z" "take (length p + 1) q = p @ [slash]"
      have "q = p @ slash # drop (length p + 1) q"
        by (metis append_take_drop_id q(2) append_Cons append_Nil append_assoc)
      with q(1) show "p @ slash # drop (length p + 1) q \<in> set z"
        by simp
    qed
  qed
  then have "zk_children_law list_zoo set"
    by (auto simp: zk_children_law_def list_zoo_def)
  moreover have "zk_exists_law list_zoo set" "zk_create_law list_zoo set (\<lambda>_. {})"
    using parent_child [of _ "[]"] by (auto simp: zk_exists_law_def zk_create_law_def list_zoo_def dest: plain_nameD)
  ultimately show ?thesis
    by (simp add: zk_tree_def)
qed

section \<open>Reading a value\<close>

text \<open>\<^verbatim>\<open>GetData\<close> does not terminate the string. A value that was read in full (shorter than the
  array and free of NULs) comes back followed by whatever the stack held behind it, so it is
  returned unchanged exactly when the next stack byte happened to be NUL; when the rest of the array
  has no NUL, the read runs past the array.\<close>

lemma get_data_unterminated:
  assumes "zoo_get zk z (c_str path) 64 = (ZOK, value)" "0 \<notin> set value"
    and "length stack = 64" "length value < 64"
  shows "GetData zk stack path z =
      (if 0 \<in> set (drop (length value) stack) then Some (value @ c_str (drop (length value) stack)) else None)
    \<and> (GetData zk stack path z = Some value \<longleftrightarrow> stack ! length value = 0)"
proof -
  let ?d = "drop (length value) stack"
  have "c_str (value @ ?d) = value @ c_str ?d"
    unfolding c_str_def by (rule takeWhile_append2) (use assms(2) in auto)
  moreover have "?d = stack ! length value # drop (Suc (length value)) stack"
    using assms(3,4) by (simp add: Cons_nth_drop_Suc)
  ultimately show ?thesis
    using assms(1,2) by (simp add: GetData_def memcpy_def) (simp add: c_str_def)
qed

end
