(* ===== verification/Route_Manager.thy ===== *)
theory Route_Manager
  imports Zookeeper_Client
begin

text \<open>
  The route cache of \<^verbatim>\<open>src/registry/route_manager.cc\<close> and the watcher that refreshes it. The first
  part is the class as one thread sees it. The second part is the interleaving of threads that the
  class is written for: the read-copy-update of the table pointer under \<^verbatim>\<open>_writeMutex\<close>, as a step
  relation with one step per shared access.
\<close>

type_synonym RouteTable = "bytes \<rightharpoonup> bytes list"

section \<open>One thread\<close>

definition GetRouteNodes :: "RouteTable \<Rightarrow> bytes \<Rightarrow> bytes list" where
  "GetRouteNodes table path = (case table path of Some nodes \<Rightarrow> nodes | None \<Rightarrow> [])"

definition UpdateRouteTable :: "'z zoo \<Rightarrow> bytes \<Rightarrow> bool \<Rightarrow> bool \<Rightarrow> RouteTable \<times> 'z \<Rightarrow> RouteTable \<times> 'z" where
  "UpdateRouteTable zk path client watch s =
     (if \<not> client then s
      else case s of (table, z) \<Rightarrow>
        (case GetChildren zk (c_str path) watch z of (newNodes, z') \<Rightarrow> (table(path \<mapsto> newNodes), z')))"

text \<open>\<^verbatim>\<open>global_watcher\<close>, whose context is the client it was registered with (\<open>None\<close> for a null pointer).\<close>

definition global_watcher :: "'z zoo \<Rightarrow> zoo_event \<Rightarrow> ZookeeperClient option \<times> RouteTable \<times> 'z
    \<Rightarrow> ZookeeperClient option \<times> RouteTable \<times> 'z" where
  "global_watcher zk ev s =
     (case s of (client, table, z) \<Rightarrow>
        (case ev of
           ZOO_SESSION_EVENT _ \<Rightarrow> (map_option (session_event ev) client, table, z)
         | ZOO_CHILD_EVENT None \<Rightarrow> s
         | ZOO_CHILD_EVENT (Some path) \<Rightarrow>
             (client, UpdateRouteTable zk path (client \<noteq> None) True (table, z))
         | Other_event \<Rightarrow> s))"

text \<open>A child event refreshes exactly the route it names. If the node exists in ZooKeeper, the
  cache then lists its children; if ZooKeeper answers with an error the route is emptied, so that
  the next query fetches it again; every other route is unchanged.\<close>

lemma watcher_refreshes_route:
  assumes "0 \<notin> set path"
    and "global_watcher zk (ZOO_CHILD_EVENT (Some path)) (Some client, table, z) = (c', table', z')"
  shows "(zk_tree zk nodes eph \<and> path \<in> nodes z \<and> path \<noteq> [slash] \<longrightarrow> set (GetRouteNodes table' path) =
      c_str ` {c. c \<noteq> [] \<and> slash \<notin> set c \<and> path @ slash # c \<in> nodes z})
    \<and> (fst (zoo_get_children zk z path True) \<noteq> ZOK \<longrightarrow> GetRouteNodes table' path = [])
    \<and> (\<forall>other. other \<noteq> path \<longrightarrow> GetRouteNodes table' other = GetRouteNodes table other)"
proof -
  have t: "table' = table(path \<mapsto> fst (GetChildren zk path True z))"
    using assms by (auto simp: global_watcher_def UpdateRouteTable_def c_str_id split: prod.splits)
  have "GetRouteNodes table' path = []" if "fst (zoo_get_children zk z path True) \<noteq> ZOK"
    using that by (auto simp: t GetRouteNodes_def GetChildren_def c_str_id assms(1) split: prod.splits)
  then show ?thesis
    using GetChildren_tree [of zk nodes eph path z True] assms(1) by (auto simp: t GetRouteNodes_def)
qed

section \<open>Many threads\<close>

text \<open>
  Where a thread stands. A writer has fetched the children of its path, then holds the lock, then
  has loaded the table pointer, then has stored the new one; a reader has loaded the table pointer
  (when the log had the given length), then has looked its path up.
\<close>

datatype thread_state =
    Idle
  | Fetched bytes "bytes list"
  | Locked bytes "bytes list"
  | Loaded bytes "bytes list" RouteTable
  | Stored
  | Reading bytes RouteTable nat
  | Answered bytes "bytes list" nat

text \<open>
  The shared state: the table the pointer refers to (a table is never changed once published), the
  owner of \<^verbatim>\<open>_writeMutex\<close>, the threads, the children in ZooKeeper, and as a ghost the log of
  the updates in the order of their stores.
\<close>

record rcu =
  cur_table :: RouteTable
  write_mutex :: "nat option"
  threads :: "nat \<Rightarrow> thread_state"
  zk_children :: "bytes \<Rightarrow> bytes list"
  update_log :: "(bytes \<times> bytes list) list"

definition rcu_init :: "(bytes \<Rightarrow> bytes list) \<Rightarrow> rcu" where
  "rcu_init children = \<lparr>cur_table = Map.empty, write_mutex = None, threads = (\<lambda>_. Idle),
     zk_children = children, update_log = []\<rparr>"

inductive rcu_step :: "rcu \<Rightarrow> rcu \<Rightarrow> bool" where
  zk_change: "rcu_step s (s\<lparr>zk_children := (zk_children s)(p := nodes)\<rparr>)"
| fetch: "threads s t = Idle \<Longrightarrow>
    rcu_step s (s\<lparr>threads := (threads s)(t := Fetched p (zk_children s p))\<rparr>)"
| acquire: "threads s t = Fetched p nodes \<Longrightarrow> write_mutex s = None \<Longrightarrow>
    rcu_step s (s\<lparr>write_mutex := Some t, threads := (threads s)(t := Locked p nodes)\<rparr>)"
| load: "threads s t = Locked p nodes \<Longrightarrow>
    rcu_step s (s\<lparr>threads := (threads s)(t := Loaded p nodes (cur_table s))\<rparr>)"
| store: "threads s t = Loaded p nodes oldTable \<Longrightarrow>
    rcu_step s (s\<lparr>cur_table := oldTable(p \<mapsto> nodes), threads := (threads s)(t := Stored),
                  update_log := update_log s @ [(p, nodes)]\<rparr>)"
| release: "threads s t = Stored \<Longrightarrow>
    rcu_step s (s\<lparr>write_mutex := None, threads := (threads s)(t := Idle)\<rparr>)"
| read_load: "threads s t = Idle \<Longrightarrow>
    rcu_step s (s\<lparr>threads := (threads s)(t := Reading p (cur_table s) (length (update_log s)))\<rparr>)"
| read_find: "threads s t = Reading p table k \<Longrightarrow>
    rcu_step s (s\<lparr>threads := (threads s)(t := Answered p (GetRouteNodes table p) k)\<rparr>)"
| read_return: "threads s t = Answered p nodes k \<Longrightarrow>
    rcu_step s (s\<lparr>threads := (threads s)(t := Idle)\<rparr>)"

inductive_cases rcu_stepE: "rcu_step s s'"

definition rcu_reachable :: "rcu \<Rightarrow> bool" where
  "rcu_reachable s \<longleftrightarrow> (\<exists>children. rcu_step\<^sup>*\<^sup>* (rcu_init children) s)"

text \<open>The table after a list of updates, and the invariant.\<close>

definition replay :: "(bytes \<times> bytes list) list \<Rightarrow> RouteTable" where
  "replay us = map_of (rev us)"

definition in_critical :: "thread_state \<Rightarrow> bool" where
  "in_critical ts \<longleftrightarrow> (case ts of Locked _ _ \<Rightarrow> True | Loaded _ _ _ \<Rightarrow> True | Stored \<Rightarrow> True | _ \<Rightarrow> False)"

definition rcu_inv :: "rcu \<Rightarrow> bool" where
  "rcu_inv s \<longleftrightarrow>
     cur_table s = replay (update_log s)
     \<and> (\<forall>t. write_mutex s = Some t \<longleftrightarrow> in_critical (threads s t))
     \<and> (\<forall>t p nodes table. threads s t = Loaded p nodes table \<longrightarrow> table = cur_table s)
     \<and> (\<forall>t p table k. threads s t = Reading p table k \<longrightarrow>
          k \<le> length (update_log s) \<and> table = replay (take k (update_log s)))
     \<and> (\<forall>t p nodes k. threads s t = Answered p nodes k \<longrightarrow>
          k \<le> length (update_log s) \<and> nodes = GetRouteNodes (replay (take k (update_log s))) p)"

lemma in_critical_simps [simp]:
  "\<not> in_critical Idle" "\<not> in_critical (Fetched p n)" "in_critical (Locked p n)"
  "in_critical (Loaded p n m)" "in_critical Stored" "\<not> in_critical (Reading p m k)"
  "\<not> in_critical (Answered p n k)"
  by (simp_all add: in_critical_def)

lemma replay_snoc [simp]: "replay (us @ [(p, n)]) = (replay us)(p \<mapsto> n)"
  by (simp add: replay_def)

lemma rcu_inv_init: "rcu_inv (rcu_init children)"
  by (simp add: rcu_inv_def rcu_init_def replay_def)

text \<open>Facts of the invariant in the form the steps use them.\<close>

lemma rcu_inv_owner:
  "rcu_inv s \<Longrightarrow> in_critical (threads s t) \<Longrightarrow> in_critical (threads s t') \<Longrightarrow> t' = t"
  unfolding rcu_inv_def by (metis option.inject)

lemma rcu_inv_log: "rcu_inv s \<Longrightarrow> cur_table s = replay (update_log s)"
  by (simp add: rcu_inv_def)

lemma rcu_inv_loaded: "rcu_inv s \<Longrightarrow> threads s t = Loaded p n m \<Longrightarrow> m = cur_table s"
  unfolding rcu_inv_def by blast

lemma rcu_inv_step:
  assumes "rcu_step s s'" "rcu_inv s"
  shows "rcu_inv s'"
  using assms(1)
proof cases
  case (acquire t p nodes)
  then have "\<not> in_critical (threads s u)" for u
    using assms(2) unfolding rcu_inv_def by (metis option.distinct(1))
  with acquire assms(2) show ?thesis
    by (auto simp: rcu_inv_def)
next
  case (load t p nodes)
  with assms(2) show ?thesis
    by (auto simp: rcu_inv_def)
next
  case (store t p nodes oldTable)
  have "\<not> in_critical (threads s u)" if "u \<noteq> t" for u
    using rcu_inv_owner [OF assms(2), of t u] store that by auto
  then have others: "threads s u \<noteq> Loaded q n m" if "u \<noteq> t" for u q n m
    using that by fastforce
  from store assms(2) rcu_inv_loaded [OF assms(2) store(2)] others show ?thesis
    by (auto simp: rcu_inv_def intro: le_SucI)
next
  case (release t)
  have "\<not> in_critical (threads s u)" if "u \<noteq> t" for u
    using rcu_inv_owner [OF assms(2), of t u] release that by auto
  with release assms(2) show ?thesis
    by (auto simp: rcu_inv_def)
qed (use assms(2) in \<open>auto simp: rcu_inv_def\<close>)

lemma rcu_reachable_inv: "rcu_reachable s \<Longrightarrow> rcu_inv s"
  unfolding rcu_reachable_def
proof clarify
  fix children
  assume "rcu_step\<^sup>*\<^sup>* (rcu_init children) s"
  then show "rcu_inv s"
    by induction (auto intro: rcu_inv_init rcu_inv_step)
qed

text \<open>The whole update of a thread that has fetched, when nobody holds the lock.\<close>

definition stored :: "rcu \<Rightarrow> nat \<Rightarrow> bytes \<Rightarrow> bytes list \<Rightarrow> rcu" where
  "stored s t p nodes = s\<lparr>cur_table := (cur_table s)(p \<mapsto> nodes), threads := (threads s)(t := Idle),
     update_log := update_log s @ [(p, nodes)]\<rparr>"

lemma rcu_update_round:
  assumes "threads s t = Fetched p n" "write_mutex s = None"
  shows "rcu_step\<^sup>*\<^sup>* s (stored s t p n)"
proof -
  let ?a = "s\<lparr>write_mutex := Some t, threads := (threads s)(t := Locked p n)\<rparr>"
  let ?b = "?a\<lparr>threads := (threads ?a)(t := Loaded p n (cur_table ?a))\<rparr>"
  let ?c = "?b\<lparr>cur_table := (cur_table ?a)(p \<mapsto> n), threads := (threads ?b)(t := Stored),
              update_log := update_log ?b @ [(p, n)]\<rparr>"
  let ?d = "?c\<lparr>write_mutex := None, threads := (threads ?c)(t := Idle)\<rparr>"
  have "rcu_step s ?a" using assms by (rule acquire)
  moreover have "rcu_step ?a ?b" by (rule load) simp
  moreover have "rcu_step ?b ?c" by (rule store) simp
  moreover have "rcu_step ?c ?d" by (rule release) simp
  ultimately have "rcu_step\<^sup>*\<^sup>* s ?d"
    by (meson converse_rtranclp_into_rtranclp rtranclp.rtrancl_refl)
  moreover have "?d = stored s t p n"
    using assms(2) by (cases s) (simp add: stored_def)
  ultimately show ?thesis by simp
qed

text \<open>Readers are consistent without a lock. The answer of a lookup is the one of the table as it
  was when the reader loaded the pointer: it reflects every update stored before that moment and
  none stored after it.\<close>

lemma rcu_reader_snapshot:
  assumes "rcu_reachable s" "threads s t = Answered p nodes k"
  shows "k \<le> length (update_log s) \<and> nodes = GetRouteNodes (replay (take k (update_log s))) p"
  using rcu_reachable_inv [OF assms(1)] assms(2) by (simp add: rcu_inv_def)

text \<open>C7: no update is lost. However the threads interleave, the current table holds for every path
  the nodes of the last update stored for it, and at most one thread is between taking and
  releasing the lock; and a lookup, which takes no lock, answers from the table as it was when the
  reader loaded the pointer, with every update stored before that moment and none stored after it.\<close>

theorem rcu_no_lost_update:
  assumes "rcu_reachable s"
  shows "GetRouteNodes (cur_table s) p =
      (case map_of (rev (update_log s)) p of Some nodes \<Rightarrow> nodes | None \<Rightarrow> [])
    \<and> (in_critical (threads s t) \<and> in_critical (threads s t') \<longrightarrow> t = t')
    \<and> (threads s u = Answered q nodes k \<longrightarrow> k \<le> length (update_log s)
        \<and> nodes = GetRouteNodes (replay (take k (update_log s))) q)"
  using rcu_inv_log [OF rcu_reachable_inv [OF assms]] rcu_inv_owner [OF rcu_reachable_inv [OF assms], of t' t]
    rcu_reader_snapshot [OF assms, of u q nodes k]
  by (auto simp: GetRouteNodes_def replay_def)

text \<open>The children are fetched before the lock is taken, so an update can overwrite a newer one.
  There is an execution in which the children of a path change from an old to a new list, a thread
  that fetched the new list stores it, and after it a thread that had fetched the old list stores
  that; all threads have finished and the cache holds the old list.\<close>

lemma rcu_stale_overwrite:
  "\<exists>s. rcu_step\<^sup>*\<^sup>* (rcu_init (\<lambda>_. old)) s \<and> (\<forall>t. threads s t = Idle) \<and> write_mutex s = None
     \<and> zk_children s p = new \<and> update_log s = [(p, new), (p, old)] \<and> GetRouteNodes (cur_table s) p = old"
proof -
  define s1 where "s1 = (rcu_init (\<lambda>_. old))\<lparr>threads := (\<lambda>_. Idle)(0 := Fetched p old)\<rparr>"
  define s2 where "s2 = s1\<lparr>zk_children := (zk_children s1)(p := new)\<rparr>"
  define s3 where "s3 = s2\<lparr>threads := (threads s2)(1 := Fetched p new)\<rparr>"
  define s4 where "s4 = stored s3 1 p new"
  define s5 where "s5 = stored s4 0 p old"
  have "rcu_step (rcu_init (\<lambda>_. old)) s1"
    using fetch [of "rcu_init (\<lambda>_. old)" 0 p] by (simp add: s1_def rcu_init_def)
  moreover have "rcu_step s1 s2"
    unfolding s2_def by (rule zk_change)
  moreover have "rcu_step s2 s3"
    using fetch [of s2 1 p] by (simp add: s3_def s2_def s1_def rcu_init_def)
  moreover have "rcu_step\<^sup>*\<^sup>* s3 s4"
    unfolding s4_def by (rule rcu_update_round) (simp_all add: s3_def s2_def s1_def rcu_init_def)
  moreover have "rcu_step\<^sup>*\<^sup>* s4 s5"
    unfolding s5_def
    by (rule rcu_update_round) (simp_all add: s4_def s3_def s2_def s1_def rcu_init_def stored_def)
  ultimately have "rcu_step\<^sup>*\<^sup>* (rcu_init (\<lambda>_. old)) s5"
    by (meson converse_rtranclp_into_rtranclp rtranclp_trans)
  moreover have "(\<forall>t. threads s5 t = Idle) \<and> write_mutex s5 = None \<and> zk_children s5 p = new
      \<and> update_log s5 = [(p, new), (p, old)] \<and> GetRouteNodes (cur_table s5) p = old"
    by (simp add: s5_def s4_def s3_def s2_def s1_def stored_def rcu_init_def GetRouteNodes_def)
  ultimately show ?thesis by blast
qed

section \<open>Witnesses\<close>

definition sample_rcu :: rcu where
  "sample_rcu = stored ((rcu_init (\<lambda>_. [lit ''n'']))\<lparr>threads := (\<lambda>_. Idle)(0 := Fetched (lit ''p'') [lit ''n''])\<rparr>)
     0 (lit ''p'') [lit ''n'']"

lemma sample_rcu_steps: "rcu_step\<^sup>*\<^sup>* (rcu_init (\<lambda>_. [lit ''n''])) sample_rcu"
proof -
  have "rcu_step (rcu_init (\<lambda>_. [lit ''n'']))
      ((rcu_init (\<lambda>_. [lit ''n'']))\<lparr>threads := (\<lambda>_. Idle)(0 := Fetched (lit ''p'') [lit ''n''])\<rparr>)"
    using fetch [of "rcu_init (\<lambda>_. [lit ''n''])" 0 "lit ''p''"] by (simp add: rcu_init_def)
  moreover have "rcu_step\<^sup>*\<^sup>*
      ((rcu_init (\<lambda>_. [lit ''n'']))\<lparr>threads := (\<lambda>_. Idle)(0 := Fetched (lit ''p'') [lit ''n''])\<rparr>) sample_rcu"
    unfolding sample_rcu_def by (rule rcu_update_round) (simp_all add: rcu_init_def)
  ultimately show ?thesis by (rule converse_rtranclp_into_rtranclp)
qed

theorem rcu_no_lost_update_witness:
  "rcu_reachable sample_rcu \<and> GetRouteNodes (cur_table sample_rcu) (lit ''p'') = [lit ''n'']"
proof -
  have r: "rcu_reachable sample_rcu"
    using sample_rcu_steps by (auto simp: rcu_reachable_def)
  show ?thesis
    using rcu_no_lost_update [OF r, of "lit ''p''" 0 0] r
    by (simp add: sample_rcu_def stored_def rcu_init_def)
qed

end
