(* ===== verification/Load_Balancer.thy ===== *)
theory Load_Balancer
  imports Prelude
begin

text \<open>
  The load balancers of \<^verbatim>\<open>src/registry/load_balancer.cc\<close>. The abstract class is the locale
  \<open>load_balancer\<close>: a selection on no node is the empty string and otherwise one of the nodes.
  The round-robin counter is a 64-bit \<^verbatim>\<open>size_t\<close> that wraps around; a draw of the random balancer
  is an argument, reduced to the range of its \<^verbatim>\<open>uniform_int_distribution\<close>.
\<close>

locale load_balancer =
  fixes select :: "'b \<Rightarrow> bytes list \<Rightarrow> bytes \<times> 'b"
  assumes select_Nil: "fst (select b []) = []"
    and select_mem: "nodes \<noteq> [] \<Longrightarrow> fst (select b nodes) \<in> set nodes"
begin

text \<open>When no node has an empty name, the empty answer means that there is no node.\<close>

lemma select_empty_iff: "[] \<notin> set nodes \<Longrightarrow> fst (select b nodes) = [] \<longleftrightarrow> nodes = []"
  by (cases "nodes = []") (use select_mem [of nodes b] select_Nil [of b] in auto)

lemma select_singleton: "fst (select b [node]) = node"
  using select_mem [of "[node]" b] by simp

end

section \<open>The two balancers\<close>

record RoundRobinLoadBalancer =
  rr_index :: "64 word"

definition RoundRobinLoadBalancer_init :: RoundRobinLoadBalancer where
  "RoundRobinLoadBalancer_init = \<lparr>rr_index = 0\<rparr>"

definition RoundRobin_Select :: "RoundRobinLoadBalancer \<Rightarrow> bytes list \<Rightarrow> bytes \<times> RoundRobinLoadBalancer" where
  "RoundRobin_Select lb nodes =
     (if nodes = [] then ([], lb)
      else let index = unat (rr_index lb) mod length nodes
           in (nodes ! index, lb\<lparr>rr_index := rr_index lb + 1\<rparr>))"

definition Random_Select :: "nat \<Rightarrow> bytes list \<Rightarrow> bytes \<times> nat" where
  "Random_Select draw nodes =
     (if nodes = [] then ([], draw) else (nodes ! (draw mod length nodes), draw))"

interpretation round_robin: load_balancer RoundRobin_Select
  by unfold_locales (auto simp: RoundRobin_Select_def Let_def)

interpretation random: load_balancer Random_Select
  by unfold_locales (auto simp: Random_Select_def)

section \<open>Fairness\<close>

text \<open>\<open>k\<close> selections in a row on one balancer.\<close>

primrec selections :: "nat \<Rightarrow> RoundRobinLoadBalancer \<Rightarrow> bytes list \<Rightarrow> bytes list" where
  "selections 0 lb nodes = []"
| "selections (Suc k) lb nodes =
     (case RoundRobin_Select lb nodes of (node, lb') \<Rightarrow> node # selections k lb' nodes)"

lemma selections_nth:
  assumes "nodes \<noteq> []" "unat (rr_index lb) + k \<le> 2 ^ 64"
  shows "selections k lb nodes =
    map (\<lambda>i. nodes ! ((unat (rr_index lb) + i) mod length nodes)) [0..<k]"
  using assms(2)
proof (induction k arbitrary: lb)
  case 0
  then show ?case by simp
next
  case (Suc k)
  show ?case
  proof (cases "unat (rr_index lb) + 1 < 2 ^ 64")
    case True
    then have next_index: "unat (rr_index lb + 1) = Suc (unat (rr_index lb))"
      by (simp add: unat_word_ariths)
    show ?thesis
      using assms(1) Suc.prems Suc.IH [of "lb\<lparr>rr_index := rr_index lb + 1\<rparr>"]
      by (simp add: RoundRobin_Select_def Let_def next_index map_upt_Suc del: upt_Suc)
  next
    case False
    with Suc.prems have "k = 0" by simp
    with assms(1) show ?thesis by (simp add: RoundRobin_Select_def Let_def)
  qed
qed

lemma round_rotate:
  "nodes \<noteq> [] \<Longrightarrow> map (\<lambda>i. nodes ! ((j + i) mod length nodes)) [0..<length nodes] = rotate j nodes"
  by (rule nth_equalityI) (auto simp: nth_rotate add.commute)

lemma count_list_rotate: "count_list (rotate j xs) x = count_list xs x"
  by (metis count_list_append add.commute append_take_drop_id rotate_drop_take)

section \<open>Properties\<close>

text \<open>Round robin is fair. As long as the 64-bit counter does not wrap within the round, \<open>n\<close>
  selections in a row over \<open>n\<close> nodes visit the nodes in their cyclic order, starting where the
  counter stands, so every node is chosen exactly as often as it is listed.\<close>

lemma round_robin_fair:
  assumes "unat (rr_index lb) + length nodes \<le> 2 ^ 64"
  shows "selections (length nodes) lb nodes = rotate (unat (rr_index lb)) nodes
    \<and> count_list (selections (length nodes) lb nodes) node = count_list nodes node"
proof -
  have "selections (length nodes) lb nodes = rotate (unat (rr_index lb)) nodes"
    using assms by (cases "nodes = []") (simp_all add: selections_nth round_rotate)
  then show ?thesis
    by (simp add: count_list_rotate)
qed

end
