(* ===== verification/Controller.thy ===== *)
theory Controller
  imports Prelude
begin

text \<open>
  The call controller of \<^verbatim>\<open>src/rpc/controller.cc\<close>: whether a call failed, and why. Cancellation is not
  implemented in the program.
\<close>

record Controller =
  m_failed :: bool
  m_errText :: bytes

definition Controller_init :: Controller where
  "Controller_init = \<lparr>m_failed = False, m_errText = []\<rparr>"

definition Controller_Reset :: "Controller \<Rightarrow> Controller" where
  "Controller_Reset c = c\<lparr>m_failed := False, m_errText := []\<rparr>"

definition Failed :: "Controller \<Rightarrow> bool" where
  "Failed c = m_failed c"

definition ErrorText :: "Controller \<Rightarrow> bytes" where
  "ErrorText c = m_errText c"

definition SetFailed :: "bytes \<Rightarrow> Controller \<Rightarrow> Controller" where
  "SetFailed reason c = c\<lparr>m_failed := True, m_errText := reason\<rparr>"

definition StartCancel :: "Controller \<Rightarrow> Controller" where
  "StartCancel c = c"

definition IsCanceled :: "Controller \<Rightarrow> bool" where
  "IsCanceled c = False"

lemma controller_simps [simp]:
  "Failed (SetFailed r c)" "ErrorText (SetFailed r c) = r"
  "\<not> Failed (Controller_Reset c)" "ErrorText (Controller_Reset c) = []"
  "\<not> Failed Controller_init" "Controller_Reset c = Controller_init"
  by (cases c; simp add: Failed_def SetFailed_def ErrorText_def Controller_Reset_def Controller_init_def)+

end
