(* ===== verification/Ieee_Double.thy ===== *)
theory Ieee_Double
  imports Complex_Main "HOL-Library.Log_Nat"
begin

text \<open>
  The \<^verbatim>\<open>double\<close> arithmetic of the statistics: every operation is exact on the rationals and then
  rounded to the nearest number with a 53-bit significand, ties to even. The exponent is not bounded:
  all quantities here lie between a nanosecond and \<open>2 ^ 63\<close> nanoseconds, far from both ends of the
  range of a \<^verbatim>\<open>double\<close>.
\<close>

section \<open>Rounding\<close>

definition half_even :: "rat \<Rightarrow> int" where
  "half_even x =
     (let f = \<lfloor>x\<rfloor>; d = x - of_int f
      in if d < 1/2 then f else if 1/2 < d then f + 1 else if even f then f else f + 1)"

text \<open>The exponent of a positive number: \<open>2 powi binade x \<le> x < 2 powi (binade x + 1)\<close>.\<close>

definition binade :: "rat \<Rightarrow> int" where
  "binade x =
     (case quotient_of x of (a, b) \<Rightarrow>
        let e = bitlen a - bitlen b in if 2 powi e \<le> x then e else e - 1)"

definition ulp :: "rat \<Rightarrow> rat" where
  "ulp x = 2 powi (binade \<bar>x\<bar> - 52)"

definition rnd :: "rat \<Rightarrow> rat" where
  "rnd x = (if x = 0 then 0 else of_int (half_even (x / ulp x)) * ulp x)"

text \<open>A conversion to an integer type drops the fraction.\<close>

definition trunc :: "rat \<Rightarrow> int" where
  "trunc x = (if x < 0 then \<lceil>x\<rceil> else \<lfloor>x\<rfloor>)"

section \<open>Rounding to an integer\<close>

lemma half_even_of_int [simp]: "half_even (of_int n) = n"
  by (simp add: half_even_def)

lemma half_even_mono: "x \<le> y \<Longrightarrow> half_even x \<le> half_even y"
proof -
  assume xy: "x \<le> y"
  then have "\<lfloor>x\<rfloor> \<le> \<lfloor>y\<rfloor>" by (rule floor_mono)
  then consider "\<lfloor>x\<rfloor> = \<lfloor>y\<rfloor>" | "\<lfloor>x\<rfloor> + 1 \<le> \<lfloor>y\<rfloor>" by linarith
  then show ?thesis
    using xy by cases (auto simp: half_even_def Let_def)
qed

lemma half_even_error: "\<bar>of_int (half_even x) - x\<bar> \<le> 1/2"
proof -
  have "of_int \<lfloor>x\<rfloor> \<le> x" "x < of_int \<lfloor>x\<rfloor> + 1" by linarith+
  then show ?thesis by (auto simp: half_even_def Let_def)
qed

section \<open>Binades\<close>

lemma pow2_less_iff [simp]: "(2 :: rat) powi m < 2 powi n \<longleftrightarrow> m < n"
  using power_int_increasing [of n m "2 :: rat"] power_int_strict_increasing [of m n "2 :: rat"] by force

lemma of_int_bounds:
  "2 ^ k \<le> a \<Longrightarrow> (2 :: rat) ^ k \<le> of_int a" "a < 2 ^ k \<Longrightarrow> of_int a < (2 :: rat) ^ k"
  by (metis of_int_le_iff of_int_numeral of_int_power, metis of_int_less_iff of_int_numeral of_int_power)

lemma binade_bounds:
  assumes "0 < x"
  shows "2 powi binade x \<le> x" "x < 2 powi (binade x + 1)"
proof -
  obtain a b where q: "quotient_of x = (a, b)" by fastforce
  then have b: "0 < b" and x: "x = of_int a / of_int b"
    by (simp_all add: quotient_of_denom_pos quotient_of_div)
  with assms have a: "0 < a"
    by (simp add: zero_less_divide_iff)
  define m n where "m = nat (bitlen a - 1)" and "n = nat (bitlen b - 1)"
  have la: "bitlen a = int m + 1" and lb: "bitlen b = int n + 1"
    using a b bitlen_nonneg [of a] bitlen_nonneg [of b] bitlen_eq_zero_iff [of a] bitlen_eq_zero_iff [of b]
    by (simp_all add: m_def n_def)
  have "2 ^ m \<le> a" "a < 2 ^ (m + 1)" "2 ^ n \<le> b" "b < 2 ^ (n + 1)"
    using bitlen_bounds [OF a] bitlen_bounds [OF b] by (simp_all add: la lb nat_add_distrib)
  then have bounds: "(2 :: rat) ^ m \<le> of_int a" "of_int a < (2 :: rat) ^ (m + 1)"
      "(2 :: rat) ^ n \<le> of_int b" "of_int b < (2 :: rat) ^ (n + 1)"
    by (simp_all only: of_int_bounds)
  define e where "e = int m - int n"
  have "x < 2 ^ (m + 1) / 2 ^ n"
    unfolding x by (rule frac_less) (use bounds a b in simp_all)
  also have "\<dots> = 2 powi (e + 1)"
    by (simp add: e_def power_int_diff power_int_add)
  finally have upper: "x < 2 powi (e + 1)" .
  have "2 powi (e - 1) = 2 ^ m / (2 :: rat) ^ (n + 1)"
    by (simp add: e_def power_int_diff)
  also have "\<dots> \<le> x"
    unfolding x by (rule frac_le) (use bounds a b in simp_all)
  finally have lower: "2 powi (e - 1) \<le> x" .
  have bin: "binade x = (if 2 powi e \<le> x then e else e - 1)"
    by (simp add: binade_def q la lb e_def Let_def)
  show "2 powi binade x \<le> x" "x < 2 powi (binade x + 1)"
    using upper lower by (simp_all add: bin)
qed

lemma binade_eqI:
  assumes "2 powi e \<le> x" "x < 2 powi (e + 1)"
  shows "binade x = e"
proof -
  have "0 < x"
    using assms(1) by (rule less_le_trans [rotated]) simp
  note b = binade_bounds [OF this]
  have "(2 :: rat) powi e < 2 powi (binade x + 1)" "(2 :: rat) powi binade x < 2 powi (e + 1)"
    using assms b by linarith+
  then have "e < binade x + 1" "binade x < e + 1"
    by simp_all
  then show ?thesis by simp
qed

section \<open>Rounding is accurate, exact where it can be, and monotone\<close>

lemma ulp_pos [simp]: "0 < ulp x" "0 \<le> ulp x" "ulp x \<noteq> 0"
  by (simp_all add: ulp_def)

lemma rnd_nonneg: "0 \<le> x \<Longrightarrow> 0 \<le> rnd x"
  using half_even_mono [of 0 "x / ulp x"] half_even_of_int [of 0] by (simp add: rnd_def zero_le_mult_iff)

lemma rnd_0 [simp]: "rnd 0 = 0"
  by (simp add: rnd_def)

lemma rnd_error: "\<bar>rnd x - x\<bar> \<le> \<bar>x\<bar> / 2 ^ 53"
proof (cases "x = 0")
  case False
  let ?u = "ulp x"
  have "rnd x - x = (of_int (half_even (x / ?u)) - x / ?u) * ?u"
    using False by (simp add: rnd_def left_diff_distrib)
  then have "\<bar>rnd x - x\<bar> = \<bar>of_int (half_even (x / ?u)) - x / ?u\<bar> * ?u"
    by (simp add: abs_mult)
  also have "\<dots> \<le> 1/2 * ?u"
    by (rule mult_right_mono [OF half_even_error]) simp
  also have "\<dots> = 2 powi binade \<bar>x\<bar> / 2 ^ 53"
    by (simp add: ulp_def power_int_diff)
  also have "\<dots> \<le> \<bar>x\<bar> / 2 ^ 53"
    using binade_bounds(1) [of "\<bar>x\<bar>"] False by (simp add: divide_right_mono)
  finally show ?thesis .
qed simp

text \<open>A multiple of a power of two that is not below the unit in the last place is representable.\<close>

lemma rnd_exact:
  assumes "\<bar>x\<bar> < 2 powi (e + 53)" "x = of_int n * 2 powi e"
  shows "rnd x = x"
proof (cases "x = 0")
  case False
  have "(2 :: rat) powi binade \<bar>x\<bar> < 2 powi (e + 53)"
    using binade_bounds(1) [of "\<bar>x\<bar>"] False assms(1) by linarith
  then have "binade \<bar>x\<bar> - 52 \<le> e" by simp
  then obtain k where k: "e = binade \<bar>x\<bar> - 52 + int k"
    by (metis zle_iff_zadd)
  have q: "x / ulp x = of_int (n * 2 ^ k)"
    by (subst (1) assms(2)) (simp add: ulp_def k power_int_add)
  have "rnd x = x / ulp x * ulp x"
    using False unfolding rnd_def q half_even_of_int by simp
  then show ?thesis by simp
qed simp

lemma rnd_pow2: "rnd (2 powi e) = 2 powi e"
  by (rule rnd_exact [where e = e and n = 1]) (simp_all add: power_int_strict_increasing)

lemma rnd_of_int: "\<bar>n\<bar> < 2 ^ 53 \<Longrightarrow> rnd (of_int n) = of_int n"
  using of_int_bounds(2) [of "\<bar>n\<bar>" 53] by (intro rnd_exact [where e = 0 and n = n]) simp_all

lemma rnd_mono_pos:
  assumes "0 < x" "x \<le> y"
  shows "rnd x \<le> rnd y"
proof (cases "binade x = binade y")
  case True
  then have u: "ulp x = ulp y"
    using assms by (simp add: ulp_def)
  have "half_even (x / ulp y) \<le> half_even (y / ulp y)"
    using assms(2) by (intro half_even_mono divide_right_mono) simp_all
  then show ?thesis
    using assms by (simp add: rnd_def u mult_right_mono)
next
  case False
  have "(2 :: rat) powi binade x < 2 powi (binade y + 1)"
    using binade_bounds(1) [of x] binade_bounds(2) [of y] assms by linarith
  with False have less: "binade x + 1 \<le> binade y"
    by simp
  let ?p = "(2 :: rat) powi (binade x + 1)"
  have "half_even (x / ulp x) \<le> half_even (of_int (2 ^ 53))"
    by (rule half_even_mono)
      (use binade_bounds(2) [of x] assms in \<open>simp add: ulp_def divide_le_eq power_int_diff power_int_add\<close>)
  then have "rnd x \<le> of_int (2 ^ 53) * ulp x"
    using assms unfolding half_even_of_int by (simp add: rnd_def mult_right_mono del: of_int_power)
  also have "\<dots> = 2 powi (binade x + 1)"
    using assms by (simp add: ulp_def power_int_diff power_int_add)
  also have "\<dots> \<le> 2 powi binade y"
    using less by (simp add: power_int_increasing)
  also have "\<dots> = of_int (half_even (of_int (2 ^ 52))) * ulp y"
    using assms by (simp add: ulp_def power_int_diff del: of_int_power of_int_numeral)
  also have "\<dots> \<le> rnd y"
  proof -
    have "half_even (of_int (2 ^ 52)) \<le> half_even (y / ulp y)"
      by (rule half_even_mono)
        (use binade_bounds(1) [of y] assms in \<open>simp add: ulp_def le_divide_eq power_int_diff\<close>)
    then show ?thesis
      using assms by (simp add: rnd_def mult_right_mono)
  qed
  finally show ?thesis .
qed

lemma rnd_mono: "0 \<le> x \<Longrightarrow> x \<le> y \<Longrightarrow> rnd x \<le> rnd y"
  using rnd_mono_pos [of x y] rnd_nonneg [of y] by (cases "x = 0") auto

lemma rnd_nonpos: "x \<le> 0 \<Longrightarrow> rnd x \<le> 0"
  using half_even_mono [of "x / ulp x" 0] half_even_of_int [of 0]
  by (simp add: rnd_def mult_le_0_iff divide_le_0_iff)

lemma rnd_le_int: "x \<le> of_int n \<Longrightarrow> 0 \<le> n \<Longrightarrow> n < 2 ^ 53 \<Longrightarrow> rnd x \<le> of_int n"
  using rnd_mono [of x "of_int n"] rnd_of_int [of n] rnd_nonpos [of x] by (cases "0 \<le> x") (auto intro: order_trans [of _ 0])

section \<open>Conversions and literals\<close>

lemma trunc_mono: "x \<le> y \<Longrightarrow> trunc x \<le> trunc y"
  by (auto simp: trunc_def floor_mono ceiling_mono intro: order_trans [of _ 0])

lemma trunc_of_int [simp]: "trunc (of_int n) = n"
  by (simp add: trunc_def)

text \<open>How a concrete number is rounded.\<close>

lemma rnd_eval:
  assumes "2 powi e \<le> x" "x < 2 powi (e + 1)"
  shows "rnd x = of_int (half_even (x / 2 powi (e - 52))) * 2 powi (e - 52)"
proof -
  have "0 < x"
    using assms(1) by (rule less_le_trans [rotated]) simp
  then show ?thesis
    using binade_eqI [OF assms] by (simp add: rnd_def ulp_def)
qed

lemma half_even_eqI: "\<bar>x - of_int n\<bar> < 1/2 \<Longrightarrow> half_even x = n"
proof -
  assume n: "\<bar>x - of_int n\<bar> < 1/2"
  have "\<bar>of_int (half_even x) - x\<bar> \<le> 1/2" by (rule half_even_error)
  with n have "\<bar>rat_of_int (half_even x) - rat_of_int n\<bar> < 1" by linarith
  then have "rat_of_int \<bar>half_even x - n\<bar> < rat_of_int 1" by simp
  then show ?thesis unfolding of_int_less_iff by linarith
qed

lemma rnd_tenth: "rnd (1/10) = 3602879701896397/36028797018963968"
  by (subst rnd_eval [of "-4"]) (simp_all add: power_int_minus half_even_eqI [where n = 7205759403792794])

end
