(* ===== verification/Runtime_Stats.thy ===== *)
theory Runtime_Stats
  imports Prelude Ieee_Double "HOL-Library.Multiset"
begin

text \<open>
  The statistics of \<^verbatim>\<open>src/monitor/runtime_stats.cc\<close>: the stages of a call, the counters and the
  histogram of each stage, \<^verbatim>\<open>Record\<close> and the \<^verbatim>\<open>ScopedTimer\<close> that calls it, and the percentiles. The
  counters are 64-bit words, the times \<^verbatim>\<open>double\<close>s as in \<open>Ieee_Double\<close>; an undefined conversion of a
  \<^verbatim>\<open>double\<close> is \<open>None\<close>. \<^verbatim>\<open>Record\<close> is modelled twice: as one thread sees it, and, for its
  compare-and-swap loop, as a step relation over many threads.
\<close>

section \<open>Counters and percentiles\<close>

datatype Stage = ZK_QUERY | LOAD_BALANCE | CONNECT | SERIALIZE_REQ | ENCODE_REQ | NET_IO | DECODE_RES
  | DESERIALIZE_RES | TOTAL

definition kHistBucketCount :: nat where
  "kHistBucketCount = 300"

definition kBucketWidthMs :: rat where
  "kBucketWidthMs = rnd (1/10)"

record RuntimeStats =
  m_counts :: "Stage \<Rightarrow> 64 word"
  m_total_times :: "Stage \<Rightarrow> 64 word"
  m_max_times :: "Stage \<Rightarrow> 64 word"
  m_hist :: "Stage \<Rightarrow> 64 word list"

definition RuntimeStats_init :: RuntimeStats where
  "RuntimeStats_init =
     \<lparr>m_counts = (\<lambda>_. 0), m_total_times = (\<lambda>_. 0), m_max_times = (\<lambda>_. 0),
      m_hist = (\<lambda>_. replicate kHistBucketCount 0)\<rparr>"

text \<open>\<^verbatim>\<open>static_cast\<close> of a \<^verbatim>\<open>double\<close> to a signed integer of \<open>w\<close> bits, undefined out of range.\<close>

definition cast_signed :: "nat \<Rightarrow> rat \<Rightarrow> int option" where
  "cast_signed w x = (if - (2 ^ (w - 1)) \<le> trunc x \<and> trunc x < 2 ^ (w - 1) then Some (trunc x) else None)"

definition bucket_of :: "int \<Rightarrow> nat" where
  "bucket_of b =
     (let b1 = (if b \<ge> int kHistBucketCount then int kHistBucketCount - 1 else b);
          b2 = (if b1 < 0 then 0 else b1)
      in nat b2)"

definition Record :: "Stage \<Rightarrow> rat \<Rightarrow> RuntimeStats \<Rightarrow> RuntimeStats option" where
  "Record stage duration_ms s =
     (case (cast_signed 64 (rnd (duration_ms * 1000000)), cast_signed 32 (rnd (duration_ms / kBucketWidthMs))) of
        (Some ns, Some bucket) \<Rightarrow>
          let old_max = m_max_times s stage;
              max' = (if ns > sint old_max then word_of_int ns else old_max);
              hist = m_hist s stage; b = bucket_of bucket
          in Some (s\<lparr>m_counts := (m_counts s)(stage := m_counts s stage + 1),
                    m_total_times := (m_total_times s)(stage := m_total_times s stage + word_of_int ns),
                    m_max_times := (m_max_times s)(stage := max'),
                    m_hist := (m_hist s)(stage := hist[b := hist ! b + 1])\<rparr>)
      | _ \<Rightarrow> None)"

text \<open>The destructor of a \<^verbatim>\<open>ScopedTimer\<close>: the difference of two clock readings in nanoseconds, as milliseconds.\<close>

definition elapsed_ms :: "int \<Rightarrow> int \<Rightarrow> rat" where
  "elapsed_ms start end = rnd (rnd (of_int (end - start)) / 1000000)"

definition ScopedTimer_destroy :: "Stage \<Rightarrow> int \<Rightarrow> int \<Rightarrow> RuntimeStats \<Rightarrow> RuntimeStats option" where
  "ScopedTimer_destroy stage start end s = Record stage (elapsed_ms start end) s"

record PercentileResult =
  p50_ms :: rat
  p95_ms :: rat
  p99_ms :: rat
  max_ms :: rat
  avg_ms :: rat
  pr_count :: "64 word"

definition bucket_mid :: "nat \<Rightarrow> rat" where
  "bucket_mid i = rnd (rnd (of_nat i + 1/2) * kBucketWidthMs)"

fun percentile_loop :: "int \<Rightarrow> int \<Rightarrow> int \<Rightarrow> nat \<Rightarrow> int \<Rightarrow> bool \<Rightarrow> bool \<Rightarrow> 64 word list \<Rightarrow> PercentileResult
    \<Rightarrow> PercentileResult" where
  "percentile_loop t50 t95 t99 i cumulative found50 found95 [] r = r"
| "percentile_loop t50 t95 t99 i cumulative found50 found95 (bucket_count # hist) r =
     (let c = cumulative + sint bucket_count;
          r1 = (if \<not> found50 \<and> c \<ge> t50 then r\<lparr>p50_ms := bucket_mid i\<rparr> else r);
          f50 = (found50 \<or> c \<ge> t50);
          r2 = (if \<not> found95 \<and> c \<ge> t95 then r1\<lparr>p95_ms := bucket_mid i\<rparr> else r1);
          f95 = (found95 \<or> c \<ge> t95)
      in if c \<ge> t99 then r2\<lparr>p99_ms := bucket_mid i\<rparr>
         else percentile_loop t50 t95 t99 (Suc i) c f50 f95 hist r2)"

text \<open>\<^verbatim>\<open>static_cast<long long>(result.count * q)\<close>: both factors are converted to \<^verbatim>\<open>double\<close> first. The running
  total of the loop is an integer without wrap-around; an overflow would be undefined.\<close>

definition percentile_target :: "64 word \<Rightarrow> rat \<Rightarrow> int" where
  "percentile_target n q = trunc (rnd (rnd (of_int (sint n)) * rnd q))"

definition ComputePercentiles :: "RuntimeStats \<Rightarrow> Stage \<Rightarrow> PercentileResult" where
  "ComputePercentiles s stage =
     (let n = m_counts s stage;
          result = \<lparr>p50_ms = 0, p95_ms = 0, p99_ms = 0, max_ms = 0, avg_ms = 0, pr_count = n\<rparr>
      in if n = 0 then result
         else
           let total_ns = m_total_times s stage;
               result = result\<lparr>
                 avg_ms := rnd (rnd (rnd (of_int (sint total_ns)) / 1000000) / rnd (of_int (sint n))),
                 max_ms := rnd (rnd (of_int (sint (m_max_times s stage))) / 1000000)\<rparr>
           in percentile_loop (percentile_target n (50/100)) (percentile_target n (95/100))
                (percentile_target n (99/100)) 0 0 False False (m_hist s stage) result)"

section \<open>Recording\<close>

text \<open>A sequence of calls, and what they contribute.\<close>

fun record_all :: "(Stage \<times> rat) list \<Rightarrow> RuntimeStats \<Rightarrow> RuntimeStats option" where
  "record_all [] s = Some s"
| "record_all ((st, d) # evs) s = (case Record st d s of None \<Rightarrow> None | Some s' \<Rightarrow> record_all evs s')"

definition durations :: "Stage \<Rightarrow> (Stage \<times> rat) list \<Rightarrow> rat list" where
  "durations st evs = map snd (filter (\<lambda>e. fst e = st) evs)"

definition ns_of :: "rat \<Rightarrow> int" where
  "ns_of d = trunc (rnd (d * 1000000))"

definition bucket_index :: "rat \<Rightarrow> nat" where
  "bucket_index d = bucket_of (trunc (rnd (d / kBucketWidthMs)))"

definition tracks :: "RuntimeStats \<Rightarrow> (Stage \<times> rat) list \<Rightarrow> bool" where
  "tracks s evs \<longleftrightarrow> (\<forall>st. let ds = durations st evs in
     m_counts s st = word_of_nat (length ds)
     \<and> m_total_times s st = word_of_int (sum_list (map ns_of ds))
     \<and> sint (m_max_times s st) = foldr max (map ns_of ds) 0
     \<and> m_hist s st = map (\<lambda>j. word_of_nat (count_list (map bucket_index ds) j)) [0..<kHistBucketCount])"

lemma durations_simps [simp]:
  "durations st [] = []" "durations st (evs @ [(st', d)]) = durations st evs @ (if st' = st then [d] else [])"
  by (simp_all add: durations_def)

lemma bucket_index_less: "bucket_index d < kHistBucketCount"
  by (simp add: bucket_index_def bucket_of_def kHistBucketCount_def Let_def nat_less_iff)

lemma sint_word_of_int: "- (2 ^ 63) \<le> n \<Longrightarrow> n < 2 ^ 63 \<Longrightarrow> sint (word_of_int n :: 64 word) = n"
  by (simp add: sint_sbintrunc' signed_take_bit_int_eq_self)

lemma foldr_max_snoc: "foldr max (xs @ [x]) (0 :: int) = max x (foldr max xs 0)"
  by (induction xs) auto

lemma tracks_init: "tracks RuntimeStats_init []"
  by (simp add: tracks_def RuntimeStats_init_def kHistBucketCount_def map_replicate_trivial)

lemma tracks_Record:
  assumes "tracks s evs" "Record st d s = Some s'"
  shows "tracks s' (evs @ [(st, d)])"
proof -
  obtain b where ns: "cast_signed 64 (rnd (d * 1000000)) = Some (ns_of d)"
    and b: "cast_signed 32 (rnd (d / kBucketWidthMs)) = Some b" "bucket_of b = bucket_index d"
    using assms(2) by (auto simp: Record_def cast_signed_def ns_of_def bucket_index_def split: option.splits if_splits)
  have range: "sint (word_of_int (ns_of d) :: 64 word) = ns_of d"
    using ns by (intro sint_word_of_int) (auto simp: cast_signed_def split: if_splits)
  show ?thesis
    unfolding tracks_def Let_def
  proof (intro allI conjI)
    fix st'
    show "m_counts s' st' = word_of_nat (length (durations st' (evs @ [(st, d)])))"
      using assms by (auto simp: tracks_def Record_def ns b Let_def)
    show "m_total_times s' st' = word_of_int (sum_list (map ns_of (durations st' (evs @ [(st, d)]))))"
      using assms by (auto simp: tracks_def Record_def ns b Let_def)
    show "sint (m_max_times s' st') = foldr max (map ns_of (durations st' (evs @ [(st, d)]))) 0"
      using assms range by (auto simp: tracks_def Record_def ns b Let_def foldr_max_snoc simp del: foldr_append)
    show "m_hist s' st' = map (\<lambda>j. word_of_nat (count_list (map bucket_index (durations st' (evs @ [(st, d)]))) j)) [0..<kHistBucketCount]"
      using assms bucket_index_less [of d]
      by (auto simp: tracks_def Record_def ns b Let_def nth_list_update intro!: nth_equalityI)
  qed
qed

lemma tracks_record_all: "tracks s evs \<Longrightarrow> record_all evs' s = Some s' \<Longrightarrow> tracks s' (evs @ evs')"
proof (induction evs' arbitrary: s evs)
  case Nil
  then show ?case by simp
next
  case (Cons ev evs')
  obtain st d s1 where ev: "ev = (st, d)" "Record st d s = Some s1" "record_all evs' s1 = Some s'"
    using Cons.prems(2) by (cases ev) (auto split: option.splits)
  from Cons.IH [OF tracks_Record [OF Cons.prems(1) ev(2)] ev(3)] show ?case
    by (simp add: ev(1))
qed


section \<open>The histogram is a sorted list\<close>

text \<open>The first bucket at which the running total reaches a target.\<close>

fun reach :: "int \<Rightarrow> nat \<Rightarrow> int \<Rightarrow> 64 word list \<Rightarrow> nat option" where
  "reach t i c [] = None"
| "reach t i c (h # hs) = (if t \<le> c + sint h then Some i else reach t (Suc i) (c + sint h) hs)"

lemma reach_mono:
  "reach t' i c hs = Some k' \<Longrightarrow> t \<le> t' \<Longrightarrow> \<exists>k. reach t i c hs = Some k \<and> k \<le> k'"
proof (induction hs arbitrary: i c)
  case (Cons h hs)
  have "i \<le> k'" if "reach t' (Suc i) c' hs' = Some k'" for c' hs'
    using that by (induction hs' arbitrary: i c') (auto split: if_splits intro: Suc_leD)
  with Cons show ?case by (auto split: if_splits)
qed simp

lemma percentile_loop_reach:
  assumes "reach t99 i c hs = Some k99" "t50 \<le> t99" "t95 \<le> t99"
  shows "percentile_loop t50 t95 t99 i c f50 f95 hs r =
    r\<lparr>p50_ms := if f50 then p50_ms r else bucket_mid (the (reach t50 i c hs)),
      p95_ms := if f95 then p95_ms r else bucket_mid (the (reach t95 i c hs)), p99_ms := bucket_mid k99\<rparr>"
  using assms(1)
proof (induction hs arbitrary: i c f50 f95 r)
  case (Cons h hs)
  with assms(2,3) show ?case
    by (cases "t99 \<le> c + sint h") (auto simp: Let_def)
qed simp

lemma reach_least:
  assumes "k < length hs" "t \<le> c + sum_list (map sint (take (Suc k) hs))"
    and "\<And>j. j < k \<Longrightarrow> c + sum_list (map sint (take (Suc j) hs)) < t"
  shows "reach t i c hs = Some (i + k)"
  using assms
proof (induction k arbitrary: i c hs)
  case 0
  then show ?case by (cases hs) auto
next
  case (Suc k)
  then obtain h hs' where hs: "hs = h # hs'" by (cases hs) auto
  have "c + sint h < t"
    using Suc.prems(3) [of 0] by (simp add: hs)
  moreover have "reach t (Suc i) (c + sint h) hs' = Some (Suc i + k)"
  proof (rule Suc.IH)
    fix j assume "j < k"
    then show "c + sint h + sum_list (map sint (take (Suc j) hs')) < t"
      using Suc.prems(3) [of "Suc j"] by (simp add: hs)
  qed (use Suc.prems(1,2) in \<open>simp_all add: hs\<close>)
  ultimately show ?case by (simp add: hs)
qed

text \<open>In a sorted list, at least \<open>t\<close> elements are at most \<open>i\<close> exactly if the one at rank \<open>t\<close> is.\<close>

lemma rank_iff:
  assumes "sorted bs" "1 \<le> t" "t \<le> length bs"
  shows "t \<le> length (filter (\<lambda>b. b \<le> i) bs) \<longleftrightarrow> bs ! (t - 1) \<le> (i :: nat)"
  using assms
proof (induction bs arbitrary: t)
  case (Cons b bs)
  show ?case
  proof (cases "t = 1")
    case True
    have "filter (\<lambda>b. b \<le> i) bs = []" if "\<not> b \<le> i"
      using Cons.prems(1) that by (auto simp: filter_empty_conv)
    with True show ?thesis by auto
  next
    case False
    then have "t - 1 \<le> length (filter (\<lambda>b. b \<le> i) bs) \<longleftrightarrow> bs ! (t - 1 - 1) \<le> i"
      using Cons.prems by (intro Cons.IH) auto
    moreover have "filter (\<lambda>b. b \<le> i) bs = [] \<and> \<not> bs ! (t - 1 - 1) \<le> i" if "\<not> b \<le> i"
    proof -
      have "t - 1 - 1 < length bs"
        using Cons.prems(2,3) False by simp
      then have "bs ! (t - 1 - 1) \<in> set bs" by (rule nth_mem)
      with Cons.prems(1) that show ?thesis by (auto simp: filter_empty_conv)
    qed
    ultimately show ?thesis
      using False Cons.prems by (cases t) (auto simp: nth_Cons')
  qed
qed simp

lemma prefix_counts:
  assumes "k < n" "length bs < 2 ^ 63"
  shows "sum_list (map sint (take (Suc k) (map (\<lambda>j. word_of_nat (count_list bs j) :: 64 word) [0..<n])))
    = int (length (filter (\<lambda>b. b \<le> k) bs))"
proof -
  have small: "sint (word_of_nat (count_list bs j) :: 64 word) = int (count_list bs j)" for j
    using sint_word_of_int [of "int (count_list bs j)"] count_le_length [of bs j] assms(2) by simp
  have "sum_list (map (\<lambda>j. int (count_list bs j)) [0..<Suc m]) = int (length (filter (\<lambda>b. b \<le> m) bs))" for m
  proof (induction m)
    case 0
    show ?case by (induction bs) auto
  next
    case (Suc m)
    have "length (filter (\<lambda>b. b \<le> Suc m) bs) = length (filter (\<lambda>b. b \<le> m) bs) + count_list bs (Suc m)"
      by (induction bs) auto
    with Suc show ?case by simp
  qed
  from this [of k] assms(1) show ?thesis
    by (simp add: take_map small o_def min_def)
qed

lemma reach_rank:
  assumes "1 \<le> t" "t \<le> length bs" "length bs < 2 ^ 63" "\<forall>b \<in> set bs. b < n"
  shows "reach (int t) 0 0 (map (\<lambda>j. word_of_nat (count_list bs j)) [0..<n]) = Some (sort bs ! (t - 1))"
proof -
  let ?k = "sort bs ! (t - 1)"
  have "?k \<in> set (sort bs)"
    using assms(1,2) by (intro nth_mem) simp
  then have k: "?k < n"
    using assms(4) by simp
  have iff: "t \<le> length (filter (\<lambda>b. b \<le> i) bs) \<longleftrightarrow> ?k \<le> i" for i
    using rank_iff [of "sort bs" t i] assms(1,2) by (simp add: filter_sort)
  have "reach (int t) 0 0 (map (\<lambda>j. word_of_nat (count_list bs j)) [0..<n]) = Some (0 + ?k)"
  proof (rule reach_least)
    show "?k < length (map (\<lambda>j. word_of_nat (count_list bs j) :: 64 word) [0..<n])"
      using k by simp
  qed (use iff k assms(3) in \<open>simp_all add: prefix_counts not_le [symmetric] del: take_map map_map take_upt\<close>)
  then show ?thesis by simp
qed


section \<open>Buckets and durations\<close>

lemma width_value: "kBucketWidthMs = 3602879701896397/36028797018963968"
  by (simp add: kBucketWidthMs_def rnd_tenth)

lemma bucket_index_mono: "0 \<le> x \<Longrightarrow> x \<le> y \<Longrightarrow> bucket_index x \<le> bucket_index y"
proof -
  assume "0 \<le> x" "x \<le> y"
  then have "trunc (rnd (x / kBucketWidthMs)) \<le> trunc (rnd (y / kBucketWidthMs))"
    by (intro trunc_mono rnd_mono) (simp_all add: width_value divide_right_mono)
  then show ?thesis
    by (auto simp: bucket_index_def bucket_of_def kHistBucketCount_def Let_def)
qed

lemma sort_map_bucket:
  assumes "\<forall>d \<in> set ds. 0 \<le> d"
  shows "sort (map bucket_index ds) = map bucket_index (sort ds)"
proof (rule properties_for_sort)
  have "sorted_wrt (\<lambda>x y. bucket_index x \<le> bucket_index y) (sort ds)"
    by (rule sorted_wrt_mono_rel [OF _ sorted_sort]) (use assms bucket_index_mono in auto)
  then show "sorted (map bucket_index (sort ds))"
    by (simp add: sorted_map)
qed simp

lemma half_exact: "i < 300 \<Longrightarrow> rnd (of_nat i + 1/2) = of_nat i + 1/2"
proof -
  assume "i < 300"
  then have "rat_of_nat i < 300"
    using of_nat_less_iff [of i 300, where ?'a = rat] by (simp only: of_nat_numeral)
  then show ?thesis
    by (intro rnd_exact [where e = "-1" and n = "2 * int i + 1"]) (simp_all add: power_int_minus)
qed

lemma bucket_mid_error:
  assumes "i < 300"
  shows "\<bar>bucket_mid i - (of_nat i + 1/2) * kBucketWidthMs\<bar> \<le> 1 / 2 ^ 40"
proof -
  have i: "rat_of_nat i < 300"
    using assms of_nat_less_iff [of i 300, where ?'a = rat] by (simp only: of_nat_numeral)
  have "\<bar>bucket_mid i - (of_nat i + 1/2) * kBucketWidthMs\<bar> \<le> \<bar>(of_nat i + 1/2) * kBucketWidthMs\<bar> / 2 ^ 53"
    unfolding bucket_mid_def half_exact [OF assms] by (rule rnd_error)
  also have "\<dots> \<le> 1 / 2 ^ 40"
    using i by (simp add: width_value abs_mult)
  finally show ?thesis .
qed

lemma abs_chain: "\<bar>a - c\<bar> \<le> e \<Longrightarrow> \<bar>c - x\<bar> \<le> f \<Longrightarrow> \<bar>a - x\<bar> \<le> e + f" for a :: rat
  by linarith

text \<open>A duration below the range of the histogram is within half a bucket of the middle of its bucket; one
  beyond the range counts as the last bucket.\<close>

lemma bucket_accuracy:
  assumes "0 \<le> x" "x \<le> 299/10"
  shows "\<bar>bucket_mid (bucket_index x) - x\<bar> \<le> 501/10000"
proof -
  let ?q = "x / kBucketWidthMs" and ?w = kBucketWidthMs
  define b where "b = \<lfloor>rnd ?q\<rfloor>"
  have w: "0 < ?w" "?w \<noteq> 0"
    by (simp_all add: width_value)
  have q: "0 \<le> ?q" "?q \<le> 299"
    using assms by (simp_all add: width_value)
  have "\<bar>?q\<bar> / 2 ^ 53 \<le> 299 / 2 ^ 53"
    using q by (intro divide_right_mono) (simp_all only: abs_of_nonneg, simp)
  then have err: "\<bar>rnd ?q - ?q\<bar> \<le> 1 / 2 ^ 40"
    by (rule order_trans [OF order_trans [OF rnd_error]]) simp
  then have err': "rnd ?q - ?q \<le> 1 / 2 ^ 40" "?q - rnd ?q \<le> 1 / 2 ^ 40"
    unfolding abs_le_iff by (simp_all only: minus_diff_eq)
  have b: "of_int b \<le> rnd ?q" "rnd ?q < of_int b + 1"
    unfolding b_def by linarith+
  have "rnd ?q < 300" using err' q by simp
  then have "rat_of_int b < rat_of_int 300" using b by simp
  then have range: "0 \<le> b" "b < 300"
    using rnd_nonneg [OF q(1)] unfolding of_int_less_iff by (simp_all add: b_def)
  have idx: "bucket_index x = nat b"
    using range rnd_nonneg [OF q(1)] by (simp add: bucket_index_def bucket_of_def trunc_def kHistBucketCount_def b_def Let_def)
  have nat_b: "rat_of_nat (nat b) = of_int b"
    using range(1) by simp
  have mid: "\<bar>bucket_mid (nat b) - (of_int b + 1/2) * ?w\<bar> \<le> 1 / 2 ^ 40"
    using bucket_mid_error [of "nat b"] range by (simp add: nat_b)
  have "\<bar>(of_int b + 1/2) - ?q\<bar> \<le> 1/2 + 1 / 2 ^ 40"
    using b err' unfolding abs_le_iff by linarith
  then have "\<bar>(of_int b + 1/2) - ?q\<bar> * ?w \<le> (1/2 + 1 / 2 ^ 40) * ?w"
    by (rule mult_right_mono) (simp add: width_value)
  moreover have "\<bar>(of_int b + 1/2) * ?w - x\<bar> = \<bar>(of_int b + 1/2) - ?q\<bar> * ?w"
  proof -
    have "((of_int b + 1/2) - ?q) * ?w = (of_int b + 1/2) * ?w - x"
      using w(2) by (simp add: left_diff_distrib)
    then show ?thesis
      using w(1) abs_mult [of "(of_int b + 1/2) - ?q" ?w] by simp
  qed
  ultimately have "\<bar>(of_int b + 1/2) * ?w - x\<bar> \<le> (1/2 + 1 / 2 ^ 40) * ?w"
    by simp
  from abs_chain [OF mid this] have "\<bar>bucket_mid (nat b) - x\<bar> \<le> 1 / 2 ^ 40 + (1/2 + 1 / 2 ^ 40) * ?w" .
  also have "\<dots> \<le> 501/10000"
    by (simp add: width_value)
  finally show ?thesis
    unfolding idx .
qed

lemma bucket_saturates:
  assumes "301/10 \<le> x"
  shows "bucket_index x = kHistBucketCount - 1"
proof -
  let ?q = "x / kBucketWidthMs"
  have "300 \<le> 301/10 / kBucketWidthMs"
    by (simp add: width_value)
  also have "\<dots> \<le> ?q"
    using assms by (simp add: width_value)
  finally have "rnd (of_int 300) \<le> rnd ?q"
    by (intro rnd_mono) simp_all
  then have "trunc (of_int 300) \<le> trunc (rnd ?q)"
    using rnd_of_int [of 300] by (intro trunc_mono) simp
  then have "300 \<le> trunc (rnd ?q)"
    unfolding trunc_of_int .
  then show ?thesis
    by (simp add: bucket_index_def bucket_of_def kHistBucketCount_def Let_def)
qed


section \<open>Ranks\<close>

lemma literal_bounds: "0 \<le> rnd (50/100)" "rnd (50/100) \<le> rnd (95/100)" "rnd (95/100) \<le> rnd (99/100)" "rnd (99/100) \<le> 1"
  using rnd_of_int [of 1] rnd_mono [of "99/100" 1] by (simp_all add: rnd_nonneg rnd_mono)

definition rank_of :: "nat \<Rightarrow> rat \<Rightarrow> nat" where
  "rank_of n q = nat (percentile_target (word_of_nat n) q)"

lemma count_exact: "n < 2 ^ 53 \<Longrightarrow> rnd (of_int (sint (word_of_nat n :: 64 word))) = of_nat n"
  using sint_word_of_int [of "int n"] rnd_of_int [of "int n"] by simp

lemma percentile_target_eq: "n < 2 ^ 53 \<Longrightarrow> percentile_target (word_of_nat n) q = trunc (rnd (of_nat n * rnd q))"
  unfolding percentile_target_def by (simp only: count_exact)

lemma target_int:
  assumes "n < 2 ^ 53" "0 \<le> rnd q"
  shows "percentile_target (word_of_nat n) q = int (rank_of n q)"
  using assms rnd_nonneg [of "of_nat n * rnd q"] by (simp add: rank_of_def percentile_target_eq trunc_def)

lemma target_mono: "n < 2 ^ 53 \<Longrightarrow> 0 \<le> rnd q \<Longrightarrow> rnd q \<le> rnd q' \<Longrightarrow> rank_of n q \<le> rank_of n q'"
  unfolding rank_of_def percentile_target_eq
  by (rule nat_mono [OF trunc_mono [OF rnd_mono]]) (simp_all add: mult_left_mono)

lemma target_le:
  assumes "n < 2 ^ 53" "0 \<le> rnd q" "rnd q \<le> 1"
  shows "rank_of n q \<le> n"
proof -
  have "rnd (of_nat n * rnd q) \<le> rnd (of_int (int n))"
    using assms mult_left_mono [of "rnd q" 1 "of_nat n"] by (intro rnd_mono) simp_all
  then have "trunc (rnd (of_nat n * rnd q)) \<le> trunc (of_int (int n))"
    using rnd_of_int [of "int n"] assms(1) by (intro trunc_mono) simp
  then show ?thesis
    using assms(1) unfolding trunc_of_int by (simp add: rank_of_def percentile_target_eq)
qed

lemma target_close:
  assumes "n \<le> 2 ^ 40" "0 \<le> q" "q \<le> 1"
  shows "\<bar>of_nat (rank_of n q) - q * of_nat n\<bar> \<le> 1001/1000"
proof -
  let ?n = "of_nat n :: rat" and ?v = "rnd (of_nat n * rnd q)"
  have n: "?n \<le> 2 ^ 40" "0 \<le> ?n"
    using of_nat_le_iff [of n "2 ^ 40", where ?'a = rat] assms(1) by simp_all
  have q: "0 \<le> rnd q" "rnd q \<le> 1"
    using rnd_nonneg [OF assms(2)] rnd_mono [OF assms(2,3)] rnd_of_int [of 1] by simp_all
  have "\<bar>q\<bar> / 2 ^ 53 \<le> 1 / 2 ^ 53"
    using assms(2,3) by (intro divide_right_mono) simp_all
  then have "\<bar>rnd q - q\<bar> \<le> 1 / 2 ^ 53"
    by (rule order_trans [OF rnd_error])
  then have "?n * \<bar>rnd q - q\<bar> \<le> 2 ^ 40 * (1 / 2 ^ 53)"
    using n by (intro mult_mono) simp_all
  moreover have "?n * \<bar>rnd q - q\<bar> = \<bar>?n * rnd q - q * ?n\<bar>"
    using n(2) abs_mult [of ?n "rnd q - q"] by (simp add: algebra_simps)
  ultimately have 1: "\<bar>?n * rnd q - q * ?n\<bar> \<le> 1 / 2 ^ 13"
    by simp
  have "?n * rnd q \<le> 2 ^ 40 * 1"
    using n q by (intro mult_mono) simp_all
  then have "\<bar>?n * rnd q\<bar> / 2 ^ 53 \<le> 2 ^ 40 * 1 / 2 ^ 53"
    using n q by (intro divide_right_mono) simp_all
  then have 2: "\<bar>?v - ?n * rnd q\<bar> \<le> 1 / 2 ^ 13"
    by (rule order_trans [OF order_trans [OF rnd_error]]) simp
  have v: "0 \<le> ?v"
    using n q by (intro rnd_nonneg) simp
  then have "rank_of n q = nat \<lfloor>?v\<rfloor>"
    using assms(1) by (simp add: rank_of_def percentile_target_eq trunc_def)
  then have "of_nat (rank_of n q) = (of_int \<lfloor>?v\<rfloor> :: rat)"
    using v by simp
  then have 3: "\<bar>of_nat (rank_of n q) - ?v\<bar> \<le> 1"
    by simp linarith
  from abs_chain [OF abs_chain [OF 3 2] 1] show ?thesis
    by (rule order_trans) simp
qed

text \<open>The bucket a percentile is read from: that of the sample at the target rank, or the first one for rank 0.\<close>

definition rank_bucket :: "rat list \<Rightarrow> nat \<Rightarrow> nat" where
  "rank_bucket ds t = (if t = 0 then 0 else bucket_index (sort ds ! (t - 1)))"

lemma reach_rank_bucket:
  assumes "\<forall>d \<in> set ds. 0 \<le> d" "t \<le> length ds" "length ds < 2 ^ 63"
  shows "reach (int t) 0 0 (map (\<lambda>j. word_of_nat (count_list (map bucket_index ds) j)) [0..<kHistBucketCount])
    = Some (rank_bucket ds t)"
proof (cases "t = 0")
  case True
  have "0 \<le> sint (word_of_nat (count_list (map bucket_index ds) 0) :: 64 word)"
    using sint_word_of_int [of "int (count_list (map bucket_index ds) 0)"]
      count_le_length [of "map bucket_index ds" 0] assms(3) by simp
  with True show ?thesis
    by (simp add: kHistBucketCount_def upt_conv_Cons rank_bucket_def)
next
  case False
  have "reach (int t) 0 0 (map (\<lambda>j. word_of_nat (count_list (map bucket_index ds) j)) [0..<kHistBucketCount])
      = Some (sort (map bucket_index ds) ! (t - 1))"
    by (rule reach_rank) (use False assms bucket_index_less in auto)
  with False assms(2) show ?thesis
    by (simp add: sort_map_bucket [OF assms(1)] rank_bucket_def)
qed

lemma compute_percentiles:
  assumes "tracks s evs" "ds = durations st evs" "ds \<noteq> []" "length ds < 2 ^ 53" "\<forall>d \<in> set ds. 0 \<le> d"
  shows "p50_ms (ComputePercentiles s st) = bucket_mid (rank_bucket ds (rank_of (length ds) (50/100)))"
    and "p95_ms (ComputePercentiles s st) = bucket_mid (rank_bucket ds (rank_of (length ds) (95/100)))"
    and "p99_ms (ComputePercentiles s st) = bucket_mid (rank_bucket ds (rank_of (length ds) (99/100)))"
proof -
  let ?n = "length ds" and ?hist = "map (\<lambda>j. word_of_nat (count_list (map bucket_index ds) j) :: 64 word) [0..<kHistBucketCount]"
  have s: "m_counts s st = word_of_nat ?n" "m_hist s st = ?hist"
    using assms(1,2) by (simp_all add: tracks_def Let_def)
  have q: "0 \<le> rnd (50/100)" "0 \<le> rnd (95/100)" "0 \<le> rnd (99/100)"
      "rnd (50/100) \<le> 1" "rnd (95/100) \<le> 1" "rnd (99/100) \<le> 1"
    using literal_bounds by (simp_all add: rnd_nonneg)
  have nz: "(word_of_nat ?n :: 64 word) \<noteq> 0"
    using assms(3,4) by (simp add: word_of_nat_eq_0_iff nat_dvd_not_less)
  have t: "percentile_target (word_of_nat ?n) q = int (rank_of ?n q)" if "0 \<le> rnd q" for q
    by (rule target_int [OF assms(4) that])
  have r: "reach (int (rank_of ?n q)) 0 0 ?hist = Some (rank_bucket ds (rank_of ?n q))" if "0 \<le> rnd q" "rnd q \<le> 1" for q
    using assms(4,5) target_le [OF assms(4) that] by (intro reach_rank_bucket) simp_all
  have order: "int (rank_of ?n (50/100)) \<le> int (rank_of ?n (99/100))" "int (rank_of ?n (95/100)) \<le> int (rank_of ?n (99/100))"
    using literal_bounds target_mono [OF assms(4)] by (simp_all add: q)
  note loop = percentile_loop_reach [OF r [OF q(3,6)] order]
  show "p50_ms (ComputePercentiles s st) = bucket_mid (rank_bucket ds (rank_of ?n (50/100)))"
    "p95_ms (ComputePercentiles s st) = bucket_mid (rank_bucket ds (rank_of ?n (95/100)))"
    "p99_ms (ComputePercentiles s st) = bucket_mid (rank_bucket ds (rank_of ?n (99/100)))"
    unfolding ComputePercentiles_def Let_def s t [OF q(1)] t [OF q(2)] t [OF q(3)] loop
    using nz r [OF q(1,4)] r [OF q(2,5)] by simp_all
qed


lemma bucket_mid_mono: "i \<le> j \<Longrightarrow> bucket_mid i \<le> bucket_mid j"
  unfolding bucket_mid_def
  by (rule rnd_mono) (auto simp: width_value intro!: mult_right_mono rnd_mono mult_nonneg_nonneg rnd_nonneg)

lemma rank_bucket_mono:
  assumes "\<forall>d \<in> set ds. 0 \<le> d" "t \<le> t'" "t' \<le> length ds"
  shows "rank_bucket ds t \<le> rank_bucket ds t'"
proof (cases "t = 0")
  case False
  have "sort ds ! (t - 1) \<le> sort ds ! (t' - 1)"
    using assms(2,3) False by (intro sorted_nth_mono) auto
  moreover have "0 \<le> sort ds ! (t - 1)"
    using assms False nth_mem [of "t - 1" "sort ds"] by auto
  ultimately show ?thesis
    using False assms(2) by (simp add: rank_bucket_def bucket_index_mono)
qed (simp add: rank_bucket_def)

section \<open>Timers\<close>

text \<open>The time of a block survives the detour over milliseconds up to one nanosecond.\<close>

lemma elapsed_ns:
  assumes "0 \<le> n" "n < 2 ^ 47"
  shows "ns_of (elapsed_ms start (start + n)) \<in> {n - 1, n}"
proof -
  let ?n = "of_int n :: rat"
  let ?a = "rnd (?n / 1000000)"
  let ?v = "rnd (?a * 1000000)"
  have n: "0 \<le> ?n" "?n \<le> 2 ^ 47"
    using assms of_int_bounds(2) [of n 47] by simp_all
  have a: "elapsed_ms start (start + n) = ?a"
    using rnd_of_int [of n] assms by (simp add: elapsed_ms_def)
  have "\<bar>?a - ?n / 1000000\<bar> \<le> \<bar>?n / 1000000\<bar> / 2 ^ 53"
    by (rule rnd_error)
  also have "\<dots> \<le> 1 / 64000000"
    using n by (simp add: abs_of_nonneg)
  finally have ms: "\<bar>?a - ?n / 1000000\<bar> \<le> 1 / 64000000" .
  have 1: "\<bar>?a * 1000000 - ?n\<bar> \<le> 1 / 64"
    using abs_le_D1 [OF ms] abs_le_D2 [OF ms] by (intro abs_leI) linarith+
  then have a_le: "?a * 1000000 \<le> 2 ^ 47 + 1" "0 \<le> ?a * 1000000"
    using n unfolding abs_le_iff by (simp_all add: rnd_nonneg)
  have "\<bar>?v - ?a * 1000000\<bar> \<le> \<bar>?a * 1000000\<bar> / 2 ^ 53"
    by (rule rnd_error)
  also have "\<dots> \<le> (2 ^ 47 + 1) / 2 ^ 53"
    using a_le by (intro divide_right_mono) simp_all
  finally have "\<bar>?v - ?n\<bar> \<le> (2 ^ 47 + 1) / 2 ^ 53 + 1 / 64"
    by (rule abs_chain [OF _ 1])
  also have "\<dots> < 1"
    by simp
  finally have v: "\<bar>?v - ?n\<bar> < 1" .
  have "0 \<le> ?v"
    using n by (intro rnd_nonneg) (simp add: rnd_nonneg)
  with v show ?thesis
    unfolding ns_of_def a trunc_def by simp linarith
qed


lemma elapsed_small:
  assumes "0 \<le> n" "n < 2 ^ 47"
  shows "0 \<le> elapsed_ms start (start + n)" "elapsed_ms start (start + n) \<le> 140737489"
proof -
  have n: "0 \<le> rat_of_int n" "rat_of_int n \<le> 2 ^ 47"
    using assms of_int_bounds(2) [of n 47] by simp_all
  have a: "elapsed_ms start (start + n) = rnd (of_int n / 1000000)"
    using rnd_of_int [of n] assms by (simp add: elapsed_ms_def)
  show "0 \<le> elapsed_ms start (start + n)"
    unfolding a using n by (intro rnd_nonneg) simp
  have "rnd (of_int n / 1000000) \<le> rnd (of_int 140737489)"
    using n by (intro rnd_mono) simp_all
  then show "elapsed_ms start (start + n) \<le> 140737489"
    using rnd_of_int [of 140737489] unfolding a by simp
qed

lemma Record_elapsed:
  assumes "0 \<le> n" "n < 2 ^ 47"
  shows "\<exists>s'. ScopedTimer_destroy st start (start + n) s = Some s'"
proof -
  let ?d = "elapsed_ms start (start + n)"
  note d = elapsed_small [OF assms, of start]
  have "- (2 ^ 63) \<le> ns_of ?d" "ns_of ?d < 2 ^ 63"
    using elapsed_ns [OF assms, of start] assms by auto
  then have "cast_signed 64 (rnd (?d * 1000000)) \<noteq> None"
    by (simp add: cast_signed_def ns_of_def)
  moreover have "0 \<le> trunc (rnd (?d / kBucketWidthMs))" "trunc (rnd (?d / kBucketWidthMs)) \<le> 1500000000"
  proof -
    have "0 \<le> rnd (?d / kBucketWidthMs)"
      using d by (intro rnd_nonneg) (simp add: width_value)
    then show "0 \<le> trunc (rnd (?d / kBucketWidthMs))"
      by (simp add: trunc_def)
    have "rnd (?d / kBucketWidthMs) \<le> rnd (of_int 1500000000)"
      using d by (intro rnd_mono) (simp_all add: width_value)
    then have "trunc (rnd (?d / kBucketWidthMs)) \<le> trunc (of_int 1500000000)"
      using rnd_of_int [of 1500000000] by (intro trunc_mono) simp
    then show "trunc (rnd (?d / kBucketWidthMs)) \<le> 1500000000"
      unfolding trunc_of_int .
  qed
  ultimately show ?thesis
    by (auto simp: ScopedTimer_destroy_def Record_def cast_signed_def Let_def split: if_splits)
qed

section \<open>Concurrent maxima\<close>

text \<open>
  \<^verbatim>\<open>Record\<close> may run in many threads; its only loop is the one that raises the maximum. A thread loads
  the old maximum, then repeats the weak compare-and-swap as long as its own value is larger: a swap
  that fails, for a reason or spuriously, reloads the old maximum.
\<close>

datatype recorder = Entering int | Trying int int | Finished

record max_state =
  shared_max :: int
  recorders :: "recorder list"

definition max_init :: "int \<Rightarrow> int list \<Rightarrow> max_state" where
  "max_init m vs = \<lparr>shared_max = m, recorders = map Entering vs\<rparr>"

inductive max_step :: "max_state \<Rightarrow> max_state \<Rightarrow> bool" where
  load_max: "t < length (recorders s) \<Longrightarrow> recorders s ! t = Entering v \<Longrightarrow>
     max_step s (s\<lparr>recorders := (recorders s)[t := Trying v (shared_max s)]\<rparr>)"
| not_larger: "t < length (recorders s) \<Longrightarrow> recorders s ! t = Trying v old \<Longrightarrow> \<not> v > old \<Longrightarrow>
     max_step s (s\<lparr>recorders := (recorders s)[t := Finished]\<rparr>)"
| swapped: "t < length (recorders s) \<Longrightarrow> recorders s ! t = Trying v old \<Longrightarrow> v > old \<Longrightarrow> shared_max s = old \<Longrightarrow>
     max_step s (s\<lparr>shared_max := v, recorders := (recorders s)[t := Finished]\<rparr>)"
| not_swapped: "t < length (recorders s) \<Longrightarrow> recorders s ! t = Trying v old \<Longrightarrow> v > old \<Longrightarrow>
     max_step s (s\<lparr>recorders := (recorders s)[t := Trying v (shared_max s)]\<rparr>)"

text \<open>Thread \<open>t\<close> reports \<open>vs ! t\<close>: until it is done it carries its value, and when it is done the maximum
  covers it; what it has loaded is never above the maximum, which only grows.\<close>

fun thread_ok :: "int \<Rightarrow> int \<Rightarrow> recorder \<Rightarrow> bool" where
  "thread_ok m v (Entering v') \<longleftrightarrow> v' = v"
| "thread_ok m v (Trying v' old) \<longleftrightarrow> v' = v \<and> old \<le> m"
| "thread_ok m v Finished \<longleftrightarrow> v \<le> m"

definition max_inv :: "int \<Rightarrow> int list \<Rightarrow> max_state \<Rightarrow> bool" where
  "max_inv m vs s \<longleftrightarrow> list_all2 (thread_ok (shared_max s)) vs (recorders s)
     \<and> m \<le> shared_max s \<and> shared_max s \<in> insert m (set vs)"

lemma thread_ok_mono: "thread_ok m v r \<Longrightarrow> m \<le> m' \<Longrightarrow> thread_ok m' v r"
  by (cases r) auto

lemma max_inv_length: "max_inv m vs s \<Longrightarrow> length (recorders s) = length vs"
  by (auto simp: max_inv_def dest: list_all2_lengthD)

lemma max_inv_thread:
  "max_inv m vs s \<Longrightarrow> t < length (recorders s) \<Longrightarrow> thread_ok (shared_max s) (vs ! t) (recorders s ! t)"
  by (auto simp: max_inv_def list_all2_conv_all_nth)

lemma max_inv_update:
  assumes "max_inv m vs s" "t < length (recorders s)" "shared_max s \<le> m'" "m' \<in> insert m (set vs)"
    and "thread_ok m' (vs ! t) r"
  shows "max_inv m vs (s\<lparr>shared_max := m', recorders := (recorders s)[t := r]\<rparr>)"
  using assms thread_ok_mono [OF _ assms(3)]
  by (auto simp: max_inv_def list_all2_conv_all_nth nth_list_update)

lemma max_inv_step: "max_step s s' \<Longrightarrow> max_inv m vs s \<Longrightarrow> max_inv m vs s'"
proof (induction rule: max_step.induct)
  case (load_max t s v)
  then show ?case
    using max_inv_update [of m vs s t "shared_max s" "Trying v (shared_max s)"] max_inv_thread [of m vs s t]
    by (simp add: max_inv_def)
next
  case (not_larger t s v old)
  then show ?case
    using max_inv_update [of m vs s t "shared_max s" Finished] max_inv_thread [of m vs s t]
    by (simp add: max_inv_def)
next
  case (swapped t s v old)
  moreover have "length (recorders s) = length vs"
    using swapped.prems by (rule max_inv_length)
  ultimately show ?case
    using max_inv_update [of m vs s t v Finished] max_inv_thread [of m vs s t] by auto
next
  case (not_swapped t s v old)
  then show ?case
    using max_inv_update [of m vs s t "shared_max s" "Trying v (shared_max s)"] max_inv_thread [of m vs s t]
    by (simp add: max_inv_def)
qed

lemma max_inv_reachable: "max_step\<^sup>*\<^sup>* (max_init m vs) s \<Longrightarrow> max_inv m vs s"
proof (induction rule: rtranclp_induct)
  case base
  then show ?case
    by (simp add: max_inv_def max_init_def list_all2_conv_all_nth)
qed (rule max_inv_step)

lemma foldr_max_le: "\<forall>v \<in> set vs. v \<le> x \<Longrightarrow> m \<le> x \<Longrightarrow> foldr max vs m \<le> x" for x :: int
  by (induction vs) auto

lemma foldr_max_ge: "x \<in> insert m (set vs) \<Longrightarrow> x \<le> foldr max vs m" for x :: int
  by (induction vs) (auto simp: le_max_iff_disj)

lemma max_inv_finished:
  assumes "max_inv m vs s" "set (recorders s) \<subseteq> {Finished}"
  shows "shared_max s = foldr max vs m"
proof -
  have "recorders s ! t = Finished" if "t < length vs" for t
  proof -
    have "recorders s ! t \<in> set (recorders s)"
      using that max_inv_length [OF assms(1)] by simp
    with assms(2) show ?thesis by blast
  qed
  then have "vs ! t \<le> shared_max s" if "t < length vs" for t
    using that max_inv_thread [OF assms(1), of t] max_inv_length [OF assms(1)] by simp
  then have "\<forall>v \<in> set vs. v \<le> shared_max s"
    by (simp add: all_set_conv_all_nth)
  moreover have "m \<le> shared_max s" "shared_max s \<in> insert m (set vs)"
    using assms(1) by (simp_all add: max_inv_def)
  ultimately show ?thesis
    using foldr_max_le [of vs "shared_max s" m] foldr_max_ge [of "shared_max s" m vs] by (intro order_antisym)
qed

text \<open>A thread that runs alone finishes: it loads, swaps or gives up.\<close>

lemma recorder_finishes:
  assumes "t < length (recorders s)"
  shows "\<exists>s'. max_step\<^sup>*\<^sup>* s s' \<and> recorders s' = (recorders s)[t := Finished]"
proof -
  have alone: "\<exists>s'. max_step\<^sup>*\<^sup>* s s' \<and> recorders s' = (recorders s)[t := Finished]"
    if t: "t < length (recorders s)" "recorders s ! t = Trying v (shared_max s)" for s v
  proof (cases "v > shared_max s")
    case True
    show ?thesis
      by (rule exI, rule conjI [OF r_into_rtranclp [of max_step, OF swapped [OF t True refl]]]) simp
  next
    case False
    show ?thesis
      by (rule exI, rule conjI [OF r_into_rtranclp [of max_step, OF not_larger [OF t False]]]) simp
  qed
  have retry: "\<exists>s'. max_step\<^sup>*\<^sup>* s s' \<and> recorders s' = (recorders s)[t := Finished]"
    if "max_step s (s\<lparr>recorders := (recorders s)[t := Trying v (shared_max s)]\<rparr>)" for v
    using alone [of "s\<lparr>recorders := (recorders s)[t := Trying v (shared_max s)]\<rparr>" v] assms that
    by (auto intro: converse_rtranclp_into_rtranclp)
  show ?thesis
  proof (cases "recorders s ! t")
    case (Entering v)
    then show ?thesis by (intro retry load_max assms)
  next
    case (Trying v old)
    then show ?thesis
    proof (cases "v > old")
      case True
      show ?thesis by (rule retry [OF not_swapped [OF assms Trying True]])
    next
      case False
      show ?thesis
        by (rule exI, rule conjI [OF r_into_rtranclp [of max_step, OF not_larger [OF assms Trying False]]]) simp
    qed
  next
    case Finished
    then show ?thesis using list_update_id [of "recorders s" t] by auto
  qed
qed


section \<open>Properties\<close>

text \<open>C13: the percentiles of a report are those of the recorded times. Of \<open>n\<close> times recorded for a stage
  (up to \<open>2 ^ 40\<close>), each percentile \<open>q\<close> is read at a rank \<open>t\<close> within one of \<open>q * n\<close>: it differs by at most
  0.0501 ms from the \<open>t\<close>-th smallest time if that is at most 29.9 ms, and is the middle of the last
  bucket if it is 30.1 ms or more. A rank of 0, which \<open>n = 1\<close> always gives, reads the first bucket
  whatever the time was.\<close>

theorem percentiles_accurate:
  assumes "record_all evs RuntimeStats_init = Some s" "ds = durations st evs" "r = ComputePercentiles s st"
    and "ds \<noteq> []" "length ds \<le> 2 ^ 40" "\<forall>d \<in> set ds. 0 \<le> d"
    and "(q, p) \<in> {(50/100, p50_ms r), (95/100, p95_ms r), (99/100, p99_ms r)}" "t = rank_of (length ds) q"
  shows "t \<le> length ds \<and> \<bar>of_nat t - q * of_nat (length ds)\<bar> \<le> 1001/1000
    \<and> (if t = 0 then p = bucket_mid 0
       else (sort ds ! (t - 1) \<le> 299/10 \<longrightarrow> \<bar>p - sort ds ! (t - 1)\<bar> \<le> 501/10000)
         \<and> (301/10 \<le> sort ds ! (t - 1) \<longrightarrow> p = bucket_mid (kHistBucketCount - 1)))"
proof -
  have n: "length ds < 2 ^ 53"
    using assms(5) by simp
  have "tracks s evs"
    using tracks_record_all [OF tracks_init assms(1)] by simp
  note parts = compute_percentiles [OF this assms(2,4) n assms(6)]
  have p: "p = bucket_mid (rank_bucket ds t)"
    using assms(7) unfolding insert_iff prod.inject empty_iff assms(3,8)
    by (elim disjE conjE) (simp_all only: parts)
  have q: "0 \<le> q" "q \<le> 1"
    using assms(7) by auto
  then have "0 \<le> rnd q" "rnd q \<le> 1"
    using rnd_nonneg rnd_mono [of q 1] rnd_of_int [of 1] by simp_all
  have le: "t \<le> length ds"
    unfolding assms(8) by (rule target_le [OF n \<open>0 \<le> rnd q\<close> \<open>rnd q \<le> 1\<close>])
  have "0 \<le> sort ds ! (t - 1)" if "t \<noteq> 0"
    using assms(6) le that nth_mem [of "t - 1" "sort ds"] by auto
  then show ?thesis
    using le target_close [OF assms(5) q(1,2)] bucket_accuracy [of "sort ds ! (t - 1)"]
      bucket_saturates [of "sort ds ! (t - 1)"]
    by (auto simp: assms(8) p rank_bucket_def)
qed

text \<open>The counters of a report are exact, and its percentiles are in order.\<close>

lemma compute_count:
  assumes "tracks s evs"
  shows "pr_count (ComputePercentiles s st) = word_of_nat (length (durations st evs))"
proof -
  have "pr_count (percentile_loop a b c i cum f g hs x) = pr_count x" for a b c i cum f g hs x
    by (induction hs arbitrary: i cum f g x) (simp_all add: Let_def)
  then show ?thesis
    using assms by (simp add: ComputePercentiles_def Let_def tracks_def)
qed

lemma percentile_order:
  assumes "tracks s evs" "ds = durations st evs" "ds \<noteq> []" "length ds < 2 ^ 53" "\<forall>d \<in> set ds. 0 \<le> d"
  shows "p50_ms (ComputePercentiles s st) \<le> p95_ms (ComputePercentiles s st)
    \<and> p95_ms (ComputePercentiles s st) \<le> p99_ms (ComputePercentiles s st)"
proof -
  have t: "rank_of (length ds) (50/100) \<le> rank_of (length ds) (95/100)"
      "rank_of (length ds) (95/100) \<le> rank_of (length ds) (99/100)"
      "rank_of (length ds) (95/100) \<le> length ds" "rank_of (length ds) (99/100) \<le> length ds"
    using literal_bounds target_mono [OF assms(4)] target_le [OF assms(4)] by (simp_all add: rnd_nonneg)
  show ?thesis
    using rank_bucket_mono [OF assms(5) t(1,3)] rank_bucket_mono [OF assms(5) t(2,4)]
    by (simp add: compute_percentiles [OF assms] bucket_mid_mono)
qed

text \<open>A timer loses at most one nanosecond. A block that takes \<open>n < 2 ^ 47\<close> nanoseconds (39 hours) is
  recorded without undefined behaviour; it adds one to the count of its stage, and \<open>n\<close> or \<open>n - 1\<close> to
  its total, and no other stage changes.\<close>

lemma timer_nanoseconds:
  assumes "0 \<le> n" "n < 2 ^ 47"
  shows "\<exists>s' k. ScopedTimer_destroy st start (start + n) s = Some s' \<and> k \<in> {n - 1, n}
    \<and> m_counts s' st = m_counts s st + 1 \<and> m_total_times s' st = m_total_times s st + word_of_int k
    \<and> (\<forall>st'. st' \<noteq> st \<longrightarrow> m_counts s' st' = m_counts s st' \<and> m_total_times s' st' = m_total_times s st'
         \<and> m_max_times s' st' = m_max_times s st' \<and> m_hist s' st' = m_hist s st')"
proof -
  obtain s' where s': "ScopedTimer_destroy st start (start + n) s = Some s'"
    using Record_elapsed [OF assms] by blast
  then show ?thesis
    using elapsed_ns [OF assms, of start]
    by (intro exI [of _ s'] exI [of _ "ns_of (elapsed_ms start (start + n))"])
      (auto simp: ScopedTimer_destroy_def Record_def cast_signed_def ns_of_def Let_def split: if_splits)
qed

text \<open>The lock-free maximum is exact. However the threads that record a stage interleave and however
  often their swaps fail, when all of them have finished the maximum is the largest of the old one
  and of the values they recorded; and from every state on the way a thread that gets to run
  finishes.\<close>

lemma max_lock_free:
  assumes "max_step\<^sup>*\<^sup>* (max_init m vs) s"
  shows "(set (recorders s) \<subseteq> {Finished} \<longrightarrow> shared_max s = foldr max vs m)
    \<and> (t < length vs \<longrightarrow> (\<exists>s'. max_step\<^sup>*\<^sup>* s s' \<and> recorders s' = (recorders s)[t := Finished]))"
  using max_inv_finished [OF max_inv_reachable [OF assms]] recorder_finishes [of t s]
    max_inv_length [OF max_inv_reachable [OF assms]] by simp

text \<open>A stage that was recorded once reports the middle of the first bucket for every percentile.\<close>

lemma single_record_percentiles:
  assumes "record_all [(st, d)] RuntimeStats_init = Some s" "0 \<le> d"
  shows "p50_ms (ComputePercentiles s st) = bucket_mid 0" "p95_ms (ComputePercentiles s st) = bucket_mid 0"
    "p99_ms (ComputePercentiles s st) = bucket_mid 0"
proof -
  have t: "rank_of 1 (50/100) = 0" "rank_of 1 (95/100) = 0" "rank_of 1 (99/100) = 0"
    by code_simp+
  have tr: "tracks s [(st, d)]"
    using tracks_record_all [OF tracks_init assms(1)] by simp
  have one: "[d] = durations st [(st, d)]"
    by (simp add: durations_def)
  note parts = compute_percentiles [OF tr one]
  show "p50_ms (ComputePercentiles s st) = bucket_mid 0" "p95_ms (ComputePercentiles s st) = bucket_mid 0"
      "p99_ms (ComputePercentiles s st) = bucket_mid 0"
    using parts t assms(2) by (simp_all add: rank_bucket_def)
qed

section \<open>Witnesses\<close>

definition sample_times :: "(Stage \<times> rat) list" where
  "sample_times = [(TOTAL, 2), (NET_IO, 5), (TOTAL, 1)]"

lemma sample_durations: "durations TOTAL sample_times = [2, 1]"
  by (simp add: durations_def sample_times_def)

lemma sample_recorded: "\<exists>s. record_all sample_times RuntimeStats_init = Some s"
proof -
  have "record_all sample_times RuntimeStats_init \<noteq> None" by code_simp
  then show ?thesis by blast
qed

theorem percentiles_accurate_witness:
  "\<exists>s. record_all sample_times RuntimeStats_init = Some s
     \<and> \<bar>p50_ms (ComputePercentiles s TOTAL) - 1\<bar> \<le> 501/10000"
proof -
  obtain s where s: "record_all sample_times RuntimeStats_init = Some s"
    using sample_recorded by blast
  let ?p = "p50_ms (ComputePercentiles s TOTAL)"
  have t: "1 = rank_of (length [2, 1 :: rat]) (50/100)" by code_simp
  have "sort [2, 1 :: rat] = [1, 2]" by code_simp
  moreover have "[2, 1 :: rat] \<noteq> []" "length [2, 1 :: rat] \<le> 2 ^ 40" "\<forall>d \<in> set [2, 1 :: rat]. 0 \<le> d"
    by simp_all
  note percentiles_accurate [OF s sample_durations [symmetric] refl this insertI1 t]
  ultimately have "\<bar>?p - 1\<bar> \<le> 501/10000" by simp
  with s show ?thesis by blast
qed

end
