(* ===== verification/Rpc_Channel.thy ===== *)
theory Rpc_Channel
  imports Codec_Factory Route_Manager Load_Balancer Controller Runtime_Stats
begin

text \<open>
  The client channel of \<^verbatim>\<open>src/rpc/channel.cc\<close>: reading a socket to a given length, connecting, service
  discovery and the nine-stage call. The operating system is a script of what it will deliver: the
  outcome of each connection attempt, of each \<^verbatim>\<open>send\<close>, and the results of \<^verbatim>\<open>recv\<close>; a script that
  runs out is a call that blocks. The ZooKeeper client is the parameter of \<open>Zookeeper_Client\<close>, the
  generated protobuf classes that of \<open>Protocol_Message\<close>.
\<close>

section \<open>recv\_exact\<close>

text \<open>One result of \<^verbatim>\<open>recv\<close> per element; a segment longer than asked for is handed out in parts, and
  an empty segment is the end of the stream.\<close>

datatype recv_event = Data bytes | Eintr | Recv_error

datatype recv_result = Received bytes | Closed | Recv_failed | Would_block

primrec recv_exact :: "recv_event list \<Rightarrow> nat \<Rightarrow> recv_result \<times> recv_event list" where
  "recv_exact [] n = (if n = 0 then (Received [], []) else (Would_block, []))"
| "recv_exact (ev # evs) n =
     (if n = 0 then (Received [], ev # evs)
      else case ev of
             Eintr \<Rightarrow> recv_exact evs n
           | Recv_error \<Rightarrow> (Recv_failed, evs)
           | Data d \<Rightarrow>
               (if d = [] then (Closed, evs)
                else if n < length d then (Received (take n d), Data (drop n d) # evs)
                else case recv_exact evs (n - length d) of
                       (Received r, evs') \<Rightarrow> (Received (d @ r), evs')
                     | (x, evs') \<Rightarrow> (x, evs')))"

section \<open>The channel and its world\<close>

record RpcChannel =
  m_clientfd :: int
  rc_service_name :: bytes
  m_ip :: bytes
  m_port :: "16 word"
  rc_method_name :: bytes
  m_idx :: int
  useXrpcProtocol :: bool
  clientCodec :: ClientCodec

text \<open>What a connection attempt meets: no socket, a refused connection on a socket, or a connection
  with what it will deliver.\<close>

datatype connect_outcome = Socket_error | Connect_error int | Connected int "recv_event list"

record 'z world =
  app_config :: config_map
  route_table :: RouteTable
  zk_state :: 'z
  zk_sessions :: "zoo_event list list"
  draws :: "nat list"
  connects :: "connect_outcome list"
  sends :: "nat option list"
  incoming :: "recv_event list"
  sent :: bytes
  dialled :: "(bytes \<times> 16 word) list"
  opened_fds :: "int list"
  closed_fds :: "int list"
  recorded :: "Stage list"

record 'z call_state =
  chan :: RpcChannel
  ctl :: Controller
  wrld :: "'z world"

text \<open>
  A part of a call goes on with a value, leaves the function early (\<open>Return\<close>), or ends the run: it
  waits forever, the process exits, or an exception is thrown. A \<^verbatim>\<open>ScopedTimer\<close> reports its stage
  whenever its block is left.
\<close>

datatype abort = Blocked | Exited | Threw

datatype ('a, 'z) res = Ok 'a "'z call_state" | Return "'z call_state" | Abort abort

fun and_then :: "('a, 'z) res \<Rightarrow> ('a \<Rightarrow> 'z call_state \<Rightarrow> ('b, 'z) res) \<Rightarrow> ('b, 'z) res" where
  "and_then (Ok a s) f = f a s"
| "and_then (Return s) f = Return s"
| "and_then (Abort e) f = Abort e"

definition record_stage :: "Stage \<Rightarrow> 'z call_state \<Rightarrow> 'z call_state" where
  "record_stage st s = s\<lparr>wrld := (wrld s)\<lparr>recorded := recorded (wrld s) @ [st]\<rparr>\<rparr>"

fun scoped :: "Stage \<Rightarrow> ('a, 'z) res \<Rightarrow> ('a, 'z) res" where
  "scoped st (Ok a s) = Ok a (record_stage st s)"
| "scoped st (Return s) = Return (record_stage st s)"
| "scoped st (Abort e) = Abort e"

text \<open>\<^verbatim>\<open>controller->SetFailed(reason); return;\<close>, without and with \<^verbatim>\<open>close(m_clientfd); m_clientfd = -1\<close>.\<close>

definition with_failure :: "bytes \<Rightarrow> 'z call_state \<Rightarrow> 'z call_state" where
  "with_failure reason s = s\<lparr>ctl := SetFailed reason (ctl s)\<rparr>"

definition with_close :: "'z call_state \<Rightarrow> 'z call_state" where
  "with_close s = s\<lparr>chan := (chan s)\<lparr>m_clientfd := -1\<rparr>,
     wrld := (wrld s)\<lparr>closed_fds := closed_fds (wrld s) @ [m_clientfd (chan s)]\<rparr>\<rparr>"

definition fail :: "bytes \<Rightarrow> 'z call_state \<Rightarrow> ('a, 'z) res" where
  "fail reason s = Return (with_failure reason s)"

definition close_fail :: "bytes \<Rightarrow> 'z call_state \<Rightarrow> ('a, 'z) res" where
  "close_fail reason s = fail reason (with_close s)"

section \<open>Connecting\<close>

definition newConnect :: "bytes \<Rightarrow> 16 word \<Rightarrow> 'z call_state \<Rightarrow> (bool, 'z) res" where
  "newConnect ip port s =
     (let w = wrld s
      in case connects w of
           [] \<Rightarrow> Abort Blocked
         | Socket_error # cs \<Rightarrow> Ok False (s\<lparr>wrld := w\<lparr>connects := cs\<rparr>\<rparr>)
         | Connect_error fd # cs \<Rightarrow>
             Ok False (s\<lparr>wrld := w\<lparr>connects := cs, dialled := dialled w @ [(c_str ip, port)],
               opened_fds := opened_fds w @ [fd], closed_fds := closed_fds w @ [fd]\<rparr>\<rparr>)
         | Connected fd evs # cs \<Rightarrow>
             Ok True (s\<lparr>chan := (chan s)\<lparr>m_clientfd := fd\<rparr>,
               wrld := w\<lparr>connects := cs, dialled := dialled w @ [(c_str ip, port)],
                 opened_fds := opened_fds w @ [fd], incoming := evs\<rparr>\<rparr>))"

text \<open>
  \<^verbatim>\<open>QueryServiceHost\<close> looks into the route cache, fills it from ZooKeeper when the route is empty, and
  lets a balancer made for this query choose; the result is the address and the position of its
  colon, written to \<^verbatim>\<open>idx\<close>.
\<close>

definition select_host :: "'z world \<Rightarrow> bytes list \<Rightarrow> bytes \<times> 'z world" where
  "select_host w nodes =
     (if Load (app_config w) (lit ''loadbalancer'') = lit ''roundrobin''
      then (fst (RoundRobin_Select RoundRobinLoadBalancer_init nodes), w)
      else (fst (Random_Select (if draws w = [] then 0 else hd (draws w)) nodes),
            if nodes = [] then w else w\<lparr>draws := tl (draws w)\<rparr>))"

definition QueryServiceHost :: "'z zoo \<Rightarrow> bytes \<Rightarrow> bytes \<Rightarrow> int \<Rightarrow> 'z call_state \<Rightarrow> bytes \<times> int \<times> 'z call_state" where
  "QueryServiceHost zk service method idx s =
     (let method_path = lit ''/'' @ service @ lit ''/'' @ method;
          w = wrld s;
          w1 = (if GetRouteNodes (route_table w) method_path = []
                then case UpdateRouteTable zk method_path True True (route_table w, zk_state w) of
                       (table, z) \<Rightarrow> w\<lparr>route_table := table, zk_state := z\<rparr>
                else w);
          (host, w2) = select_host w1 (GetRouteNodes (route_table w1) method_path);
          s' = record_stage LOAD_BALANCE (s\<lparr>wrld := w2\<rparr>)
      in if host = [] then (lit '' '', idx, s')
         else case str_find (ch CHR '':'') host of
                None \<Rightarrow> (lit '' '', -1, s')
              | Some i \<Rightarrow> (host, int i, s'))"

text \<open>\<^verbatim>\<open>substr(pos, n)\<close>, which throws when the position is past the end; a negative \<^verbatim>\<open>int\<close> converts to a
  \<^verbatim>\<open>size_t\<close> beyond every length.\<close>

definition substr :: "bytes \<Rightarrow> int \<Rightarrow> int \<Rightarrow> bytes option" where
  "substr s pos n =
     (if pos < 0 \<or> int (length s) < pos then None
      else Some (if n < 0 then drop (nat pos) s else take (nat n) (drop (nat pos) s)))"

definition close_zk :: "'z zoo \<Rightarrow> ZookeeperClient \<Rightarrow> 'z call_state \<Rightarrow> 'z call_state" where
  "close_zk zk client s =
     s\<lparr>wrld := (wrld s)\<lparr>zk_state := ZookeeperClient_destroy zk client (zk_state (wrld s))\<rparr>\<rparr>"

definition zk_start :: "'z zoo \<Rightarrow> 'z call_state \<Rightarrow> (ZookeeperClient, 'z) res" where
  "zk_start zk s =
     (let w = wrld s; evs = (if zk_sessions w = [] then [] else hd (zk_sessions w))
      in case Start zk (app_config w) evs ZookeeperClient_init of
           Start_exit \<Rightarrow> Abort Exited
         | Start_waiting _ \<Rightarrow> Abort Blocked
         | Started client \<Rightarrow> Ok client (s\<lparr>wrld := w\<lparr>zk_sessions := tl (zk_sessions w)\<rparr>\<rparr>))"

definition zk_connect :: "'z zoo \<Rightarrow> 'z call_state \<Rightarrow> (unit, 'z) res" where
  "zk_connect zk s0 =
     and_then (scoped ZK_QUERY (zk_start zk s0)) (\<lambda>zkCli s1.
       case QueryServiceHost zk (rc_service_name (chan s1)) (rc_method_name (chan s1)) (m_idx (chan s1)) s1 of
         (host_data, idx, s1') \<Rightarrow>
           let s2 = record_stage ZK_QUERY (s1'\<lparr>chan := (chan s1')\<lparr>m_idx := idx\<rparr>\<rparr>)
           in case (substr host_data 0 idx, substr host_data (idx + 1) (int (length host_data) - idx)) of
                (Some ip, Some port) \<Rightarrow>
                  let s3 = s2\<lparr>chan := (chan s2)\<lparr>m_ip := ip, m_port := ucast (atoi (c_str port))\<rparr>\<rparr>
                  in and_then (scoped CONNECT (newConnect (m_ip (chan s3)) (m_port (chan s3)) s3))
                       (\<lambda>connected s4.
                          if \<not> connected then fail (lit ''connect server error'') (close_zk zk zkCli s4)
                          else Ok () (close_zk zk zkCli s4))
              | _ \<Rightarrow> Abort Threw)"

definition ensure_connected :: "'z zoo \<Rightarrow> bytes \<times> bytes \<Rightarrow> 'z call_state \<Rightarrow> (unit, 'z) res" where
  "ensure_connected zk mth s0 =
     (let s = (if rc_service_name (chan s0) = []
               then s0\<lparr>chan := (chan s0)\<lparr>rc_service_name := fst mth, rc_method_name := snd mth\<rparr>\<rparr> else s0)
      in if m_clientfd (chan s) = -1
         then if m_ip (chan s) \<noteq> []
              then scoped CONNECT (and_then (newConnect (m_ip (chan s)) (m_port (chan s)) s)
                     (\<lambda>ok s'. if \<not> ok then fail (lit ''direct connect error'') s' else Ok () s'))
              else zk_connect zk s
         else Ok () s)"

section \<open>The call\<close>

definition receive_bytes :: "nat \<Rightarrow> bytes \<Rightarrow> 'z call_state \<Rightarrow> (bytes, 'z) res" where
  "receive_bytes n err s =
     (case recv_exact (incoming (wrld s)) n of (r, evs) \<Rightarrow>
        let s' = s\<lparr>wrld := (wrld s)\<lparr>incoming := evs\<rparr>\<rparr>
        in case r of
             Received bs \<Rightarrow> Ok bs s'
           | Would_block \<Rightarrow> Abort Blocked
           | _ \<Rightarrow> close_fail err s')"

definition recv_xrpc_frame :: "'z call_state \<Rightarrow> (bytes, 'z) res" where
  "recv_xrpc_frame s =
     and_then (receive_bytes kFixedHeaderSize (lit ''recv response header error'') s) (\<lambda>hdr s1.
       let fh = NToH (fh_load hdr)
       in if \<not> IsValid fh \<or> unat (fh_total_size fh) > kMaxFrameSize \<or> unat (fh_total_size fh) < kFixedHeaderSize
          then close_fail (lit ''invalid response frame header'') s1
          else let remaining = unat (fh_total_size fh) - kFixedHeaderSize
               in and_then (if remaining > 0 then receive_bytes remaining (lit ''recv response body error'') s1
                            else Ok [] s1)
                    (\<lambda>body s2. Ok (fh_mem fh @ body) s2))"

definition recv_legacy_frame :: "'z call_state \<Rightarrow> (bytes, 'z) res" where
  "recv_legacy_frame s =
     and_then (receive_bytes 4 (lit ''recv response length error'') s) (\<lambda>total_len_be s1.
       let total_len = ntohl (load32 total_len_be)
       in if unat total_len > kMaxFrameSize then close_fail (lit ''response too large'') s1
          else and_then (if unat total_len > 0
                         then receive_bytes (unat total_len) (lit ''recv response body error'') s1
                         else Ok [] s1)
                 (\<lambda>body s2. Ok (total_len_be @ body) s2))"

definition request_message :: "RpcChannel \<Rightarrow> bytes \<Rightarrow> ProtocolMessage" where
  "request_message c args_str =
     ProtocolMessage_init\<lparr>pm_version := (if useXrpcProtocol c then kXRpc else kLegacy),
       pm_service_name := rc_service_name c, pm_method_name := rc_method_name c, pm_body := args_str,
       pm_content_type := kProtobuf, pm_message_type := kRequest\<rparr>"

definition call_context :: "RpcChannel \<Rightarrow> ClientContext" where
  "call_context c = ClientContext_init\<lparr>cx_service_name := rc_service_name c, cx_method_name := rc_method_name c\<rparr>"

definition encode_request :: "bytes \<Rightarrow> 'z call_state \<Rightarrow> (bytes, 'z) res" where
  "encode_request args_str s =
     (case ClientEncode (clientCodec (chan s)) (call_context (chan s)) (request_message (chan s) args_str) empty_buffer of
        (enc_ret, _, encoded) \<Rightarrow>
          if enc_ret \<noteq> kCodecOk then fail (lit ''encode request error'') s else Ok (ToString encoded) s)"

definition net_io :: "bytes \<Rightarrow> 'z call_state \<Rightarrow> (bytes, 'z) res" where
  "net_io wire_data s =
     (case sends (wrld s) of
        [] \<Rightarrow> Abort Blocked
      | None # ss \<Rightarrow> close_fail (lit ''send error'') (s\<lparr>wrld := (wrld s)\<lparr>sends := ss\<rparr>\<rparr>)
      | Some n # ss \<Rightarrow>
          let s' = s\<lparr>wrld := (wrld s)\<lparr>sends := ss, sent := sent (wrld s) @ take n wire_data\<rparr>\<rparr>
          in if useXrpcProtocol (chan s') then recv_xrpc_frame s' else recv_legacy_frame s')"

definition decode_response :: "bytes \<Rightarrow> 'z call_state \<Rightarrow> (bytes, 'z) res" where
  "decode_response frame_buf s =
     (case ClientDecode (clientCodec (chan s)) (NoncontiguousBuffer_from frame_buf) ProtocolMessage_init of
        (dec_ret, _, resp_msg) \<Rightarrow>
          if dec_ret \<noteq> kCodecOk
          then close_fail (lit ''decode response error, code='' @ dec_int dec_ret) s
          else Ok (pm_body resp_msg) s)"

definition call_body :: "'z zoo \<Rightarrow> bytes \<times> bytes \<Rightarrow> bytes option \<Rightarrow> (bytes \<Rightarrow> 'resp option)
    \<Rightarrow> 'z call_state \<Rightarrow> ('resp, 'z) res" where
  "call_body zk mth request parse s0 =
     and_then (ensure_connected zk mth s0) (\<lambda>_ s1.
     and_then (scoped SERIALIZE_REQ
         (case request of None \<Rightarrow> fail (lit ''serialize request fail'') s1 | Some a \<Rightarrow> Ok a s1)) (\<lambda>args_str s2.
     and_then (scoped ENCODE_REQ (encode_request args_str s2)) (\<lambda>wire_data s3.
     and_then (scoped NET_IO (net_io wire_data s3)) (\<lambda>frame_buf s4.
     and_then (scoped DECODE_RES (decode_response frame_buf s4)) (\<lambda>body s5.
     scoped DESERIALIZE_RES
         (case parse body of None \<Rightarrow> close_fail (lit ''parse response error'') s5 | Some r \<Rightarrow> Ok r s5))))))"

definition CallMethod :: "'z zoo \<Rightarrow> bytes \<times> bytes \<Rightarrow> bytes option \<Rightarrow> (bytes \<Rightarrow> 'resp option)
    \<Rightarrow> 'z call_state \<Rightarrow> ('resp, 'z) res" where
  "CallMethod zk mth request parse s = scoped TOTAL (call_body zk mth request parse s)"

section \<open>Construction\<close>

text \<open>\<^verbatim>\<open>m_port\<close> is not initialised by the first constructor: its value is an argument.\<close>

definition new_channel :: "protobuf \<Rightarrow> bytes \<Rightarrow> 16 word \<Rightarrow> bool \<Rightarrow> RpcChannel" where
  "new_channel pb ip port useXrpc =
     \<lparr>m_clientfd = -1, rc_service_name = [], m_ip = ip, m_port = port, rc_method_name = [], m_idx = 0,
      useXrpcProtocol = useXrpc, clientCodec = CreateClientCodec pb useXrpc\<rparr>"

primrec retry_connect :: "nat \<Rightarrow> bool \<Rightarrow> 'z call_state \<Rightarrow> (bool, 'z) res" where
  "retry_connect 0 rt s = Ok rt s"
| "retry_connect (Suc k) rt s =
     (if rt then Ok rt s
      else and_then (newConnect (m_ip (chan s)) (m_port (chan s)) s) (retry_connect k))"

definition RpcChannel_ctor :: "protobuf \<Rightarrow> 16 word \<Rightarrow> bool \<Rightarrow> bool \<Rightarrow> 'z world \<Rightarrow> (bool, 'z) res" where
  "RpcChannel_ctor pb garbage connectNow useXrpc w =
     (let s = \<lparr>chan = new_channel pb [] garbage useXrpc, ctl = Controller_init, wrld = w\<rparr>
      in if \<not> connectNow then Ok False s
         else and_then (newConnect (m_ip (chan s)) (m_port (chan s)) s) (retry_connect 3))"

definition RpcChannel_direct :: "protobuf \<Rightarrow> bytes \<Rightarrow> 16 word \<Rightarrow> bool \<Rightarrow> 'z world \<Rightarrow> (bool, 'z) res" where
  "RpcChannel_direct pb ip port useXrpc w =
     newConnect ip port \<lparr>chan = new_channel pb ip port useXrpc, ctl = Controller_init, wrld = w\<rparr>"

definition RpcChannel_destroy :: "'z call_state \<Rightarrow> 'z call_state" where
  "RpcChannel_destroy s =
     (if m_clientfd (chan s) \<ge> 0
      then s\<lparr>wrld := (wrld s)\<lparr>closed_fds := closed_fds (wrld s) @ [m_clientfd (chan s)]\<rparr>\<rparr> else s)"

section \<open>Reading a stream\<close>

text \<open>The bytes a script delivers, and the scripts that deliver all of them: no error, no end.\<close>

definition stream_bytes :: "recv_event list \<Rightarrow> bytes" where
  "stream_bytes evs = concat (map (\<lambda>ev. case ev of Data d \<Rightarrow> d | _ \<Rightarrow> []) evs)"

definition live_stream :: "recv_event list \<Rightarrow> bool" where
  "live_stream evs \<longleftrightarrow> (\<forall>ev \<in> set evs. ev \<noteq> Data [] \<and> ev \<noteq> Recv_error)"

lemma stream_simps [simp]:
  "stream_bytes [] = []" "stream_bytes (Data d # evs) = d @ stream_bytes evs"
  "stream_bytes (Eintr # evs) = stream_bytes evs" "live_stream []"
  "live_stream (Data d # evs) \<longleftrightarrow> d \<noteq> [] \<and> live_stream evs"
  "live_stream (Eintr # evs) \<longleftrightarrow> live_stream evs" "\<not> live_stream (Recv_error # evs)"
  by (auto simp: stream_bytes_def live_stream_def)

lemma recv_exact_zero [simp]: "recv_exact evs 0 = (Received [], evs)"
  by (cases evs) simp_all

lemma recv_exact_live:
  assumes "live_stream evs" "n \<le> length (stream_bytes evs)"
  shows "\<exists>evs'. recv_exact evs n = (Received (take n (stream_bytes evs)), evs')
    \<and> live_stream evs' \<and> stream_bytes evs' = drop n (stream_bytes evs)"
  using assms
proof (induction evs arbitrary: n)
  case Nil
  then show ?case by simp
next
  case (Cons ev evs)
  show ?case
  proof (cases ev)
    case (Data d)
    show ?thesis
    proof (cases "n < length d")
      case True
      with Cons.prems Data show ?thesis by (cases "n = 0") auto
    next
      case False
      with Cons.prems Data have "0 < n" by (cases d) auto
      moreover have rest: "live_stream evs" "n - length d \<le> length (stream_bytes evs)"
        using Cons.prems Data by auto
      moreover obtain evs' where
        "recv_exact evs (n - length d) = (Received (take (n - length d) (stream_bytes evs)), evs')"
        "live_stream evs'" "stream_bytes evs' = drop (n - length d) (stream_bytes evs)"
        using Cons.IH [OF rest] by blast
      ultimately show ?thesis
        using False Cons.prems Data by simp
    qed
  qed (use Cons in auto)
qed

lemma recv_exact_length: "recv_exact evs n = (Received bs, evs') \<Longrightarrow> length bs = n"
proof (induction evs arbitrary: n bs evs')
  case Nil
  then show ?case by (auto split: if_splits)
next
  case (Cons ev evs)
  then show ?case
    by (cases ev) (auto split: if_splits prod.splits recv_result.splits)
qed

section \<open>Rules for calls\<close>

text \<open>
  \<open>leads Q P r\<close>: if the part \<open>r\<close> of a call goes on, then in a state with \<open>Q\<close>, and if it leaves the
  function, then in a state with \<open>P\<close>. The rules below follow the structure of a call.
\<close>

definition leads :: "('a \<Rightarrow> 'z call_state \<Rightarrow> bool) \<Rightarrow> ('z call_state \<Rightarrow> bool) \<Rightarrow> ('a, 'z) res \<Rightarrow> bool" where
  "leads Q P r \<longleftrightarrow> (case r of Ok a s \<Rightarrow> Q a s | Return s \<Rightarrow> P s | Abort _ \<Rightarrow> True)"

named_theorems call_rules "rules for the parts of a call"

lemma leads_simps [simp]:
  "leads Q P (Ok a s) = Q a s" "leads Q P (Return s) = P s" "leads Q P (Abort e)"
  by (simp_all add: leads_def)

lemma leads_and_then [call_rules]:
  "leads Q' P r \<Longrightarrow> (\<And>a s. Q' a s \<Longrightarrow> leads Q P (f a s)) \<Longrightarrow> leads Q P (and_then r f)"
  by (cases r) auto

lemma leads_scoped [call_rules]:
  "leads (\<lambda>a s. Q a (record_stage st s)) (\<lambda>s. P (record_stage st s)) r \<Longrightarrow> leads Q P (scoped st r)"
  by (cases r) auto

lemma leads_mono: "leads Q P r \<Longrightarrow> (\<And>a s. Q a s \<Longrightarrow> Q' a s) \<Longrightarrow> (\<And>s. P s \<Longrightarrow> P' s) \<Longrightarrow> leads Q' P' r"
  by (cases r) auto

lemma leadsD:
  "leads Q P r \<Longrightarrow> r = Ok a s \<Longrightarrow> Q a s" "leads Q P r \<Longrightarrow> r = Return s \<Longrightarrow> P s"
  by simp_all

text \<open>
  What holds during a call. \<open>S\<close> is a condition on the state the call starts in, \<open>C\<close> holds while it
  is connected, and \<open>R\<close> in every state in which it leaves early. The locale asks what each
  elementary step does to them and gives the result for the whole call.
\<close>

locale call_logic =
  fixes zk :: "'z zoo"
    and mth :: "bytes \<times> bytes"
    and S :: "'z call_state \<Rightarrow> bool"
    and C :: "'z call_state \<Rightarrow> bool"
    and R :: "'z call_state \<Rightarrow> bool"
  assumes C_stage: "st \<noteq> TOTAL \<Longrightarrow> C s \<Longrightarrow> C (record_stage st s)"
    and R_stage: "st \<noteq> TOTAL \<Longrightarrow> R s \<Longrightarrow> R (record_stage st s)"
    and C_fail: "C s \<Longrightarrow> R (with_failure reason s)"
    and C_close: "C s \<Longrightarrow> R (with_failure reason (with_close s))"
    and C_send: "C s \<Longrightarrow> C (s\<lparr>wrld := (wrld s)\<lparr>sends := ss, sent := b\<rparr>\<rparr>)"
    and C_sends: "C s \<Longrightarrow> C (s\<lparr>wrld := (wrld s)\<lparr>sends := ss\<rparr>\<rparr>)"
    and C_recv: "C s \<Longrightarrow> C (s\<lparr>wrld := (wrld s)\<lparr>incoming := evs\<rparr>\<rparr>)"
    and connects_C: "S s \<Longrightarrow> leads (\<lambda>_. C) R (ensure_connected zk mth s)"
begin

lemma fail_R: "C s \<Longrightarrow> leads Q R (fail reason s)"
  by (simp add: fail_def C_fail)

lemma close_fail_R: "C s \<Longrightarrow> leads Q R (close_fail reason s)"
  by (simp add: close_fail_def fail_def C_close)

lemma scoped_C: "st \<noteq> TOTAL \<Longrightarrow> leads (\<lambda>_. C) R r \<Longrightarrow> leads (\<lambda>_. C) R (scoped st r)"
  by (cases r) (auto intro: R_stage C_stage)

lemma receive_bytes_C: "C s \<Longrightarrow> leads (\<lambda>_. C) R (receive_bytes n err s)"
  by (auto simp: receive_bytes_def Let_def C_recv intro!: close_fail_R split: prod.splits recv_result.splits)

lemma recv_xrpc_frame_C: "C s \<Longrightarrow> leads (\<lambda>_. C) R (recv_xrpc_frame s)"
  by (auto simp: recv_xrpc_frame_def Let_def intro!: leads_and_then [OF receive_bytes_C] close_fail_R
      leads_and_then [where Q' = "\<lambda>_. C"] receive_bytes_C)

lemma recv_legacy_frame_C: "C s \<Longrightarrow> leads (\<lambda>_. C) R (recv_legacy_frame s)"
  by (auto simp: recv_legacy_frame_def Let_def intro!: leads_and_then [OF receive_bytes_C] close_fail_R
      leads_and_then [where Q' = "\<lambda>_. C"] receive_bytes_C)

lemma net_io_C: "C s \<Longrightarrow> leads (\<lambda>_. C) R (net_io wire s)"
  by (auto simp: net_io_def Let_def C_send C_sends intro!: close_fail_R recv_xrpc_frame_C recv_legacy_frame_C
      split: list.splits option.splits)

lemma encode_request_C: "C s \<Longrightarrow> leads (\<lambda>_. C) R (encode_request args s)"
  by (auto simp: encode_request_def intro!: fail_R split: prod.splits)

lemma decode_response_C: "C s \<Longrightarrow> leads (\<lambda>_. C) R (decode_response buf s)"
  by (auto simp: decode_response_def intro!: close_fail_R split: prod.splits)

lemma call_body_C: "S s \<Longrightarrow> leads (\<lambda>_. C) R (call_body zk mth request parse s)"
  unfolding call_body_def
  by (intro leads_and_then [where Q' = "\<lambda>_. C"] scoped_C connects_C)
    (auto intro!: fail_R close_fail_R encode_request_C net_io_C decode_response_C split: option.splits)

text \<open>How the whole call ends.\<close>

lemma call_ok:
  "S s \<Longrightarrow> CallMethod zk mth request parse s = Ok a s' \<Longrightarrow> \<exists>t. s' = record_stage TOTAL t \<and> C t"
  using call_body_C [of s request parse] by (cases "call_body zk mth request parse s") (auto simp: CallMethod_def)

lemma call_return:
  "S s \<Longrightarrow> CallMethod zk mth request parse s = Return s' \<Longrightarrow> \<exists>t. s' = record_stage TOTAL t \<and> R t"
  using call_body_C [of s request parse] by (cases "call_body zk mth request parse s") (auto simp: CallMethod_def)

end

section \<open>Service discovery\<close>

text \<open>What a lookup changes: the cache, ZooKeeper, the draws and the address of the channel.\<close>

definition resolved :: "'z call_state \<Rightarrow> RouteTable \<Rightarrow> 'z \<Rightarrow> zoo_event list list \<Rightarrow> nat list \<Rightarrow> int \<Rightarrow> bytes
    \<Rightarrow> 16 word \<Rightarrow> 'z call_state" where
  "resolved s t z ss d idx ip port =
     s\<lparr>chan := (chan s)\<lparr>m_idx := idx, m_ip := ip, m_port := port\<rparr>,
       wrld := (wrld s)\<lparr>route_table := t, zk_state := z, zk_sessions := ss, draws := d,
         recorded := recorded (wrld s) @ [ZK_QUERY, LOAD_BALANCE, ZK_QUERY]\<rparr>\<rparr>"

lemma str_find_lessD: "str_find c s = Some i \<Longrightarrow> i < length s \<and> s ! i = c"
  by (induction s arbitrary: i) (auto split: if_splits)

lemma select_host_draws: "\<exists>d. snd (select_host w ns) = w\<lparr>draws := d\<rparr>"
  by (cases w) (auto simp: select_host_def)

text \<open>The world once the cache has been filled.\<close>

definition filled_world :: "'z zoo \<Rightarrow> bytes \<Rightarrow> 'z world \<Rightarrow> 'z world" where
  "filled_world zk path w =
     (if GetRouteNodes (route_table w) path = []
      then case UpdateRouteTable zk path True True (route_table w, zk_state w) of
             (table, z) \<Rightarrow> w\<lparr>route_table := table, zk_state := z\<rparr>
      else w)"

lemma filled_world_frame: "\<exists>t z. filled_world zk path w = w\<lparr>route_table := t, zk_state := z\<rparr>"
  by (cases w) (auto simp: filled_world_def split: prod.splits)

lemma QueryServiceHost_filled:
  "QueryServiceHost zk sv mt idx s =
     (let path = lit ''/'' @ sv @ lit ''/'' @ mt;
          w = filled_world zk path (wrld s);
          (host, w') = select_host w (GetRouteNodes (route_table w) path);
          s' = record_stage LOAD_BALANCE (s\<lparr>wrld := w'\<rparr>)
      in if host = [] then (lit '' '', idx, s')
         else case str_find (ch CHR '':'') host of
                None \<Rightarrow> (lit '' '', -1, s') | Some i \<Rightarrow> (host, int i, s'))"
  by (simp only: QueryServiceHost_def filled_world_def Let_def)

lemma query_frame:
  assumes "QueryServiceHost zk sv mt idx s = (host, idx', s')"
  shows "\<exists>t z d. s' = record_stage LOAD_BALANCE
      (s\<lparr>wrld := (wrld s)\<lparr>route_table := t, zk_state := z, draws := d\<rparr>\<rparr>)"
proof -
  let ?path = "lit ''/'' @ sv @ lit ''/'' @ mt"
  let ?w = "filled_world zk ?path (wrld s)"
  have "s' = record_stage LOAD_BALANCE (s\<lparr>wrld := snd (select_host ?w (GetRouteNodes (route_table ?w) ?path))\<rparr>)"
    using assms by (auto simp: QueryServiceHost_filled Let_def split: prod.splits if_splits option.splits)
  with select_host_draws [of ?w "GetRouteNodes (route_table ?w) ?path"] filled_world_frame [of zk ?path "wrld s"]
  show ?thesis by fastforce
qed

lemma query_index:
  assumes "QueryServiceHost zk sv mt idx s = (host, idx', s')"
  shows "host = lit '' '' \<and> (idx' = idx \<or> idx' = -1) \<or> (\<exists>i. idx' = int i \<and> i < length host)"
  using assms str_find_lessD
  by (fastforce simp: QueryServiceHost_def Let_def split: prod.splits if_splits option.splits)

text \<open>
  The two \<^verbatim>\<open>substr\<close> calls do not throw when the channel has not been resolved before, and an empty
  address leaves the index at 0.
\<close>

lemma query_address:
  assumes "QueryServiceHost zk sv mt 0 s = (host, idx', s')"
  shows "\<exists>ip port. substr host 0 idx' = Some ip \<and> substr host (idx' + 1) (int (length host) - idx') = Some port
    \<and> (ip = [] \<longrightarrow> idx' = 0)"
  using query_index [OF assms] by (auto simp: substr_def)

lemma zk_connect_resolved:
  "(\<exists>e. zk_connect zk s = Abort e \<and> (m_idx (chan s) = 0 \<longrightarrow> e \<noteq> Threw)) \<or>
   (\<exists>t z ss d idx ip port client. (m_idx (chan s) = 0 \<longrightarrow> ip = [] \<longrightarrow> idx = 0)
     \<and> zk_connect zk s = and_then (scoped CONNECT (newConnect ip port (resolved s t z ss d idx ip port)))
         (\<lambda>connected s4. if \<not> connected then fail (lit ''connect server error'') (close_zk zk client s4)
                         else Ok () (close_zk zk client s4)))"
proof (cases "zk_start zk s")
  case (Ok client s1)
  obtain ss where s1: "s1 = s\<lparr>wrld := (wrld s)\<lparr>zk_sessions := ss\<rparr>\<rparr>"
    using Ok by (auto simp: zk_start_def Let_def split: start_result.splits)
  let ?s1 = "record_stage ZK_QUERY s1"
  obtain host idx s1' where q: "QueryServiceHost zk (rc_service_name (chan ?s1)) (rc_method_name (chan ?s1))
      (m_idx (chan ?s1)) ?s1 = (host, idx, s1')"
    by (cases "QueryServiceHost zk (rc_service_name (chan ?s1)) (rc_method_name (chan ?s1))
      (m_idx (chan ?s1)) ?s1") auto
  obtain t z d where s1': "s1' = record_stage LOAD_BALANCE
      (?s1\<lparr>wrld := (wrld ?s1)\<lparr>route_table := t, zk_state := z, draws := d\<rparr>\<rparr>)"
    using query_frame [OF q] by blast
  have chan1: "chan ?s1 = chan s"
    by (simp add: s1 record_stage_def)
  have state: "(record_stage ZK_QUERY (s1'\<lparr>chan := (chan s1')\<lparr>m_idx := idx\<rparr>\<rparr>))
      \<lparr>chan := (chan (record_stage ZK_QUERY (s1'\<lparr>chan := (chan s1')\<lparr>m_idx := idx\<rparr>\<rparr>)))\<lparr>m_ip := ip, m_port := port\<rparr>\<rparr>
      = resolved s t z ss d idx ip port" for ip port
    by (simp add: resolved_def s1' s1 record_stage_def)
  show ?thesis
  proof (cases "substr host 0 idx = None \<or> substr host (idx + 1) (int (length host) - idx) = None")
    case True
    then have "zk_connect zk s = Abort Threw"
      using Ok q by (auto simp: zk_connect_def Let_def split: option.splits)
    moreover have "m_idx (chan s) \<noteq> 0"
      using query_address [of zk _ _ ?s1 host idx s1'] q True chan1 by auto
    ultimately show ?thesis by simp
  next
    case False
    then obtain ip port where sub: "substr host 0 idx = Some ip"
      "substr host (idx + 1) (int (length host) - idx) = Some port" by auto
    have "m_idx (chan s) = 0 \<longrightarrow> ip = [] \<longrightarrow> idx = 0"
      using query_address [of zk _ _ ?s1 host idx s1'] q sub chan1 by auto
    moreover have "zk_connect zk s = and_then (scoped CONNECT (newConnect ip (ucast (atoi (c_str port)))
          (resolved s t z ss d idx ip (ucast (atoi (c_str port))))))
        (\<lambda>connected s4. if \<not> connected then fail (lit ''connect server error'') (close_zk zk client s4)
                         else Ok () (close_zk zk client s4))"
      using Ok q sub state by (simp add: zk_connect_def Let_def resolved_def del: lit_Cons)
    ultimately show ?thesis by blast
  qed
qed (auto simp: zk_connect_def zk_start_def Let_def split: start_result.splits)

section \<open>Connecting, step by step\<close>

text \<open>
  The contract of \<open>call_logic\<close> follows from what the elementary steps of connecting do; \<open>D\<close> holds
  while the channel is not connected.
\<close>

locale channel_logic =
  fixes zk :: "'z zoo"
    and S :: "'z call_state \<Rightarrow> bool"
    and D :: "'z call_state \<Rightarrow> bool"
    and C :: "'z call_state \<Rightarrow> bool"
    and R :: "'z call_state \<Rightarrow> bool"
  assumes S_names: "S s \<Longrightarrow> S (s\<lparr>chan := (chan s)\<lparr>rc_service_name := a, rc_method_name := b\<rparr>\<rparr>)"
    and S_connected: "S s \<Longrightarrow> m_clientfd (chan s) \<noteq> -1 \<Longrightarrow> C s"
    and S_direct: "S s \<Longrightarrow> m_clientfd (chan s) = -1 \<Longrightarrow> m_ip (chan s) \<noteq> [] \<Longrightarrow> D s"
    and S_lookup: "S s \<Longrightarrow> m_clientfd (chan s) = -1 \<Longrightarrow> m_ip (chan s) = [] \<Longrightarrow>
      (m_idx (chan s) = 0 \<Longrightarrow> ip = [] \<Longrightarrow> idx = 0) \<Longrightarrow> D (resolved s t z sess d idx ip port)"
    and D_connect: "D s \<Longrightarrow> leads (\<lambda>ok. if ok then C else D) R (newConnect ip port s)"
    and D_stage: "st \<noteq> TOTAL \<Longrightarrow> D s \<Longrightarrow> D (record_stage st s)"
    and D_zk: "D s \<Longrightarrow> D (s\<lparr>wrld := (wrld s)\<lparr>zk_state := z\<rparr>\<rparr>)"
    and C_zk: "C s \<Longrightarrow> C (s\<lparr>wrld := (wrld s)\<lparr>zk_state := z\<rparr>\<rparr>)"
    and D_fail: "D s \<Longrightarrow> R (with_failure reason s)"
    and C_stage: "st \<noteq> TOTAL \<Longrightarrow> C s \<Longrightarrow> C (record_stage st s)"
    and R_stage: "st \<noteq> TOTAL \<Longrightarrow> R s \<Longrightarrow> R (record_stage st s)"
    and C_fail: "C s \<Longrightarrow> R (with_failure reason s)"
    and C_close: "C s \<Longrightarrow> R (with_failure reason (with_close s))"
    and C_send: "C s \<Longrightarrow> C (s\<lparr>wrld := (wrld s)\<lparr>sends := ss, sent := b\<rparr>\<rparr>)"
    and C_sends: "C s \<Longrightarrow> C (s\<lparr>wrld := (wrld s)\<lparr>sends := ss\<rparr>\<rparr>)"
    and C_recv: "C s \<Longrightarrow> C (s\<lparr>wrld := (wrld s)\<lparr>incoming := evs\<rparr>\<rparr>)"
begin

lemma connect_stage:
  assumes "D s" "st \<noteq> TOTAL"
  shows "leads (\<lambda>ok. if ok then C else D) R (scoped st (newConnect ip port s))"
  using D_connect [OF assms(1), of ip port] assms(2) C_stage R_stage D_stage
  by (cases "newConnect ip port s") (auto split: if_splits)

lemma direct_C:
  assumes "S s" "m_clientfd (chan s) = -1" "m_ip (chan s) \<noteq> []"
  shows "leads (\<lambda>_. C) R (scoped CONNECT (and_then (newConnect ip port s)
    (\<lambda>ok s'. if \<not> ok then fail (lit ''direct connect error'') s' else Ok () s')))"
  using D_connect [OF S_direct [OF assms], of ip port] C_stage R_stage D_fail
  by (cases "newConnect ip port s") (auto simp: fail_def split: if_splits)

lemma zk_connect_C:
  assumes "S s" "m_clientfd (chan s) = -1" "m_ip (chan s) = []"
  shows "leads (\<lambda>_. C) R (zk_connect zk s)"
  using zk_connect_resolved [of zk s]
proof (elim disjE exE conjE)
  fix t z ss d idx ip port client
  assume idx: "m_idx (chan s) = 0 \<longrightarrow> ip = [] \<longrightarrow> idx = 0"
    and zk: "zk_connect zk s = and_then (scoped CONNECT (newConnect ip port (resolved s t z ss d idx ip port)))
         (\<lambda>connected s4. if \<not> connected then fail (lit ''connect server error'') (close_zk zk client s4)
                         else Ok () (close_zk zk client s4))"
  have "D (resolved s t z ss d idx ip port)"
    using idx by (intro S_lookup assms) auto
  then have "leads (\<lambda>ok. if ok then C else D) R
      (scoped CONNECT (newConnect ip port (resolved s t z ss d idx ip port)))"
    by (rule connect_stage) simp
  then show ?thesis
    unfolding zk
    by (rule leads_and_then) (auto simp: fail_def close_zk_def intro: D_fail D_zk C_zk split: if_splits)
qed simp

lemma ensure_connected_C: "S s \<Longrightarrow> leads (\<lambda>_. C) R (ensure_connected zk mth s)"
  using S_names [of s, where a = "fst mth" and b = "snd mth"]
  by (auto simp: ensure_connected_def Let_def simp del: lit_Cons intro: direct_C zk_connect_C S_connected)

end

sublocale channel_logic \<subseteq> whole: call_logic zk mth S C R for mth
  by unfold_locales
    (use ensure_connected_C C_stage R_stage C_fail C_close C_send C_sends C_recv in auto)

end
