(* ===== verification/Channel_Calls.thy ===== *)
theory Channel_Calls
  imports Rpc_Channel "HOL-Library.Multiset"
begin

text \<open>
  What the calls of a channel guarantee: the interpretations of the logic of \<open>Rpc_Channel\<close> on the
  invariants of a channel (descriptors, reported stages, address, controller, index, protocol), the
  successful legacy call, the new-protocol call that cannot succeed, the life of a channel as an
  inductive predicate, and the properties that rest on them.
\<close>

section \<open>Invariants of a channel\<close>

text \<open>
  File descriptors: every descriptor ever opened has been closed exactly once, except the one the
  channel holds. The kernel never hands out \<open>-1\<close> as a descriptor.
\<close>

fun kernel_fd :: "connect_outcome \<Rightarrow> bool" where
  "kernel_fd Socket_error = True"
| "kernel_fd (Connect_error fd) = (0 \<le> fd)"
| "kernel_fd (Connected fd evs) = (0 \<le> fd)"

definition fds_ok :: "'z call_state \<Rightarrow> bool" where
  "fds_ok s \<longleftrightarrow> (\<forall>c \<in> set (connects (wrld s)). kernel_fd c) \<and> - 1 \<le> m_clientfd (chan s)
     \<and> mset (opened_fds (wrld s)) = mset (closed_fds (wrld s))
         + (if m_clientfd (chan s) = -1 then {#} else {#m_clientfd (chan s)#})"

lemmas step_defs = record_stage_def with_failure_def with_close_def resolved_def

interpretation fds: channel_logic zk fds_ok "\<lambda>s. fds_ok s \<and> m_clientfd (chan s) = -1"
  "\<lambda>s. fds_ok s \<and> m_clientfd (chan s) \<noteq> -1" fds_ok for zk
  by unfold_locales
    (auto simp: fds_ok_def step_defs newConnect_def Let_def split: list.splits connect_outcome.splits)

text \<open>The stages reported so far, none of them \<^verbatim>\<open>TOTAL\<close>.\<close>

definition traced :: "Stage list \<Rightarrow> 'z call_state \<Rightarrow> bool" where
  "traced before s \<longleftrightarrow> (\<exists>l. recorded (wrld s) = before @ l \<and> TOTAL \<notin> set l)"

interpretation trace: channel_logic zk "traced l" "traced l" "traced l" "traced l" for zk l
  by unfold_locales
    (auto simp: traced_def step_defs newConnect_def Let_def split: list.splits connect_outcome.splits)

text \<open>An address, once known, and what was learned from ZooKeeper.\<close>

definition settled :: "bytes \<Rightarrow> 16 word \<Rightarrow> RouteTable \<Rightarrow> 'z \<Rightarrow> (bytes \<times> 16 word) list \<Rightarrow> 'z call_state \<Rightarrow> bool" where
  "settled ip port t z before s \<longleftrightarrow> ip \<noteq> [] \<and> m_ip (chan s) = ip \<and> m_port (chan s) = port
     \<and> route_table (wrld s) = t \<and> zk_state (wrld s) = z
     \<and> (\<exists>l. dialled (wrld s) = before @ l \<and> set l \<subseteq> {(c_str ip, port)})"

interpretation address: call_logic zk mth "settled ip port t z l" "settled ip port t z l" "settled ip port t z l"
  for zk mth ip port t z l
  by unfold_locales
    (auto simp: settled_def step_defs ensure_connected_def newConnect_def fail_def Let_def
      split: list.splits connect_outcome.splits)

text \<open>The controller is touched by a failure only, and every early return is a failure.\<close>

interpretation report: channel_logic zk "\<lambda>s. ctl s = c" "\<lambda>s. ctl s = c" "\<lambda>s. ctl s = c"
  "\<lambda>s. Failed (ctl s)" for zk c
  by unfold_locales
    (auto simp: step_defs newConnect_def Let_def split: list.splits connect_outcome.splits)

text \<open>The index of the colon is 0 as long as no address is known.\<close>

definition index_ok :: "'z call_state \<Rightarrow> bool" where
  "index_ok s \<longleftrightarrow> (m_ip (chan s) = [] \<longrightarrow> m_idx (chan s) = 0)"

interpretation index: channel_logic zk index_ok index_ok index_ok index_ok for zk
  by unfold_locales
    (auto simp: index_ok_def step_defs newConnect_def Let_def split: list.splits connect_outcome.splits)

section \<open>A call that meets no obstacle\<close>

lemma receive_bytes_live:
  assumes "live_stream (incoming (wrld s))" "n \<le> length (stream_bytes (incoming (wrld s)))"
  shows "\<exists>evs. receive_bytes n err s =
      Ok (take n (stream_bytes (incoming (wrld s)))) (s\<lparr>wrld := (wrld s)\<lparr>incoming := evs\<rparr>\<rparr>)
    \<and> live_stream evs \<and> stream_bytes evs = drop n (stream_bytes (incoming (wrld s)))"
  using recv_exact_live [OF assms] by (auto simp: receive_bytes_def)

lemma recv_legacy_frame_live:
  assumes "live_stream (incoming (wrld s))"
    and "stream_bytes (incoming (wrld s)) = legacy_response_frame body @ rest" "length body \<le> kMaxFrameSize"
  shows "\<exists>evs. recv_legacy_frame s = Ok (legacy_response_frame body) (s\<lparr>wrld := (wrld s)\<lparr>incoming := evs\<rparr>\<rparr>)
    \<and> live_stream evs \<and> stream_bytes evs = rest"
proof -
  let ?len = "word_of_nat (length body) :: 32 word"
  have stream: "stream_bytes (incoming (wrld s)) = rev (mem32 ?len) @ body @ rest"
    using assms(2) by (simp add: legacy_response_frame_def)
  obtain evs where first: "receive_bytes 4 err s = Ok (rev (mem32 ?len)) (s\<lparr>wrld := (wrld s)\<lparr>incoming := evs\<rparr>\<rparr>)"
    and evs: "live_stream evs" "stream_bytes evs = body @ rest" for err
    using recv_exact_live [of "incoming (wrld s)" 4] assms(1)
    by (auto simp: stream receive_bytes_def)
  have n: "unat (ntohl (load32 (rev (mem32 ?len)))) = length body"
    using assms(3) by (simp add: be32_def [symmetric] byte_simps unat_of_nat_small)
  show ?thesis
  proof (cases "length body = 0")
    case True
    with n first evs show ?thesis
      by (auto simp: recv_legacy_frame_def Let_def legacy_response_frame_def simp del: lit_Cons)
  next
    case False
    let ?s1 = "s\<lparr>wrld := (wrld s)\<lparr>incoming := evs\<rparr>\<rparr>"
    obtain evs' where "receive_bytes (length body) (lit ''recv response body error'') ?s1 =
        Ok body (s\<lparr>wrld := (wrld s)\<lparr>incoming := evs'\<rparr>\<rparr>)" "live_stream evs'" "stream_bytes evs' = rest"
      using receive_bytes_live [of ?s1 "length body" "lit ''recv response body error''"] evs by auto
    with False n first assms(3) show ?thesis
      by (auto simp: recv_legacy_frame_def Let_def legacy_response_frame_def simp del: lit_Cons)
  qed
qed

lemma encode_request_legacy:
  assumes "clientCodec (chan s) = LegacyClientCodec pb" "length h < 2 ^ 32"
    and "SerializeRpcHeader pb \<lparr>rh_service_name = rc_service_name (chan s),
        rh_method_name = rc_method_name (chan s), rh_args_size = word_of_nat (length args)\<rparr> = Some h"
  shows "encode_request args s = Ok (legacy_request_frame h args) s"
proof -
  have "rpc_header (call_context (chan s)) (request_message (chan s) args) =
      \<lparr>rh_service_name = rc_service_name (chan s),
        rh_method_name = rc_method_name (chan s), rh_args_size = word_of_nat (length args)\<rparr>"
    by (simp add: rpc_header_def call_context_def request_message_def ClientContext_init_def)
  moreover have "pm_body (request_message (chan s) args) = args"
    by (simp add: request_message_def)
  ultimately show ?thesis
    using legacy_encode_frame [of empty_buffer pb "call_context (chan s)" "request_message (chan s) args" h] assms
    by (auto simp: encode_request_def LegacyClientCodec_def buffer_simps)
qed

lemma decode_response_legacy:
  assumes "clientCodec (chan s) = LegacyClientCodec pb" "length body \<le> kMaxFrameSize"
  shows "decode_response (legacy_response_frame body) s = Ok body s"
  using legacy_client_decode_frame [of body "NoncontiguousBuffer_from (legacy_response_frame body)" "[]"
      ProtocolMessage_init] assms
  by (auto simp: decode_response_def LegacyClientCodec_def kMaxFrameSize_def)

section \<open>The header that is swapped twice\<close>

lemma xrpc_frame_buf:
  "leads (\<lambda>buf s'. chan s' = chan s \<and> (\<exists>fh body. buf = fh_mem fh @ body \<and> fh_magic fh = kMagicNumber))
     (\<lambda>_. True) (recv_xrpc_frame s)"
proof -
  have r: "leads (\<lambda>_ s'. chan s' = chan t) (\<lambda>_. True) (receive_bytes n err t)" for n err and t :: "'z call_state"
    by (auto simp: receive_bytes_def Let_def close_fail_def fail_def split: prod.splits recv_result.splits)
  show ?thesis
    unfolding recv_xrpc_frame_def
    by (rule leads_and_then [OF r])
      (auto simp: Let_def close_fail_def fail_def IsValid_def simp del: lit_Cons
        intro!: leads_and_then [OF r] leads_and_then [where Q' = "\<lambda>_ s'. chan s' = chan s"] leads_mono [OF r])
qed

lemma mem16_kMagicNumber: "mem16 kMagicNumber = [82, 75]"
proof -
  have "le_bytes (Suc (Suc 0)) 19282 = [82, 75]" by simp
  moreover have "unat kMagicNumber = 19282" by (simp add: kMagicNumber_def)
  ultimately show ?thesis
    by (simp only: mem16_def numeral_2_eq_2)
qed

lemma double_swap_rejected:
  assumes "fh_magic fh = kMagicNumber"
  shows "\<exists>m'. XRpcClient_ZeroCopyDecode pb (NoncontiguousBuffer_from (fh_mem fh @ body)) m
    = (kCodecInvalidMagic, NoncontiguousBuffer_from (fh_mem fh @ body), m')"
proof -
  have "unat (be16 (take 2 (fh_mem fh @ body))) \<noteq> unat kMagicNumber"
    by (simp add: fh_mem_def assms mem16_kMagicNumber unat_be16) (simp add: kMagicNumber_def)
  then have "\<not> IsValid (wire_header (fh_mem fh @ body))"
    by (auto simp: IsValid_def wire_header_fields)
  then show ?thesis
    by (simp add: XRpcClient_ZeroCopyDecode_def Let_def buffer_simps kFixedHeaderSize_def
        PeekFixedHeader_contents)
qed

text \<open>The protocol of a channel never changes.\<close>

definition on_xrpc :: "protobuf \<Rightarrow> 'z call_state \<Rightarrow> bool" where
  "on_xrpc pb s \<longleftrightarrow> useXrpcProtocol (chan s) \<and> clientCodec (chan s) = XRpcClientCodec pb"

interpretation xrpc_kept: channel_logic zk "on_xrpc pb" "on_xrpc pb" "on_xrpc pb" "\<lambda>_. True" for zk pb
  by unfold_locales
    (auto simp: on_xrpc_def step_defs newConnect_def Let_def split: list.splits connect_outcome.splits)

definition swapped_frame :: "bytes \<Rightarrow> bool" where
  "swapped_frame buf \<longleftrightarrow> (\<exists>fh body. buf = fh_mem fh @ body \<and> fh_magic fh = kMagicNumber)"

lemma leads_conj: "leads Q P r \<Longrightarrow> leads Q' P r \<Longrightarrow> leads (\<lambda>a s. Q a s \<and> Q' a s) P r"
  by (cases r) auto

lemma on_xrpc_stage: "on_xrpc pb (record_stage st s) = on_xrpc pb s"
  by (simp add: on_xrpc_def record_stage_def)

lemma on_xrpc_net_io:
  assumes "on_xrpc pb s"
  shows "leads (\<lambda>buf t. on_xrpc pb t \<and> swapped_frame buf) (\<lambda>_. True) (scoped NET_IO (net_io w s))"
proof -
  have "leads (\<lambda>buf _. swapped_frame buf) (\<lambda>_. True) (recv_xrpc_frame t)" for t :: "'a call_state"
    by (rule leads_mono [OF xrpc_frame_buf [of t]]) (auto simp: swapped_frame_def)
  then have "leads (\<lambda>buf _. swapped_frame buf) (\<lambda>_. True) (net_io w s)"
    using assms
    by (auto simp: net_io_def on_xrpc_def Let_def close_fail_def fail_def split: list.splits option.splits)
  then show ?thesis
    using leads_conj [OF xrpc_kept.whole.net_io_C [OF assms, of w]]
    by (intro leads_scoped) (simp add: on_xrpc_stage)
qed

lemma on_xrpc_decode:
  assumes "on_xrpc pb s" "swapped_frame buf"
  shows "leads (\<lambda>_ _. False) (\<lambda>_. True) (scoped DECODE_RES (decode_response buf s))"
proof -
  obtain fh body where "buf = fh_mem fh @ body" "fh_magic fh = kMagicNumber"
    using assms(2) by (auto simp: swapped_frame_def)
  then obtain b m' where "XRpcClient_ZeroCopyDecode pb (NoncontiguousBuffer_from buf) ProtocolMessage_init
      = (kCodecInvalidMagic, b, m')"
    using double_swap_rejected [of fh pb body ProtocolMessage_init] by blast
  then show ?thesis
    using assms(1)
    by (simp add: decode_response_def on_xrpc_def XRpcClientCodec_def codec_consts close_fail_def fail_def)
qed

lemma on_xrpc_call_body:
  assumes "on_xrpc pb s"
  shows "leads (\<lambda>_ _. False) (\<lambda>_. True) (call_body zk mth request parse s)"
  unfolding call_body_def
proof (rule leads_and_then [OF xrpc_kept.ensure_connected_C [OF assms]])
  fix u s1
  assume s1: "on_xrpc pb s1"
  have ser: "leads (\<lambda>_. on_xrpc pb) (\<lambda>_. True) (scoped SERIALIZE_REQ
      (case request of None \<Rightarrow> fail (lit ''serialize request fail'') s1 | Some a \<Rightarrow> Ok a s1))"
    using s1 by (intro leads_scoped) (simp add: on_xrpc_stage fail_def split: option.splits)
  have enc: "leads (\<lambda>_. on_xrpc pb) (\<lambda>_. True) (scoped ENCODE_REQ (encode_request a t))"
    if "on_xrpc pb t" for a t
    using xrpc_kept.whole.encode_request_C [OF that] by (intro leads_scoped) (simp add: on_xrpc_stage)
  show "leads (\<lambda>_ _. False) (\<lambda>_. True) (and_then (scoped SERIALIZE_REQ
         (case request of None \<Rightarrow> fail (lit ''serialize request fail'') s1 | Some a \<Rightarrow> Ok a s1)) (\<lambda>args_str s2.
     and_then (scoped ENCODE_REQ (encode_request args_str s2)) (\<lambda>wire_data s3.
     and_then (scoped NET_IO (net_io wire_data s3)) (\<lambda>frame_buf s4.
     and_then (scoped DECODE_RES (decode_response frame_buf s4)) (\<lambda>body s5.
     scoped DESERIALIZE_RES
         (case parse body of None \<Rightarrow> close_fail (lit ''parse response error'') s5 | Some r \<Rightarrow> Ok r s5))))))"
    by (rule leads_and_then [OF ser], rule leads_and_then [OF enc], assumption,
        rule leads_and_then [OF on_xrpc_net_io], assumption,
        rule leads_and_then [OF on_xrpc_decode]) auto
qed

text \<open>The whole call, stage by stage.\<close>

lemma legacy_call_ok:
  assumes chan: "m_clientfd (chan s) \<noteq> -1" "\<not> useXrpcProtocol (chan s)"
      "clientCodec (chan s) = LegacyClientCodec pb"
    and name: "target = (if rc_service_name (chan s) = [] then mth
        else (rc_service_name (chan s), rc_method_name (chan s)))"
    and ser: "SerializeRpcHeader pb \<lparr>rh_service_name = fst target, rh_method_name = snd target,
        rh_args_size = word_of_nat (length args)\<rparr> = Some h" "length h < 2 ^ 32"
    and net: "sends (wrld s) = Some k # ss" "length (legacy_request_frame h args) \<le> k"
      "live_stream (incoming (wrld s))"
      "stream_bytes (incoming (wrld s)) = legacy_response_frame body @ rest"
    and size: "length body \<le> kMaxFrameSize"
    and parse: "parse body = Some r"
  shows "\<exists>s'. CallMethod zk mth (Some args) parse s = Ok r s'
    \<and> sent (wrld s') = sent (wrld s) @ legacy_request_frame h args
    \<and> live_stream (incoming (wrld s')) \<and> stream_bytes (incoming (wrld s')) = rest \<and> sends (wrld s') = ss
    \<and> dialled (wrld s') = dialled (wrld s)
    \<and> m_clientfd (chan s') = m_clientfd (chan s) \<and> ctl s' = ctl s
    \<and> \<not> useXrpcProtocol (chan s') \<and> clientCodec (chan s') = LegacyClientCodec pb
    \<and> (rc_service_name (chan s'), rc_method_name (chan s')) = target
    \<and> recorded (wrld s') = recorded (wrld s)
        @ [SERIALIZE_REQ, ENCODE_REQ, NET_IO, DECODE_RES, DESERIALIZE_RES, TOTAL]"
proof -
  define s1 where "s1 = (if rc_service_name (chan s) = []
      then s\<lparr>chan := (chan s)\<lparr>rc_service_name := fst mth, rc_method_name := snd mth\<rparr>\<rparr> else s)"
  have s1: "rc_service_name (chan s1) = fst target" "rc_method_name (chan s1) = snd target"
      "clientCodec (chan s1) = LegacyClientCodec pb" "\<not> useXrpcProtocol (chan s1)"
      "wrld s1 = wrld s" "ctl s1 = ctl s" "m_clientfd (chan s1) = m_clientfd (chan s)"
    using chan by (auto simp: s1_def name)
  have conn: "ensure_connected zk mth s = Ok () s1"
    using chan(1) by (simp add: ensure_connected_def s1_def Let_def)
  define s2 where "s2 = record_stage SERIALIZE_REQ s1"
  have enc: "encode_request args s2 = Ok (legacy_request_frame h args) s2"
    by (rule encode_request_legacy [of _ pb]) (use ser(2) in \<open>simp_all add: s2_def record_stage_def s1 ser(1)\<close>)
  define s3 where "s3 = record_stage ENCODE_REQ s2"
  define s4 where "s4 = s3\<lparr>wrld := (wrld s3)\<lparr>sends := ss, sent := sent (wrld s) @ legacy_request_frame h args\<rparr>\<rparr>"
  obtain evs where recv: "recv_legacy_frame s4 = Ok (legacy_response_frame body)
      (s4\<lparr>wrld := (wrld s4)\<lparr>incoming := evs\<rparr>\<rparr>)" and evs: "live_stream evs" "stream_bytes evs = rest"
    using recv_legacy_frame_live [of s4 body rest] net size
    by (auto simp: s4_def s3_def s2_def record_stage_def s1)
  have io: "net_io (legacy_request_frame h args) s3 = recv_legacy_frame s4"
    using net by (simp add: net_io_def Let_def s4_def s3_def s2_def record_stage_def s1)
  define s5 where "s5 = record_stage NET_IO (s4\<lparr>wrld := (wrld s4)\<lparr>incoming := evs\<rparr>\<rparr>)"
  have dec: "decode_response (legacy_response_frame body) s5 = Ok body s5"
    by (rule decode_response_legacy [of _ pb])
      (simp_all add: s5_def s4_def s3_def s2_def record_stage_def s1 size)
  have "CallMethod zk mth (Some args) parse s =
      Ok r (record_stage TOTAL (record_stage DESERIALIZE_RES (record_stage DECODE_RES s5)))"
    by (simp add: CallMethod_def call_body_def conn s2_def [symmetric] enc s3_def [symmetric] io recv
        s5_def [symmetric] dec parse del: lit_Cons)
  then show ?thesis
    by (auto simp: s5_def s4_def s3_def s2_def record_stage_def s1 evs)
qed

section \<open>No exception\<close>

definition no_throw :: "('a, 'z) res \<Rightarrow> bool" where
  "no_throw r \<longleftrightarrow> r \<noteq> Abort Threw"

lemma no_throw_simps [simp]:
  "no_throw (Ok a s)" "no_throw (Return s)" "no_throw (Abort e) \<longleftrightarrow> e \<noteq> Threw"
  "no_throw (fail reason s)" "no_throw (close_fail reason s)"
  by (simp_all add: no_throw_def fail_def close_fail_def)

lemma no_throw_and_then:
  "no_throw r \<Longrightarrow> (\<And>a s. r = Ok a s \<Longrightarrow> no_throw (f a s)) \<Longrightarrow> no_throw (and_then r f)"
  by (cases r) auto

lemma no_throw_scoped [simp]: "no_throw (scoped st r) = no_throw r"
  by (cases r) auto

lemma no_throw_parts [simp]:
  "no_throw (receive_bytes n err s)" "no_throw (encode_request args s)" "no_throw (decode_response buf s)"
  "no_throw (newConnect ip port s)"
  by (auto simp: receive_bytes_def encode_request_def decode_response_def newConnect_def Let_def
      split: prod.splits recv_result.splits list.splits connect_outcome.splits)

lemma no_throw_frames [simp]: "no_throw (recv_xrpc_frame s)" "no_throw (recv_legacy_frame s)"
  by (auto simp: recv_xrpc_frame_def recv_legacy_frame_def Let_def simp del: lit_Cons
      intro!: no_throw_and_then)

lemma no_throw_net_io [simp]: "no_throw (net_io w s)"
  by (auto simp: net_io_def Let_def split: list.splits option.splits)

lemma no_throw_zk_connect: "m_idx (chan s) = 0 \<Longrightarrow> no_throw (zk_connect zk s)"
  using zk_connect_resolved [of zk s] by (auto simp del: lit_Cons intro!: no_throw_and_then)

lemma no_throw_connected: "index_ok s \<Longrightarrow> no_throw (ensure_connected zk mth s)"
  by (auto simp: ensure_connected_def Let_def index_ok_def simp del: lit_Cons
      intro!: no_throw_and_then no_throw_zk_connect)

lemma no_throw_call: "index_ok s \<Longrightarrow> no_throw (CallMethod zk mth request parse s)"
  by (auto simp: CallMethod_def call_body_def no_throw_connected simp del: lit_Cons
      intro!: no_throw_and_then split: option.splits)

section \<open>The life of a channel\<close>

text \<open>
  The states a channel can be in: made by one of its constructors, after any number of calls that
  returned, with the controller reset or not, while the network and ZooKeeper go their own way. The
  response of a call does not matter for the state, so its type is \<^typ>\<open>unit\<close>.
\<close>

inductive live_channel :: "'z zoo \<Rightarrow> 'z call_state \<Rightarrow> bool" for zk where
  made: "RpcChannel_ctor pb garbage connectNow useXrpc w = Ok ok s \<Longrightarrow>
    opened_fds w = [] \<Longrightarrow> closed_fds w = [] \<Longrightarrow> \<forall>c \<in> set (connects w). kernel_fd c \<Longrightarrow> live_channel zk s"
| direct: "RpcChannel_direct pb ip port useXrpc w = Ok ok s \<Longrightarrow>
    opened_fds w = [] \<Longrightarrow> closed_fds w = [] \<Longrightarrow> \<forall>c \<in> set (connects w). kernel_fd c \<Longrightarrow> live_channel zk s"
| called: "live_channel zk s \<Longrightarrow> CallMethod zk mth request parse s = Ok () s' \<Longrightarrow> live_channel zk s'"
| failed: "live_channel zk s \<Longrightarrow> CallMethod zk mth request (parse :: bytes \<Rightarrow> unit option) s = Return s' \<Longrightarrow>
    live_channel zk s'"
| reset: "live_channel zk s \<Longrightarrow> live_channel zk (s\<lparr>ctl := Controller_Reset (ctl s)\<rparr>)"
| environment: "live_channel zk s \<Longrightarrow> opened_fds w = opened_fds (wrld s) \<Longrightarrow>
    closed_fds w = closed_fds (wrld s) \<Longrightarrow> \<forall>c \<in> set (connects w). kernel_fd c \<Longrightarrow>
    live_channel zk (s\<lparr>wrld := w\<rparr>)"

definition channel_ok :: "'z call_state \<Rightarrow> bool" where
  "channel_ok s \<longleftrightarrow> fds_ok s \<and> index_ok s"

lemma stage_ok [simp]: "fds_ok (record_stage st s) = fds_ok s" "index_ok (record_stage st s) = index_ok s"
  by (simp_all add: fds_ok_def index_ok_def record_stage_def)

lemma ctl_record_stage [simp]: "ctl (record_stage st s) = ctl s"
  by (simp add: record_stage_def)

lemma call_keeps_ok:
  assumes "channel_ok s" "CallMethod zk mth request parse s = Ok a s' \<or> CallMethod zk mth request parse s = Return s'"
  shows "channel_ok s'"
proof -
  have "fds_ok s'"
    using assms fds.whole.call_ok [of s zk mth request parse a s'] fds.whole.call_return [of s zk mth request parse s']
    by (auto simp: channel_ok_def)
  moreover have "index_ok s'"
    using assms index.whole.call_ok [of s zk mth request parse a s']
      index.whole.call_return [of s zk mth request parse s']
    by (auto simp: channel_ok_def)
  ultimately show ?thesis by (simp add: channel_ok_def)
qed

lemma newConnect_ok:
  assumes "fds_ok s" "m_clientfd (chan s) = -1" "index_ok s"
  shows "leads (\<lambda>ok t. channel_ok t \<and> (\<not> ok \<longrightarrow> m_clientfd (chan t) = -1)) (\<lambda>_. True) (newConnect ip port s)"
  using assms
  by (auto simp: channel_ok_def fds_ok_def index_ok_def newConnect_def Let_def
      split: list.splits connect_outcome.splits)

lemma retry_connect_ok:
  "channel_ok s \<Longrightarrow> \<not> rt \<longrightarrow> m_clientfd (chan s) = -1 \<Longrightarrow>
   leads (\<lambda>_. channel_ok) (\<lambda>_. True) (retry_connect k rt s)"
proof (induction k arbitrary: rt s)
  case 0
  then show ?case by simp
next
  case (Suc k)
  show ?case
  proof (cases rt)
    case True
    with Suc.prems show ?thesis by simp
  next
    case False
    with Suc.prems have "fds_ok s" "m_clientfd (chan s) = -1" "index_ok s"
      by (auto simp: channel_ok_def)
    with False Suc.IH show ?thesis
      by (auto intro!: leads_and_then [OF newConnect_ok])
  qed
qed

lemma fresh_ok:
  "opened_fds w = [] \<Longrightarrow> closed_fds w = [] \<Longrightarrow> \<forall>c \<in> set (connects w). kernel_fd c \<Longrightarrow>
   channel_ok \<lparr>chan = new_channel pb ip port x, ctl = c, wrld = w\<rparr>"
  by (simp add: channel_ok_def fds_ok_def index_ok_def new_channel_def)

lemma ctor_ok:
  assumes "opened_fds w = []" "closed_fds w = []" "\<forall>c \<in> set (connects w). kernel_fd c"
  shows "leads (\<lambda>_. channel_ok) (\<lambda>_. True) (RpcChannel_ctor pb garbage connectNow useXrpc w)"
    and "leads (\<lambda>_. channel_ok) (\<lambda>_. True) (RpcChannel_direct pb ip port useXrpc w)"
proof -
  let ?s = "\<lambda>ip port. \<lparr>chan = new_channel pb ip port useXrpc, ctl = Controller_init, wrld = w\<rparr>"
  have ok: "channel_ok (?s i p)" for i p
    by (rule fresh_ok [OF assms])
  then have conn: "leads (\<lambda>ok t. channel_ok t \<and> (\<not> ok \<longrightarrow> m_clientfd (chan t) = -1)) (\<lambda>_. True) (newConnect i' p' (?s i p))"
    for i i' p p'
    by (intro newConnect_ok) (auto simp: channel_ok_def new_channel_def)
  show "leads (\<lambda>_. channel_ok) (\<lambda>_. True) (RpcChannel_ctor pb garbage connectNow useXrpc w)"
    using ok by (auto simp: RpcChannel_ctor_def Let_def intro!: leads_and_then [OF conn] retry_connect_ok)
  show "leads (\<lambda>_. channel_ok) (\<lambda>_. True) (RpcChannel_direct pb ip port useXrpc w)"
    unfolding RpcChannel_direct_def by (rule leads_mono [OF conn]) auto
qed

lemma live_channel_ok: "live_channel zk s \<Longrightarrow> channel_ok s"
proof (induction rule: live_channel.induct)
  case (made pb garbage connectNow useXrpc w ok s)
  then show ?case using ctor_ok(1) [of w pb garbage connectNow useXrpc] by (metis leads_simps(1))
next
  case (direct pb ip port useXrpc w ok s)
  then show ?case using ctor_ok(2) [of w pb ip port useXrpc] by (metis leads_simps(1))
next
  case (called s mth request parse s')
  then show ?case by (blast intro: call_keeps_ok)
next
  case (failed s mth request parse s')
  then show ?case by (blast intro: call_keeps_ok)
qed (auto simp: channel_ok_def fds_ok_def index_ok_def)

section \<open>Properties\<close>

text \<open>C19: reading a response does not depend on how the network delivers it. Whatever segments and
  interruptions the bytes arrive in, \<^verbatim>\<open>recv_exact\<close> returns exactly the next \<open>n\<close> bytes of the stream,
  splits no segment wrongly, and leaves the rest of the stream to be read.\<close>

theorem recv_exact_fragmentation:
  assumes "live_stream evs" "n \<le> length (stream_bytes evs)"
  shows "\<exists>rest. recv_exact evs n = (Received (take n (stream_bytes evs)), rest)
    \<and> live_stream rest \<and> stream_bytes rest = drop n (stream_bytes evs)"
  by (rule recv_exact_live [OF assms])

text \<open>C37: no call over the new protocol succeeds. The channel converts the received fixed header to
  host order to check it and stores that converted header in the frame it hands to the codec, which
  converts it again and finds a wrong magic number. Whatever the server sends, a call that returns
  has failed.\<close>

theorem xrpc_call_never_succeeds:
  assumes "useXrpcProtocol (chan s)" "clientCodec (chan s) = XRpcClientCodec pb"
  shows "CallMethod zk mth request parse s \<noteq> Ok r s'"
  using on_xrpc_call_body [of pb s zk mth request parse] assms
  by (cases "call_body zk mth request parse s") (auto simp: CallMethod_def on_xrpc_def)

text \<open>C8: a channel leaks no descriptor. In every state of its life each descriptor that was ever opened
  has been closed exactly once, except the one it holds; when it is destroyed, all are closed.\<close>

theorem channel_no_fd_leak:
  assumes "live_channel zk s"
  shows "mset (opened_fds (wrld s)) = mset (closed_fds (wrld s))
      + (if m_clientfd (chan s) = -1 then {#} else {#m_clientfd (chan s)#})
    \<and> mset (opened_fds (wrld (RpcChannel_destroy s))) = mset (closed_fds (wrld (RpcChannel_destroy s)))"
  using live_channel_ok [OF assms] by (auto simp: channel_ok_def fds_ok_def RpcChannel_destroy_def)

text \<open>C21: no call throws. The two \<^verbatim>\<open>substr\<close> calls that split a looked-up address are within bounds in
  every state of a channel's life, also after a lookup that found nothing or an address without a
  colon.\<close>

theorem channel_never_throws:
  assumes "live_channel zk s"
  shows "CallMethod zk mth request parse s \<noteq> Abort Threw"
  using no_throw_call [of s zk mth request parse] live_channel_ok [OF assms]
  by (simp add: channel_ok_def no_throw_def)

text \<open>C20: the outcome of a call is reported. A call that leaves early has marked the controller as
  failed, one that completes has not touched it, and in both cases the total time is reported
  exactly once, after all other stages.\<close>

theorem call_reports_outcome:
  "(\<forall>r s'. CallMethod zk mth request parse s = Ok r s' \<longrightarrow> ctl s' = ctl s
      \<and> (\<exists>l. recorded (wrld s') = recorded (wrld s) @ l @ [TOTAL] \<and> TOTAL \<notin> set l))
   \<and> (\<forall>s'. CallMethod zk mth request parse s = Return s' \<longrightarrow> Failed (ctl s')
      \<and> (\<exists>l. recorded (wrld s') = recorded (wrld s) @ l @ [TOTAL] \<and> TOTAL \<notin> set l))"
proof -
  have t: "traced (recorded (wrld s)) s"
    by (simp add: traced_def)
  have trace: "\<exists>l. recorded (wrld (record_stage TOTAL u)) = recorded (wrld s) @ l @ [TOTAL] \<and> TOTAL \<notin> set l"
    if "traced (recorded (wrld s)) u" for u
    using that by (auto simp: traced_def record_stage_def)
  have ok: "ctl s' = ctl s \<and> (\<exists>l. recorded (wrld s') = recorded (wrld s) @ l @ [TOTAL] \<and> TOTAL \<notin> set l)"
    if call: "CallMethod zk mth request parse s = Ok r s'" for r s'
  proof -
    obtain u v where "s' = record_stage TOTAL u" "traced (recorded (wrld s)) u"
      "s' = record_stage TOTAL v" "ctl v = ctl s"
      using trace.whole.call_ok [OF t call] report.whole.call_ok [OF refl call] by blast
    then show ?thesis using trace [of u] ctl_record_stage by metis
  qed
  have ret: "Failed (ctl s') \<and> (\<exists>l. recorded (wrld s') = recorded (wrld s) @ l @ [TOTAL] \<and> TOTAL \<notin> set l)"
    if call: "CallMethod zk mth request parse s = Return s'" for s'
  proof -
    obtain u v where "s' = record_stage TOTAL u" "traced (recorded (wrld s)) u"
      "s' = record_stage TOTAL v" "Failed (ctl v)"
      using trace.whole.call_return [OF t call] report.whole.call_return [OF refl call] by blast
    then show ?thesis using trace [of u] ctl_record_stage by metis
  qed
  show ?thesis
    using ok ret by blast
qed

text \<open>An address is looked up at most once. Once a channel knows an address, every later call,
  whether it succeeds or not, connects to that address only and consults neither the route cache nor
  ZooKeeper again, so a channel never moves to another server when its own goes away.\<close>

lemma address_is_final:
  assumes "m_ip (chan s) \<noteq> []"
    and "CallMethod zk mth request parse s = Ok r s' \<or> CallMethod zk mth request parse s = Return s'"
  shows "m_ip (chan s') = m_ip (chan s) \<and> m_port (chan s') = m_port (chan s)
    \<and> route_table (wrld s') = route_table (wrld s) \<and> zk_state (wrld s') = zk_state (wrld s)
    \<and> (\<exists>l. dialled (wrld s') = dialled (wrld s) @ l \<and> set l \<subseteq> {(c_str (m_ip (chan s)), m_port (chan s))})"
proof -
  let ?P = "settled (m_ip (chan s)) (m_port (chan s)) (route_table (wrld s)) (zk_state (wrld s)) (dialled (wrld s))"
  have start: "?P s"
    using assms(1) by (simp add: settled_def)
  obtain u where "s' = record_stage TOTAL u" "?P u"
    using assms(2) address.call_ok [OF start, of zk mth request parse r s']
      address.call_return [OF start, of zk mth request parse s'] by blast
  then show ?thesis
    by (auto simp: settled_def record_stage_def)
qed

text \<open>A channel calls one method for ever. After its first call a channel keeps the names of that
  call, so a later call of any other service or method does exactly what the first one does.\<close>

lemma channel_method_frozen:
  assumes "rc_service_name (chan s) \<noteq> []"
  shows "CallMethod zk mth request parse s = CallMethod zk mth' request parse s"
  using assms by (simp add: CallMethod_def call_body_def ensure_connected_def Let_def)

text \<open>Round robin never rotates. A query makes its own balancer, whose counter starts at zero, so
  with the round-robin setting every query of a cached route answers with the first of its nodes.\<close>

lemma round_robin_never_rotates:
  assumes "Load (app_config (wrld s)) (lit ''loadbalancer'') = lit ''roundrobin''"
    and "GetRouteNodes (route_table (wrld s)) (lit ''/'' @ service @ lit ''/'' @ method) = node # nodes"
    and "str_find (ch CHR '':'') node = Some i"
  shows "QueryServiceHost zk service method idx s = (node, int i, record_stage LOAD_BALANCE s)"
  using assms by (auto simp: QueryServiceHost_def select_host_def RoundRobin_Select_def
      RoundRobinLoadBalancer_init_def Let_def simp del: lit_Cons)

section \<open>Witnesses\<close>

definition sample_world :: "bytes list world" where
  "sample_world =
     \<lparr>app_config = [lit ''loadbalancer'' \<mapsto> lit ''roundrobin''],
      route_table = [lit ''/S/M'' \<mapsto> [lit ''h:80'', lit ''i:81'']], zk_state = [], zk_sessions = [],
      draws = [], connects = [], sends = [Some 1000],
      incoming = [Data (take 3 (legacy_response_frame [7])), Eintr, Data (drop 3 (legacy_response_frame [7]))],
      sent = [], dialled = [], opened_fds = [], closed_fds = [], recorded = []\<rparr>"

definition sample_channel :: "bool \<Rightarrow> int \<Rightarrow> bytes list call_state" where
  "sample_channel useXrpc fd =
     \<lparr>chan = (new_channel (sample_legacy_pb [10, 0]) (lit ''h'') 80 useXrpc)\<lparr>m_clientfd := fd\<rparr>,
      ctl = Controller_init, wrld = sample_world\<rparr>"

lemma sample_stream:
  "live_stream (incoming sample_world)" "stream_bytes (incoming sample_world) = legacy_response_frame [7] @ []"
  by (simp_all add: sample_world_def legacy_response_frame_def flip: length_greater_0_conv)

theorem recv_exact_fragmentation_witness:
  "fst (recv_exact (incoming sample_world) 5) = Received (legacy_response_frame [7])"
  using recv_exact_fragmentation [OF sample_stream(1), of 5] by (auto simp: sample_stream(2))

theorem xrpc_call_never_succeeds_witness:
  "\<nexists>s'. CallMethod list_zoo (lit ''S'', lit ''M'') (Some []) Some (sample_channel True 4) = Ok [7] s'"
proof -
  have c: "useXrpcProtocol (chan (sample_channel True 4))"
    "clientCodec (chan (sample_channel True 4)) = XRpcClientCodec (sample_legacy_pb [10, 0])"
    by (simp_all add: sample_channel_def new_channel_def CreateClientCodec_def)
  show ?thesis
    by (intro notI, elim exE) (rule notE [OF xrpc_call_never_succeeds [OF c]])
qed

definition sample_made :: "bytes list call_state" where
  "sample_made =
     \<lparr>chan = (new_channel (sample_legacy_pb []) (lit ''h'') 80 False)\<lparr>m_clientfd := 5\<rparr>, ctl = Controller_init,
      wrld = sample_world\<lparr>connects := [], opened_fds := [5], dialled := [(lit ''h'', 80)], incoming := []\<rparr>\<rparr>"

lemma sample_made_live: "live_channel list_zoo sample_made"
proof (rule live_channel.direct)
  show "RpcChannel_direct (sample_legacy_pb []) (lit ''h'') 80 False (sample_world\<lparr>connects := [Connected 5 []]\<rparr>)
      = Ok True sample_made"
    by (simp add: RpcChannel_direct_def newConnect_def sample_made_def c_str_id ch_def sample_world_def)
qed (simp_all add: sample_world_def)

theorem channel_no_fd_leak_witness:
  "opened_fds (wrld (RpcChannel_destroy sample_made)) = [5] \<and> closed_fds (wrld (RpcChannel_destroy sample_made)) = [5]"
  using channel_no_fd_leak [OF sample_made_live]
  by (simp add: RpcChannel_destroy_def sample_made_def sample_world_def)

theorem channel_never_throws_witness:
  "live_channel list_zoo sample_made
   \<and> CallMethod list_zoo (lit ''S'', lit ''M'') (Some []) Some sample_made \<noteq> Abort Threw"
  using sample_made_live channel_never_throws [OF sample_made_live] by blast

text \<open>A call whose request does not serialise.\<close>

lemma sample_unserialised:
  "CallMethod list_zoo (lit ''S'', lit ''M'') None Some (sample_channel False 4) =
     Return (record_stage TOTAL (record_stage SERIALIZE_REQ (with_failure (lit ''serialize request fail'')
       ((sample_channel False 4)\<lparr>chan := (chan (sample_channel False 4))\<lparr>rc_service_name := lit ''S'',
          rc_method_name := lit ''M''\<rparr>\<rparr>))))"
  by (simp add: CallMethod_def call_body_def ensure_connected_def Let_def fail_def sample_channel_def
      new_channel_def del: lit_Cons)

theorem call_reports_outcome_witness:
  "\<exists>s' l. CallMethod list_zoo (lit ''S'', lit ''M'') None Some (sample_channel False 4) = Return s'
     \<and> Failed (ctl s') \<and> recorded (wrld s') = l @ [TOTAL]"
  using conjunct2 [OF call_reports_outcome [of list_zoo "(lit ''S'', lit ''M'')" None Some "sample_channel False 4"]]
    sample_unserialised by (auto simp: sample_channel_def sample_world_def simp del: lit_Cons)

end
