(* ===== verification/Rpc_Server.thy ===== *)
theory Rpc_Server
  imports Codec_Factory
begin

text \<open>
  The RPC server of \<^verbatim>\<open>src/rpc/server.cc\<close>: registration of services, the message callback with its
  loop over the frames in the network buffer, dispatch to a service, and the response. A
  protobuf service object is a parameter, a value of the record \<open>Service\<close>: its descriptor, how
  its request type parses, what a call answers, and how its response type serialises. Muduo's
  input buffer is the list of its readable bytes (\<^verbatim>\<open>peek\<close>, \<^verbatim>\<open>readableBytes\<close> and \<^verbatim>\<open>retrieve(n)\<close>
  read and drop a prefix), and what the server does to the connection is a list of events.
\<close>

section \<open>Services and their registration\<close>

text \<open>
  A method descriptor is its index in the service descriptor. \<open>svc_call\<close> gives the response
  object at the moment the service runs the \<^verbatim>\<open>done\<close> closure, \<open>None\<close> when it does not run it.
\<close>

record ('req, 'resp) Service =
  svc_name :: bytes
  svc_methods :: "bytes list"
  svc_parse_request :: "nat \<Rightarrow> bytes \<Rightarrow> 'req option"
  svc_call :: "nat \<Rightarrow> 'req \<Rightarrow> 'resp option"
  svc_serialize :: "'resp \<Rightarrow> bytes option"

record ('req, 'resp) ServiceInfo =
  si_service :: "('req, 'resp) Service"
  si_method_map :: "(bytes \<times> nat) list"

record ('req, 'resp) RpcServer =
  service_map :: "(bytes \<times> ('req, 'resp) ServiceInfo) list"
  serverCodec :: "ServerCodec option"

definition RpcServer_init :: "('req, 'resp) RpcServer" where
  "RpcServer_init = \<lparr>service_map = [], serverCodec = None\<rparr>"

text \<open>\<^verbatim>\<open>std::unordered_map::emplace\<close> keeps an entry that is already there.\<close>

definition emplace :: "'k \<Rightarrow> 'v \<Rightarrow> ('k \<times> 'v) list \<Rightarrow> ('k \<times> 'v) list" where
  "emplace k v m = (if map_of m k = None then m @ [(k, v)] else m)"

fun register_methods :: "nat \<Rightarrow> bytes list \<Rightarrow> (bytes \<times> nat) list \<Rightarrow> (bytes \<times> nat) list" where
  "register_methods i [] mm = mm"
| "register_methods i (name # names) mm = register_methods (Suc i) names (emplace name i mm)"

definition NotifyService :: "('req, 'resp) Service \<Rightarrow> ('req, 'resp) RpcServer \<Rightarrow> ('req, 'resp) RpcServer" where
  "NotifyService svc s =
     s\<lparr>service_map := emplace (svc_name svc)
         \<lparr>si_service = svc, si_method_map = register_methods 0 (svc_methods svc) []\<rparr>
         (service_map s)\<rparr>"

section \<open>Serving a connection\<close>

datatype conn_event = Send bytes | Shutdown

definition SendRpcResponse :: "ServerCodec \<Rightarrow> bytes option \<Rightarrow> conn_event list" where
  "SendRpcResponse codec serialized =
     (case serialized of
        None \<Rightarrow> []
      | Some response_str \<Rightarrow>
          let resp_msg = ProtocolMessage_init\<lparr>pm_body := response_str, pm_message_type := kResponse\<rparr>
          in case ZeroCopyEncode codec resp_msg empty_buffer of (ret, out) \<Rightarrow>
               if ret \<noteq> kCodecOk then [] else [Send (ToString out)])"

definition dispatch :: "('req, 'resp) RpcServer \<Rightarrow> ServerCodec \<Rightarrow> ProtocolMessage \<Rightarrow> conn_event list" where
  "dispatch s codec msg =
     (case map_of (service_map s) (pm_service_name msg) of
        None \<Rightarrow> []
      | Some info \<Rightarrow>
          (case map_of (si_method_map info) (pm_method_name msg) of
             None \<Rightarrow> []
           | Some md \<Rightarrow>
               (case svc_parse_request (si_service info) md (pm_body msg) of
                  None \<Rightarrow> []
                | Some request \<Rightarrow>
                    (case svc_call (si_service info) md request of
                       None \<Rightarrow> []
                     | Some response \<Rightarrow>
                         SendRpcResponse codec (svc_serialize (si_service info) response)))))"

text \<open>The loop over the frames; the buffer shrinks with every frame, so it always ends.\<close>

function message_loop :: "('req, 'resp) RpcServer \<Rightarrow> ServerCodec \<Rightarrow> bytes \<Rightarrow> bytes \<times> conn_event list" where
  "message_loop s codec buf =
     (if buf = [] then (buf, [])
      else
        let nbuf = NoncontiguousBuffer_from buf;
            frame_size = CheckAndPick codec nbuf
        in if frame_size = 0 then (buf, [])
           else if frame_size < 0 then (buf, [Shutdown])
           else
             let (decode_ret, nbuf', msg) = ZeroCopyDecode codec nbuf ProtocolMessage_init
             in if decode_ret \<noteq> kCodecOk then (buf, [Shutdown])
                else
                  let (rest, evs) = message_loop s codec (drop (nat frame_size) buf)
                  in (rest, dispatch s codec msg @ evs))"
  by pat_completeness auto
termination
  by (relation "measure (\<lambda>(s, codec, buf). length buf)") auto

declare message_loop.simps [simp del]

definition OnMessage :: "protobuf \<Rightarrow> ('req, 'resp) RpcServer \<Rightarrow> bytes
    \<Rightarrow> ('req, 'resp) RpcServer \<times> bytes \<times> conn_event list" where
  "OnMessage pb s buf =
     (let s' = (case serverCodec s of
                  None \<Rightarrow> s\<lparr>serverCodec := Some (CreateServerCodec_auto pb (NoncontiguousBuffer_from buf))\<rparr>
                | Some _ \<Rightarrow> s)
      in case message_loop s' (the (serverCodec s')) buf of (rest, evs) \<Rightarrow> (s', rest, evs))"

section \<open>Lemmas on the loop\<close>

lemma dispatch_no_Shutdown: "Shutdown \<notin> set (dispatch s codec msg)"
  by (auto simp: dispatch_def SendRpcResponse_def Let_def split: option.splits prod.splits if_splits)

lemma dispatch_codec_frame [simp]: "dispatch (s\<lparr>serverCodec := c\<rparr>) codec msg = dispatch s codec msg"
  by (simp add: dispatch_def)

text \<open>The loop over bytes, with the buffer class abstracted away.\<close>

lemma message_loop_bytes:
  "message_loop s codec buf =
     (if buf = [] \<or> check_bytes codec buf = 0 then (buf, [])
      else if check_bytes codec buf < 0 \<or> fst (decode_bytes codec buf) \<noteq> kCodecOk then (buf, [Shutdown])
      else case message_loop s codec (drop (nat (check_bytes codec buf)) buf) of
             (rest, evs) \<Rightarrow> (rest, dispatch s codec (snd (decode_bytes codec buf)) @ evs))"
  by (subst message_loop.simps)
    (simp add: check_bytes_def decode_bytes_def Let_def split: prod.splits)

text \<open>Induction over the frames, for one codec.\<close>

lemma frames_induct [case_names frames]:
  assumes "\<And>buf. (buf \<noteq> [] \<Longrightarrow> 0 < check_bytes codec buf \<Longrightarrow>
    P (drop (nat (check_bytes codec buf)) buf)) \<Longrightarrow> P buf"
  shows "P buf"
proof (induction buf rule: length_induct)
  case (1 buf)
  show ?case
  proof (rule assms)
    assume "buf \<noteq> []" "0 < check_bytes codec buf"
    then show "P (drop (nat (check_bytes codec buf)) buf)"
      using 1 by auto
  qed
qed

lemma message_loop_codec_frame [simp]:
  "message_loop (s\<lparr>serverCodec := c\<rparr>) codec buf = message_loop s codec buf"
proof (induction buf rule: frames_induct [where codec = codec])
  case (frames buf)
  then show ?case
    by (subst (1 2) message_loop_bytes) (auto split: prod.splits)
qed

text \<open>What is left in the buffer is a suffix of it.\<close>

lemma message_loop_suffix: "\<exists>k. fst (message_loop s codec buf) = drop k buf"
proof (induction buf rule: frames_induct [where codec = codec])
  case (frames buf)
  show ?case
  proof (cases "buf = [] \<or> check_bytes codec buf \<le> 0 \<or> fst (decode_bytes codec buf) \<noteq> kCodecOk")
    case True
    then show ?thesis
      by (subst message_loop_bytes) (auto intro!: exI [of _ 0])
  next
    case False
    with frames show ?thesis
      by (subst message_loop_bytes) (auto split: prod.splits)
  qed
qed

text \<open>A run of whole frames at the head of the buffer is dispatched in order.\<close>

definition frame_of :: "ServerCodec \<Rightarrow> bytes \<Rightarrow> ProtocolMessage \<Rightarrow> bool" where
  "frame_of codec f m \<longleftrightarrow> f \<noteq> [] \<and> (\<forall>r. check_bytes codec (f @ r) = int (length f)
     \<and> decode_bytes codec (f @ r) = (kCodecOk, m))"

lemma message_loop_frames:
  assumes "list_all2 (frame_of codec) fs ms"
  shows "message_loop s codec (concat fs @ tail) =
    (case message_loop s codec tail of (rest, evs) \<Rightarrow>
       (rest, concat (map (dispatch s codec) ms) @ evs))"
  using assms
proof (induction fs ms rule: list_all2_induct)
  case Nil
  then show ?case by simp
next
  case (Cons f fs m ms)
  then show ?case
    by (subst message_loop_bytes) (simp add: frame_of_def split: prod.splits)
qed

context server_codec
begin

lemma message_loop_incomplete: "check_bytes codec buf = 0 \<Longrightarrow> message_loop s codec buf = (buf, [])"
  by (subst message_loop_bytes) simp

lemma message_loop_reject:
  "check_bytes codec buf < 0 \<Longrightarrow> message_loop s codec buf = (buf, [Shutdown])"
  by (subst message_loop_bytes) (auto simp: check_bytes_Nil)

text \<open>What the loop leaves behind without closing the connection is an incomplete frame.\<close>

lemma message_loop_rest:
  "Shutdown \<notin> set (snd (message_loop s codec buf)) \<Longrightarrow>
   check_bytes codec (fst (message_loop s codec buf)) = 0"
proof (induction buf rule: frames_induct [where codec = codec])
  case (frames buf)
  show ?case
  proof (cases "buf \<noteq> [] \<and> 0 < check_bytes codec buf")
    case True
    with frames.prems frames.IH show ?thesis
      by (subst message_loop_bytes, subst (asm) message_loop_bytes)
        (auto split: if_splits prod.splits)
  next
    case False
    with frames.prems show ?thesis
      by (subst message_loop_bytes, subst (asm) message_loop_bytes)
        (auto simp: check_bytes_Nil split: if_splits)
  qed
qed

end

context framed_server_codec
begin

text \<open>Bytes that arrive later do not change what has been served.\<close>

lemma message_loop_append:
  "Shutdown \<notin> set (snd (message_loop s codec buf)) \<Longrightarrow>
   message_loop s codec (buf @ later) =
     (case message_loop s codec (fst (message_loop s codec buf) @ later) of (rest, evs) \<Rightarrow>
        (rest, snd (message_loop s codec buf) @ evs))"
proof (induction buf rule: frames_induct [where codec = codec])
  case (frames buf)
  show ?case
  proof (cases "buf = [] \<or> check_bytes codec buf = 0")
    case True
    then show ?thesis
      by (subst (2 3) message_loop_bytes) (simp split: prod.splits)
  next
    case False
    let ?n = "nat (check_bytes codec buf)" and ?m = "snd (decode_bytes codec buf)"
    from False frames.prems have pos: "0 < check_bytes codec buf"
      and ok: "fst (decode_bytes codec buf) = kCodecOk"
      by (subst (asm) message_loop_bytes, auto split: if_splits)+
    have step: "message_loop s codec buf = (case message_loop s codec (drop ?n buf) of
        (rest, evs) \<Rightarrow> (rest, dispatch s codec ?m @ evs))"
      using False pos ok by (subst message_loop_bytes) simp
    have step': "message_loop s codec (buf @ later) =
        (case message_loop s codec (drop ?n buf @ later) of
          (rest, evs) \<Rightarrow> (rest, dispatch s codec ?m @ evs))"
      using False pos ok check_bytes_within [OF pos]
      by (subst message_loop_bytes) (simp add: check_bytes_append decode_bytes_append)
    have "Shutdown \<notin> set (snd (message_loop s codec (drop ?n buf)))"
      using frames.prems step by (auto split: prod.splits)
    with frames.IH False pos step step' show ?thesis
      by (simp split: prod.splits)
  qed
qed

end

section \<open>A connection's byte stream\<close>

text \<open>
  The network library appends each arriving segment to the connection's buffer and calls
  \<^verbatim>\<open>OnMessage\<close>.
\<close>

fun receive :: "protobuf \<Rightarrow> ('req, 'resp) RpcServer \<Rightarrow> bytes \<Rightarrow> bytes list
    \<Rightarrow> ('req, 'resp) RpcServer \<times> bytes \<times> conn_event list" where
  "receive pb s buf [] = (s, buf, [])"
| "receive pb s buf (seg # segs) =
     (let (s1, buf1, evs1) = OnMessage pb s (buf @ seg);
          (s2, buf2, evs2) = receive pb s1 buf1 segs
      in (s2, buf2, evs1 @ evs2))"

lemma OnMessage_codec:
  "serverCodec s = Some codec \<Longrightarrow>
   OnMessage pb s buf = (s, fst (message_loop s codec buf), snd (message_loop s codec buf))"
  by (simp add: OnMessage_def split: prod.splits)

text \<open>A frame all of whose proper prefixes are waited for.\<close>

definition waiting_frame :: "ServerCodec \<Rightarrow> bytes \<Rightarrow> ProtocolMessage \<Rightarrow> bool" where
  "waiting_frame codec f m \<longleftrightarrow> frame_of codec f m
     \<and> (\<forall>p q. f = p @ q \<and> q \<noteq> [] \<longrightarrow> check_bytes codec p = 0)"

lemma concat_prefix_split:
  assumes "xs @ ys = concat fs" "\<forall>f \<in> set fs. f \<noteq> []"
  shows "\<exists>j p. j \<le> length fs \<and> xs = concat (take j fs) @ p \<and> p @ ys = concat (drop j fs)
    \<and> (p = [] \<or> (\<exists>q. q \<noteq> [] \<and> j < length fs \<and> fs ! j = p @ q))"
  using assms
proof (induction fs arbitrary: xs)
  case Nil
  then show ?case by simp
next
  case (Cons f fs)
  show ?case
  proof (cases "length f \<le> length xs")
    case True
    with Cons.prems obtain xs' where xs: "xs = f @ xs'" and "xs' @ ys = concat fs"
      by (auto simp: append_eq_append_conv2)
    with Cons.IH [of xs'] Cons.prems obtain j p where
      "j \<le> length fs" "xs' = concat (take j fs) @ p" "p @ ys = concat (drop j fs)"
      "p = [] \<or> (\<exists>q. q \<noteq> [] \<and> j < length fs \<and> fs ! j = p @ q)"
      by auto
    with xs show ?thesis by (intro exI [of _ "Suc j"] exI [of _ p]) auto
  next
    case False
    define q where "q = drop (length xs) f"
    have "xs = take (length xs) f"
      using False Cons.prems(1) by (simp add: append_eq_append_conv_if)
    then have "f = xs @ q"
      unfolding q_def by (metis append_take_drop_id)
    moreover have "q \<noteq> []"
      using False by (simp add: q_def)
    ultimately show ?thesis
      using Cons.prems(1) by (intro exI [of _ 0] exI [of _ xs]) auto
  qed
qed

context server_codec
begin

lemma message_loop_prefix:
  assumes frames: "list_all2 (waiting_frame codec) fs ms"
    and split: "xs @ ys = concat fs"
  shows "\<exists>j \<le> length fs. snd (message_loop s codec xs) = concat (map (dispatch s codec) (take j ms))
    \<and> fst (message_loop s codec xs) @ ys = concat (drop j fs) \<and> (ys = [] \<longrightarrow> j = length fs)"
proof -
  have ne: "\<forall>f \<in> set fs. f \<noteq> []"
    using frames by (auto simp: list_all2_conv_all_nth in_set_conv_nth waiting_frame_def frame_of_def)
  obtain j p where j: "j \<le> length fs" and xs: "xs = concat (take j fs) @ p"
    and rest: "p @ ys = concat (drop j fs)"
    and p: "p = [] \<or> (\<exists>q. q \<noteq> [] \<and> j < length fs \<and> fs ! j = p @ q)"
    using concat_prefix_split [OF split ne] by blast
  have "check_bytes codec p = 0"
    using p check_bytes_Nil frames by (auto simp: list_all2_conv_all_nth waiting_frame_def)
  then have "message_loop s codec p = (p, [])"
    by (rule message_loop_incomplete)
  moreover have "list_all2 (frame_of codec) (take j fs) (take j ms)"
    using list_all2_takeI [OF frames, of j] by (rule list_all2_mono) (simp add: waiting_frame_def)
  ultimately have "message_loop s codec xs = (p, concat (map (dispatch s codec) (take j ms)))"
    using message_loop_frames [of codec "take j fs" "take j ms" s p] xs by simp
  moreover have "j = length fs" if "ys = []"
  proof (rule ccontr)
    assume "j \<noteq> length fs"
    then have "drop j fs = fs ! j # drop (Suc j) fs" "fs ! j \<noteq> []"
      using j ne by (auto simp: Cons_nth_drop_Suc)
    with p rest that show False by auto
  qed
  ultimately show ?thesis using j rest by auto
qed

text \<open>However a stream of frames is cut into segments, each frame is dispatched once and in order.\<close>

lemma receive_frames:
  assumes s: "serverCodec s = Some codec"
  shows "list_all2 (waiting_frame codec) fs ms \<Longrightarrow> buf @ concat segs = concat fs \<Longrightarrow> segs \<noteq> [] \<Longrightarrow>
    receive pb s buf segs = (s, [], concat (map (dispatch s codec) ms))"
proof (induction segs arbitrary: buf fs ms)
  case Nil
  then show ?case by simp
next
  case (Cons seg segs)
  let ?left = "fst (message_loop s codec (buf @ seg))"
  obtain j where j: "j \<le> length fs"
    and ev: "snd (message_loop s codec (buf @ seg)) = concat (map (dispatch s codec) (take j ms))"
    and left: "?left @ concat segs = concat (drop j fs)"
    and last: "concat segs = [] \<longrightarrow> j = length fs"
    using message_loop_prefix [OF Cons.prems(1), of "buf @ seg" "concat segs" s] Cons.prems(2)
    by auto
  have fr: "list_all2 (waiting_frame codec) (drop j fs) (drop j ms)"
    using Cons.prems(1) by (rule list_all2_dropI)
  have "receive pb s ?left segs = (s, [], concat (map (dispatch s codec) (drop j ms)))"
  proof (cases "segs = []")
    case False
    with Cons.IH [OF fr left] show ?thesis by simp
  next
    case True
    with fr left last show ?thesis by simp
  qed
  moreover have "concat (map (dispatch s codec) ms) =
      concat (map (dispatch s codec) (take j ms)) @ concat (map (dispatch s codec) (drop j ms))"
    by (metis append_take_drop_id concat_append map_append)
  ultimately show ?case
    using ev by (simp add: OnMessage_codec [OF s])
qed

end

context framed_server_codec
begin

text \<open>The same for any byte stream, as long as the connection is not closed.\<close>

lemma receive_concat:
  assumes s: "serverCodec s = Some codec"
  shows "check_bytes codec buf = 0 \<Longrightarrow> Shutdown \<notin> set (snd (snd (receive pb s buf segs))) \<Longrightarrow>
    receive pb s buf segs =
      (s, fst (message_loop s codec (buf @ concat segs)), snd (message_loop s codec (buf @ concat segs)))"
proof (induction segs arbitrary: buf)
  case Nil
  then show ?case by (simp add: message_loop_incomplete)
next
  case (Cons seg segs)
  let ?r = "message_loop s codec (buf @ seg)"
  have ok: "Shutdown \<notin> set (snd ?r)"
    and more: "Shutdown \<notin> set (snd (snd (receive pb s (fst ?r) segs)))"
    using Cons.prems(2) by (auto simp: OnMessage_codec [OF s] split: prod.splits)
  show ?case
    using Cons.IH [OF message_loop_rest [OF ok] more] message_loop_append [OF ok, of "concat segs"]
    by (auto simp: OnMessage_codec [OF s] split: prod.splits)
qed

end

section \<open>The frames of the two protocols\<close>

lemma xrpc_waiting_frame:
  assumes fits: "frame_fits h msg" and parse: "ParseRequest pb h = Some req"
  shows "waiting_frame (XRpcServerCodec pb) (xrpc_frame kRequest msg h)
    ((take_request req (ProtocolMessage_init\<lparr>pm_body := pm_body msg\<rparr>))
       \<lparr>pm_stream_type := pm_stream_type msg, pm_stream_id := pm_stream_id msg\<rparr>)"
proof -
  let ?f = "xrpc_frame kRequest msg h"
  have "check_bytes (XRpcServerCodec pb) (?f @ r) = int (length ?f)" for r
    using fits by (simp add: check_bytes_def XRpcServerCodec_def XRpc_check_contents xrpc_verdict_frame)
  moreover have "decode_bytes (XRpcServerCodec pb) (?f @ r) = (kCodecOk,
      (take_request req (ProtocolMessage_init\<lparr>pm_body := pm_body msg\<rparr>))
       \<lparr>pm_stream_type := pm_stream_type msg, pm_stream_id := pm_stream_id msg\<rparr>)" for r
    using fits parse
    by (simp add: decode_bytes_def XRpcServerCodec_def XRpcServer_ZeroCopyDecode_def
        PeekFixedHeader_frame IsValid_def peek_parts_frame ProtocolMessage_init_def)
  moreover have "check_bytes (XRpcServerCodec pb) p = 0" if f: "?f = p @ q" and "q \<noteq> []" for p q
  proof (cases "16 \<le> length p")
    case False
    then show ?thesis
      by (simp add: check_bytes_def XRpcServerCodec_def XRpc_check_contents xrpc_verdict_def)
  next
    case True
    with f have "wire_header p = frame_header kRequest msg h"
      by (metis wire_header_append wire_header_xrpc_frame(2))
    moreover have "length p < 16 + length h + length (pm_body msg)"
      using arg_cong [OF f, of length] \<open>q \<noteq> []\<close> by (cases q) simp_all
    ultimately show ?thesis
      using fits by (simp add: check_bytes_def XRpcServerCodec_def XRpc_check_contents xrpc_verdict_def
          frame_header_sizes frame_fits_def Let_def)
  qed
  ultimately show ?thesis
    by (auto simp: waiting_frame_def frame_of_def xrpc_frame_def simp flip: length_greater_0_conv)
qed

lemma legacy_waiting_frame:
  assumes size: "4 + length h + length body \<le> kMaxFrameSize"
    and parse: "ParseRpcHeader pb h = Some rh"
  shows "waiting_frame (LegacyServerCodec pb) (legacy_request_frame h body)
    (ProtocolMessage_init\<lparr>pm_version := kLegacy, pm_service_name := rh_service_name rh,
       pm_method_name := rh_method_name rh, pm_args_size := rh_args_size rh, pm_body := body\<rparr>)"
proof -
  let ?f = "legacy_request_frame h body"
  have "check_bytes (LegacyServerCodec pb) (?f @ r) = int (length ?f)" for r
    using size by (simp add: check_bytes_def LegacyServerCodec_def Legacy_check_contents
        legacy_verdict_request)
  moreover have "decode_bytes (LegacyServerCodec pb) (?f @ r) = (kCodecOk,
      ProtocolMessage_init\<lparr>pm_version := kLegacy, pm_service_name := rh_service_name rh,
       pm_method_name := rh_method_name rh, pm_args_size := rh_args_size rh, pm_body := body\<rparr>)" for r
    using legacy_decode_frame [OF _ _ size parse,
        of "NoncontiguousBuffer_from (?f @ r)" r ProtocolMessage_init]
    by (auto simp: decode_bytes_def LegacyServerCodec_def)
  moreover have "check_bytes (LegacyServerCodec pb) p = 0" if f: "?f = p @ q" and "q \<noteq> []" for p q
  proof (cases "4 \<le> length p")
    case False
    then show ?thesis
      by (simp add: check_bytes_def LegacyServerCodec_def Legacy_check_contents legacy_verdict_def)
  next
    case True
    then have "take 4 p = take 4 (p @ q)" by simp
    also have "\<dots> = rev (mem32 (word_of_nat (4 + length h + length body)))"
      by (simp add: f [symmetric] legacy_request_frame_def del: of_nat_add)
    finally have "unat (be32 (take 4 p)) = 4 + length h + length body"
      using size by (simp add: byte_simps unat_of_nat_small del: of_nat_add)
    moreover have "length p < 8 + length h + length body"
      using arg_cong [OF f, of length] \<open>q \<noteq> []\<close> by (cases q) simp_all
    ultimately show ?thesis
      using size by (simp add: check_bytes_def LegacyServerCodec_def Legacy_check_contents
          legacy_verdict_def Let_def)
  qed
  ultimately show ?thesis
    by (auto simp: waiting_frame_def frame_of_def legacy_request_frame_def
        simp flip: length_greater_0_conv)
qed

section \<open>Registration\<close>

lemma map_of_emplace:
  "map_of (emplace k v m) x = (case map_of m x of Some y \<Rightarrow> Some y | None \<Rightarrow> if x = k then Some v else None)"
  by (auto simp: emplace_def map_of_append map_add_def split: option.splits)

lemma map_of_register_methods:
  "map_of (register_methods i names mm) x =
     (case map_of mm x of
        Some y \<Rightarrow> Some y
      | None \<Rightarrow> map_of (zip names [i ..< i + length names]) x)"
proof (induction i names mm rule: register_methods.induct)
  case (1 i mm)
  then show ?case by (simp split: option.splits)
next
  case (2 i name names mm)
  have "[i ..< i + length (name # names)] = i # [Suc i ..< Suc i + length names]"
    by (simp add: upt_rec)
  with 2 show ?case
    by (auto simp: map_of_emplace split: option.splits)
qed

lemma map_of_methods:
  "distinct names \<Longrightarrow> i < length names \<Longrightarrow>
   map_of (register_methods 0 names []) (names ! i) = Some i"
  by (simp add: map_of_register_methods map_of_zip_nth)

lemma SendRpcResponse_legacy:
  assumes "length r < 2 ^ 32"
  shows "SendRpcResponse (LegacyServerCodec pb) (Some r) = [Send (legacy_response_frame r)]"
proof -
  have "unat (word_of_nat (length r) :: 32 word) = length r"
    using assms by (simp add: unat_of_nat)
  then show ?thesis
    by (simp add: SendRpcResponse_def LegacyServerCodec_def LegacyServer_ZeroCopyEncode_def Let_def
        buffer_simps byte_simps legacy_response_frame_def kCodecOk_def)
qed

definition reply_message :: "bytes \<Rightarrow> ProtocolMessage" where
  "reply_message r = ProtocolMessage_init\<lparr>pm_body := r, pm_message_type := kResponse\<rparr>"

lemma SendRpcResponse_xrpc:
  assumes "SerializeResponse pb (response_header (reply_message r)) = Some h"
    and "frame_fits h (reply_message r)"
  shows "SendRpcResponse (XRpcServerCodec pb) (Some r) = [Send (xrpc_frame kResponse (reply_message r) h)]"
proof -
  have "unat (fh_total_size (frame_header kResponse (reply_message r) h)) \<le> kMaxFrameSize"
    using assms(2) by (simp add: frame_header_sizes frame_fits_def)
  with assms(1) show ?thesis
    by (simp add: SendRpcResponse_def reply_message_def [symmetric] XRpcServerCodec_def
        XRpcServer_ZeroCopyEncode_def Let_def buffer_simps write_frame_contents xrpc_frame_def)
qed

section \<open>Properties\<close>

text \<open>C4: a server on the new protocol is insensitive to how TCP cuts the byte stream: as long as it
  does not close the connection, delivering any bytes in any segments, however the frames straddle
  them, sends the same responses in the same order and leaves the same bytes waiting as delivering
  them at once.\<close>

theorem xrpc_server_segmentation:
  assumes "serverCodec s = Some (XRpcServerCodec pb)"
    and "Shutdown \<notin> set (snd (snd (receive pb s [] segs)))"
  shows "receive pb s [] segs = OnMessage pb s (concat segs)"
  using xrpc_server.receive_concat [OF assms(1) xrpc_server.check_bytes_Nil assms(2)] assms(1)
  by (simp add: OnMessage_codec)

text \<open>C5: a server on the legacy protocol that receives a stream of well-formed requests, cut into
  segments in any way, dispatches each request exactly once, in order, with its own service, method
  and body, and ends with an empty buffer.\<close>

theorem legacy_server_stream:
  assumes s: "serverCodec s = Some (LegacyServerCodec pb)"
    and wf: "\<forall>(h, body, rh) \<in> set reqs. 4 + length h + length body \<le> kMaxFrameSize
      \<and> ParseRpcHeader pb h = Some rh"
    and segs: "concat segs = concat (map (\<lambda>(h, body, rh). legacy_request_frame h body) reqs)"
      "segs \<noteq> []"
  shows "receive pb s [] segs = (s, [], concat (map (\<lambda>(h, body, rh).
      dispatch s (LegacyServerCodec pb)
        (ProtocolMessage_init\<lparr>pm_version := kLegacy, pm_service_name := rh_service_name rh,
           pm_method_name := rh_method_name rh, pm_args_size := rh_args_size rh, pm_body := body\<rparr>)) reqs))"
proof -
  let ?m = "\<lambda>(h :: bytes, body, rh). ProtocolMessage_init\<lparr>pm_version := kLegacy,
    pm_service_name := rh_service_name rh, pm_method_name := rh_method_name rh,
    pm_args_size := rh_args_size rh, pm_body := body\<rparr>"
  have "list_all2 (waiting_frame (LegacyServerCodec pb))
      (map (\<lambda>(h, body, rh). legacy_request_frame h body) reqs) (map ?m reqs)"
    using wf by (auto simp: list_all2_conv_all_nth all_set_conv_all_nth split: prod.splits
        intro!: legacy_waiting_frame)
  from legacy_server.receive_frames [OF s this, of "[]" segs] segs show ?thesis
    by (simp add: comp_def case_prod_unfold)
qed

text \<open>A published method is answered. After \<^verbatim>\<open>NotifyService\<close> of a service under a fresh name, a
  message that names the service and its \<open>i\<close>-th method and whose body parses is answered over the
  legacy protocol with exactly one frame, the serialised response of that method.\<close>

lemma registered_method_answered:
  assumes fresh: "map_of (service_map s) (svc_name svc) = None"
    and names: "distinct (svc_methods svc)" "i < length (svc_methods svc)"
    and msg: "pm_service_name msg = svc_name svc" "pm_method_name msg = svc_methods svc ! i"
    and call: "svc_parse_request svc i (pm_body msg) = Some req" "svc_call svc i req = Some resp"
      "svc_serialize svc resp = Some r" "length r < 2 ^ 32"
  shows "dispatch (NotifyService svc s) (LegacyServerCodec pb) msg = [Send (legacy_response_frame r)]"
  using assms
  by (simp add: dispatch_def NotifyService_def map_of_emplace map_of_methods SendRpcResponse_legacy)

text \<open>\<^verbatim>\<open>NotifyService\<close> never changes a service that is already published; a second service under
  a published name is silently ignored.\<close>

lemma notify_keeps_published:
  assumes "map_of (service_map s) name = Some info"
  shows "map_of (service_map (NotifyService svc s)) name = Some info
    \<and> (svc_name svc = name \<longrightarrow> NotifyService svc s = s)"
  using assms by (simp add: NotifyService_def map_of_emplace) (simp add: emplace_def)

text \<open>C38: the codec is a field of the server, not of the connection. Once the first message the
  server ever received has settled it, no client of the other protocol is served, although the two
  protocols are documented to be served on the same port at the same time: a client of the new protocol
  has its connection shut down on its first frame by a server on the legacy codec; a legacy client of a
  server on the new codec has its connection shut down when a complete frame is there with at least 16
  bytes received, and a complete frame of 8 to 15 bytes is kept waiting in the buffer without an
  answer.\<close>

theorem first_connection_fixes_protocol:
  assumes none: "serverCodec s = None"
    and first: "OnMessage pb s first_bytes = (s1, rest, evs)"
  shows "(\<not> starts_with_magic first_bytes \<longrightarrow>
      OnMessage pb s1 (xrpc_frame ty msg h @ tail) = (s1, xrpc_frame ty msg h @ tail, [Shutdown]))
    \<and> (starts_with_magic first_bytes \<and> 0 < LegacyServer_CheckAndPick (NoncontiguousBuffer_from other) \<longrightarrow>
      OnMessage pb s1 other = (s1, other, if 16 \<le> length other then [Shutdown] else []))"
proof -
  have codec: "serverCodec s1 = Some (if starts_with_magic first_bytes then XRpcServerCodec pb
      else LegacyServerCodec pb)"
    using none first
    by (auto simp: OnMessage_def CreateServerCodec_auto_contents split: prod.splits)
  have "check_bytes (LegacyServerCodec pb) (xrpc_frame ty msg h @ tail) < 0"
    using legacy_verdict_magic [OF starts_with_magic_xrpc_frame, of ty msg h tail]
    by (simp add: check_bytes_def LegacyServerCodec_def Legacy_check_contents kCodecOversized_def)
  moreover have "check_bytes (XRpcServerCodec pb) other < 0"
    if "0 < legacy_verdict other" "16 \<le> length other"
  proof -
    have "\<not> starts_with_magic other"
      using legacy_verdict_pos [OF that(1)] magic_as_length [of other] by auto
    then show ?thesis
      using that(2) xrpc_verdict_no_magic [of other]
      by (simp add: check_bytes_def XRpcServerCodec_def XRpc_check_contents kCodecInvalidMagic_def)
  qed
  moreover have "check_bytes (XRpcServerCodec pb) other = 0" if "length other < 16"
    using that by (simp add: check_bytes_def XRpcServerCodec_def XRpc_check_contents xrpc_verdict_def)
  moreover have "LegacyServer_CheckAndPick (NoncontiguousBuffer_from other) = legacy_verdict other"
    by (simp add: Legacy_check_contents)
  ultimately show ?thesis
    using codec by (auto simp: OnMessage_codec legacy_server.message_loop_reject
        xrpc_server.message_loop_reject xrpc_server.message_loop_incomplete)
qed

text \<open>The probe needs two bytes but does not wait for them. If the very first segment holds a
  single byte of a new-protocol frame, the server settles on the legacy codec and shuts the
  connection down when the rest of the frame arrives.\<close>

lemma one_byte_probe_misdetects:
  assumes "serverCodec s = None"
    and "xrpc_frame ty msg h = b # f"
  shows "snd (snd (receive pb s [] [[b], f])) = [Shutdown]"
proof -
  let ?s = "s\<lparr>serverCodec := Some (LegacyServerCodec pb)\<rparr>"
  have "\<not> starts_with_magic [b]"
    by (simp add: starts_with_magic_def)
  then have "OnMessage pb s [b] = (?s, [b], [])"
    using assms(1) legacy_server.message_loop_incomplete [of pb "[b]" s]
    by (simp add: OnMessage_def CreateServerCodec_auto_contents check_bytes_def LegacyServerCodec_def
        Legacy_check_contents legacy_verdict_def)
  moreover have "check_bytes (LegacyServerCodec pb) (b # f) < 0"
    using legacy_verdict_magic [of "b # f"] starts_with_magic_xrpc_frame [of ty msg h "[]"]
      length_xrpc_frame [of ty msg h]
    by (simp add: assms(2) check_bytes_def LegacyServerCodec_def Legacy_check_contents kCodecOversized_def)
  ultimately show ?thesis
    by (simp add: OnMessage_codec legacy_server.message_loop_reject)
qed

text \<open>C23: what a client reads in a new-protocol reply: the response bytes of the service arrive as the
  body, with return code 0; the request id and the stream id are always 0, whatever request is being
  answered, although the response header has a field for the id of the request.\<close>

theorem xrpc_reply_content:
  assumes ser: "SerializeResponse pb (response_header (reply_message r)) = Some h"
    and rt: "roundtrips (SerializeResponse pb) (ParseResponse pb) (response_header (reply_message r))"
    and fits: "frame_fits h (reply_message r)"
  shows "\<exists>f b' m'. SendRpcResponse (XRpcServerCodec pb) (Some r) = [Send f]
    \<and> XRpcClient_ZeroCopyDecode pb (NoncontiguousBuffer_from f) m = (kCodecOk, b', m')
    \<and> contents b' = [] \<and> pm_body m' = r \<and> pm_ret_code m' = 0
    \<and> pm_request_id m' = 0 \<and> pm_stream_id m' = 0"
  using SendRpcResponse_xrpc [OF ser fits]
    xrpc_response_decodes [OF ser rt fits, of "NoncontiguousBuffer_from
      (xrpc_frame kResponse (reply_message r) h)" "[]" m]
  by (auto simp: reply_message_def ProtocolMessage_init_def)

section \<open>Witnesses\<close>

definition echo_service :: "(bytes, bytes) Service" where
  "echo_service = \<lparr>svc_name = lit ''UserServiceRpc'', svc_methods = [lit ''Login'', lit ''Register''],
     svc_parse_request = (\<lambda>i b. Some b), svc_call = (\<lambda>i r. Some r), svc_serialize = Some\<rparr>"

definition sample_server :: "ServerCodec option \<Rightarrow> (bytes, bytes) RpcServer" where
  "sample_server c = (NotifyService echo_service RpcServer_init)\<lparr>serverCodec := c\<rparr>"

definition sample_rh :: RpcHeader where
  "sample_rh = rpc_header ClientContext_init sample_legacy_request"

lemma sample_server_codec [simp]: "serverCodec (sample_server c) = c"
  by (simp add: sample_server_def)

theorem xrpc_server_segmentation_witness:
  "receive (sample_legacy_pb []) (sample_server (Some (XRpcServerCodec (sample_legacy_pb [])))) []
      [[75], [82, 0]]
   = OnMessage (sample_legacy_pb []) (sample_server (Some (XRpcServerCodec (sample_legacy_pb []))))
      [75, 82, 0]"
proof -
  have "check_bytes (XRpcServerCodec pb) c = 0" if "length c < 16" for pb c
    using that by (simp add: check_bytes_def XRpcServerCodec_def XRpc_check_contents xrpc_verdict_def)
  then have "Shutdown \<notin> set (snd (snd (receive (sample_legacy_pb [])
      (sample_server (Some (XRpcServerCodec (sample_legacy_pb [])))) [] [[75], [82, 0]])))"
    by (simp add: OnMessage_codec xrpc_server.message_loop_incomplete)
  from xrpc_server_segmentation [OF _ this] show ?thesis by simp
qed

theorem legacy_server_stream_witness:
  "receive (sample_legacy_pb [10, 0]) (sample_server (Some (LegacyServerCodec (sample_legacy_pb [10, 0])))) []
      [take 5 (legacy_request_frame [10, 0] [7]), drop 5 (legacy_request_frame [10, 0] [7])]
   = (sample_server (Some (LegacyServerCodec (sample_legacy_pb [10, 0]))), [],
      dispatch (sample_server (Some (LegacyServerCodec (sample_legacy_pb [10, 0]))))
        (LegacyServerCodec (sample_legacy_pb [10, 0]))
        (ProtocolMessage_init\<lparr>pm_version := kLegacy, pm_service_name := rh_service_name sample_rh,
           pm_method_name := rh_method_name sample_rh, pm_args_size := rh_args_size sample_rh,
           pm_body := [7]\<rparr>))"
  using legacy_server_stream [of "sample_server (Some (LegacyServerCodec (sample_legacy_pb [10, 0])))"
      "sample_legacy_pb [10, 0]" "[([10, 0], [7], sample_rh)]"
      "[take 5 (legacy_request_frame [10, 0] [7]), drop 5 (legacy_request_frame [10, 0] [7])]"]
  by (simp add: kMaxFrameSize_def sample_rh_def)

theorem first_connection_fixes_protocol_witness:
  "OnMessage (sample_legacy_pb [])
      (fst (OnMessage (sample_legacy_pb []) (sample_server None) [0, 0, 0]))
      (xrpc_frame kRequest sample_request [8, 7])
   = (fst (OnMessage (sample_legacy_pb []) (sample_server None) [0, 0, 0]),
      xrpc_frame kRequest sample_request [8, 7], [Shutdown])
   \<and> OnMessage (sample_legacy_pb [])
      (fst (OnMessage (sample_legacy_pb []) (sample_server None) (xrpc_frame kRequest sample_request [8, 7])))
      (legacy_request_frame [] [])
     = (fst (OnMessage (sample_legacy_pb []) (sample_server None) (xrpc_frame kRequest sample_request [8, 7])),
        legacy_request_frame [] [], [])"
proof -
  obtain s2 r2 e2 where second: "OnMessage (sample_legacy_pb []) (sample_server None)
      (xrpc_frame kRequest sample_request [8, 7]) = (s2, r2, e2)"
    using prod_cases3 by blast
  have "starts_with_magic (xrpc_frame kRequest sample_request [8, 7])"
    using starts_with_magic_xrpc_frame [of _ _ _ "[]"] by simp
  moreover have "0 < LegacyServer_CheckAndPick (NoncontiguousBuffer_from (legacy_request_frame [] []))"
    using legacy_verdict_request [of "[]" "[]" "[]"] by (simp add: Legacy_check_contents kMaxFrameSize_def)
  moreover have "length (legacy_request_frame [] []) = 8"
    by simp
  moreover have "serverCodec (sample_server None) = None"
    by simp
  ultimately have kept: "OnMessage (sample_legacy_pb []) s2 (legacy_request_frame [] [])
      = (s2, legacy_request_frame [] [], [])"
    using first_connection_fixes_protocol [OF _ second, where other = "legacy_request_frame [] []"] by simp
  obtain s1 r e where first: "OnMessage (sample_legacy_pb []) (sample_server None) [0, 0, 0] = (s1, r, e)"
    by (cases "OnMessage (sample_legacy_pb []) (sample_server None) [0, 0, 0]") auto
  have "unat (be16 [0, 0]) \<noteq> unat kMagicNumber"
    by (simp add: unat_be16 kMagicNumber_def)
  then have "\<not> starts_with_magic [0, 0, 0]"
    by (auto simp: starts_with_magic_def)
  with first_connection_fixes_protocol [OF _ first, of kRequest sample_request "[8, 7]" "[]"] first
    second kept
  show ?thesis by simp
qed

theorem xrpc_reply_content_witness:
  "\<exists>f b' m'. SendRpcResponse (XRpcServerCodec (sample_pb (request_header ClientContext_init sample_request) []))
        (Some [16, 1]) = [Send f] \<and> pm_body m' = [16, 1] \<and> contents b' = []
     \<and> XRpcClient_ZeroCopyDecode (sample_pb (request_header ClientContext_init sample_request) [])
         (NoncontiguousBuffer_from f) ProtocolMessage_init = (kCodecOk, b', m')"
proof -
  have "reply_message [16, 1] = sample_response"
    by (simp add: reply_message_def sample_response_def ProtocolMessage_init_def)
  then show ?thesis
    using xrpc_reply_content [of "sample_pb (request_header ClientContext_init sample_request) []"
        "[16, 1]" "[8, 0]" ProtocolMessage_init]
    by (auto simp: frame_fits_def kMaxFrameSize_def)
qed

end
