(* ===== verification/Service_Registration.thy ===== *)
theory Service_Registration
  imports Rpc_Server Zookeeper_Client
begin

text \<open>
  \<^verbatim>\<open>RpcServer::Run\<close> of \<^verbatim>\<open>src/rpc/server.cc\<close>: the address from the configuration, the connection to
  ZooKeeper, and one persistent node per service and method with an ephemeral child that names this
  server. The hash maps are walked in the order of their association lists; the network loop that
  \<^verbatim>\<open>Run\<close> ends in is the value \<open>Serving\<close>.
\<close>

section \<open>Run\<close>

text \<open>\<^verbatim>\<open>sprintf(method_path_data, "%s:%d", ip.c_str(), port)\<close>, into an array of 128 bytes.\<close>

definition method_path_data :: "bytes \<Rightarrow> 32 word \<Rightarrow> bytes" where
  "method_path_data ip port = c_str ip @ lit '':'' @ dec_int (sint port)"

primrec publish_methods :: "'z zoo \<Rightarrow> bytes \<Rightarrow> bytes \<Rightarrow> 32 word \<Rightarrow> (bytes \<times> nat) list \<Rightarrow> 'z \<Rightarrow> zk_error + 'z" where
  "publish_methods zk service_path ip port [] z = Inr z"
| "publish_methods zk service_path ip port (mp # mps) z =
     (let method_path = service_path @ lit ''/'' @ fst mp;
          data = method_path_data ip port
      in if 128 \<le> length data then Inl Stack_overflow
         else case Create zk method_path None Persistent z of
                Inl e \<Rightarrow> Inl e
              | Inr z1 \<Rightarrow>
                  (case Create zk (method_path @ lit ''/'' @ data) (Some data) ZOO_EPHEMERAL z1 of
                     Inl e \<Rightarrow> Inl e
                   | Inr z2 \<Rightarrow> publish_methods zk service_path ip port mps z2))"

primrec publish_services :: "'z zoo \<Rightarrow> bytes \<Rightarrow> 32 word \<Rightarrow> (bytes \<times> ('req, 'resp) ServiceInfo) list
    \<Rightarrow> 'z \<Rightarrow> zk_error + 'z" where
  "publish_services zk ip port [] z = Inr z"
| "publish_services zk ip port (sp # sps) z =
     (let service_path = lit ''/'' @ fst sp
      in case Create zk service_path None Persistent z of
           Inl e \<Rightarrow> Inl e
         | Inr z1 \<Rightarrow>
             (case publish_methods zk service_path ip port (si_method_map (snd sp)) z1 of
                Inl e \<Rightarrow> Inl e
              | Inr z2 \<Rightarrow> publish_services zk ip port sps z2))"

datatype 'z run_result = Run_exit | Run_waiting | Run_failed zk_error | Serving bytes "16 word" 'z

definition Run :: "'z zoo \<Rightarrow> config_map \<Rightarrow> zoo_event list \<Rightarrow> ('req, 'resp) RpcServer \<Rightarrow> 'z \<Rightarrow> 'z run_result" where
  "Run zk cfg events s z =
     (let ip = Load cfg (lit ''rpcserverip'');
          port = atoi (c_str (Load cfg (lit ''rpcserverport'')))
      in case Start zk cfg events ZookeeperClient_init of
           Start_exit \<Rightarrow> Run_exit
         | Start_waiting _ \<Rightarrow> Run_waiting
         | Started _ \<Rightarrow>
             (case publish_services zk ip port (service_map s) z of
                Inl e \<Rightarrow> Run_failed e
              | Inr z' \<Rightarrow> Serving ip (ucast port) z'))"

section \<open>Publishing in a well-behaved ZooKeeper\<close>

text \<open>Services and methods with well-formed names: protobuf names are identifiers.\<close>

definition plain_services :: "('req, 'resp) RpcServer \<Rightarrow> bool" where
  "plain_services s \<longleftrightarrow> (\<forall>(sn, info) \<in> set (service_map s).
     plain_name sn \<and> (\<forall>(mn, i) \<in> set (si_method_map info). plain_name mn))"

lemma slash_neq [simp]: "slash \<noteq> 0" "0 \<noteq> slash"
  by (simp_all add: ch_def)

lemma plain_data:
  assumes "plain_text ip"
  shows "plain_name (method_path_data ip port)"
proof -
  have "32 \<le> x \<and> x < 127 \<and> x \<noteq> slash" if "x \<in> set (dec_int (sint port))" for x
    using dec_int_chars [OF that] by (auto simp: isdigit_def ch_def word_le_nat_alt word_less_nat_alt)
  then have "plain_text (method_path_data ip port)"
    using assms by (auto simp: plain_text_def method_path_data_def ch_def dest: set_c_str)
  moreover have "ch CHR '':'' \<in> set (method_path_data ip port)"
    by (simp add: method_path_data_def)
  then have "method_path_data ip port \<notin> {[], lit ''.'', lit ''..''}"
    by (auto simp: ch_def)
  ultimately show ?thesis
    by (simp add: plain_name_def)
qed

lemma method_path_data_not_Nil [simp]: "method_path_data ip port \<noteq> []"
  by (simp add: method_path_data_def)

text \<open>The nodes a server adds: one per service and method, and its address under each method.\<close>

definition method_nodes :: "bytes \<Rightarrow> bytes \<Rightarrow> (bytes \<times> nat) list \<Rightarrow> bytes set" where
  "method_nodes sp data mps = (\<Union>mp \<in> set mps. {sp @ slash # fst mp, sp @ slash # fst mp @ slash # data})"

definition service_nodes :: "bytes \<Rightarrow> (bytes \<times> ('req, 'resp) ServiceInfo) list \<Rightarrow> bytes set" where
  "service_nodes data sps =
     (\<Union>(sn, info) \<in> set sps. insert (slash # sn) (method_nodes (slash # sn) data (si_method_map info)))"

lemma method_nodes_simps [simp]:
  "method_nodes sp data [] = {}"
  "method_nodes sp data (mp # mps) =
     insert (sp @ slash # fst mp) (insert (sp @ slash # fst mp @ slash # data) (method_nodes sp data mps))"
  by (auto simp: method_nodes_def)

lemma service_nodes_simps [simp]:
  "service_nodes data [] = {}"
  "service_nodes data ((sn, info) # sps) =
     insert (slash # sn) (method_nodes (slash # sn) data (si_method_map info)) \<union> service_nodes data sps"
  by (auto simp: service_nodes_def)

text \<open>The paths under which something is created: they must not be ephemeral nodes. The addresses are
  one level deeper, so a server does not get in its own way.\<close>

definition route_paths :: "(bytes \<times> ('req, 'resp) ServiceInfo) list \<Rightarrow> bytes set" where
  "route_paths sps = (\<Union>(sn, info) \<in> set sps.
     insert (slash # sn) ((\<lambda>mp. (slash # sn) @ slash # fst mp) ` set (si_method_map info)))"

lemma publish_methods_tree:
  assumes "zk_tree zk nodes eph" "plain_text ip" "length (method_path_data ip port) < 128" "0 \<notin> set sp"
    and "sp \<noteq> [slash]" "sp \<in> R"
    and "sp \<in> nodes z" "eph z \<inter> R = {}"
    and "\<forall>mp \<in> set mps. plain_name (fst mp) \<and> sp @ slash # fst mp \<in> R
      \<and> (sp @ slash # fst mp) @ slash # method_path_data ip port \<notin> R"
  shows "\<exists>z'. publish_methods zk sp ip port mps z = Inr z'
    \<and> nodes z' = nodes z \<union> method_nodes sp (method_path_data ip port) mps \<and> eph z' \<inter> R = {}"
  using assms(7-9)
proof (induction mps arbitrary: z)
  case Nil
  then show ?case by simp
next
  case (Cons mp mps)
  let ?mp = "sp @ slash # fst mp" and ?data = "method_path_data ip port"
  have mp: "plain_name (fst mp)" "?mp \<in> R" "?mp @ slash # ?data \<notin> R"
    using Cons.prems(3) by simp_all
  have no: "0 \<notin> set ?mp" "?mp \<noteq> [slash]"
    using plain_nameD [OF mp(1)] assms(4) by (auto simp: ch_def append_eq_Cons_conv)
  obtain z1 where z1: "Create zk ?mp None Persistent z = Inr z1" "nodes z1 = insert ?mp (nodes z)"
      "eph z1 \<subseteq> eph z"
    using Create_tree [OF assms(1) _ mp(1) assms(4), of z None Persistent] Cons.prems(1,2) assms(5,6) by auto
  then have "?mp \<in> nodes z1 \<and> ?mp \<notin> eph z1 \<and> ?mp \<noteq> [slash]"
    using Cons.prems(2) mp(2) no(2) by auto
  then obtain z2 where z2: "Create zk (?mp @ slash # ?data) (Some ?data) ZOO_EPHEMERAL z1 = Inr z2"
      "nodes z2 = insert (?mp @ slash # ?data) (nodes z1)" "eph z2 \<subseteq> insert (?mp @ slash # ?data) (eph z1)"
    using Create_tree [OF assms(1) _ plain_data [OF assms(2)] no(1), of z1 port "Some ?data" ZOO_EPHEMERAL] by auto
  have "sp \<in> nodes z2" "eph z2 \<inter> R = {}"
    using Cons.prems(1,2) z1(2,3) z2(2,3) mp(3) by auto
  then obtain z' where "publish_methods zk sp ip port mps z2 = Inr z'"
      "nodes z' = nodes z2 \<union> method_nodes sp ?data mps" "eph z' \<inter> R = {}"
    using Cons.IH [of z2] Cons.prems(3) by auto
  with z1 z2 assms(3) show ?case
    by (auto simp: Let_def)
qed

lemma split_at_slash:
  "slash \<notin> set a \<Longrightarrow> slash \<notin> set b \<Longrightarrow> a @ slash # x = b @ slash # y \<longleftrightarrow> a = b \<and> x = y"
proof (induction a arbitrary: b)
  case Nil
  then show ?case by (cases b) auto
next
  case (Cons c a)
  then show ?case by (cases b) auto
qed

lemma no_slash_split: "slash \<notin> set b \<Longrightarrow> a @ slash # x \<noteq> b"
  by auto

lemma plain_servicesD:
  assumes "plain_services s" "(sn, info) \<in> set (service_map s)"
  shows "plain_name sn" and "(mn, i) \<in> set (si_method_map info) \<Longrightarrow> plain_name mn"
  using assms by (auto simp: plain_services_def)

lemma address_not_route:
  assumes "plain_services s" "slash \<notin> set sn" "slash \<notin> set mn"
  shows "((slash # sn) @ slash # mn) @ slash # c \<notin> route_paths (service_map s)"
proof
  assume "((slash # sn) @ slash # mn) @ slash # c \<in> route_paths (service_map s)"
  then obtain sn' info where svc: "(sn', info) \<in> set (service_map s)"
    and eq: "sn @ slash # (mn @ slash # c) = sn' \<or> (\<exists>mp \<in> set (si_method_map info). sn @ slash # (mn @ slash # c) = sn' @ slash # fst mp)"
    by (auto simp: route_paths_def)
  have "slash \<notin> set sn'" and no: "slash \<notin> set (fst mp)" if "mp \<in> set (si_method_map info)" for mp
    using plain_servicesD(1) [OF assms(1) svc] plain_servicesD(2) [OF assms(1) svc, of "fst mp" "snd mp"] that
    by (simp_all add: plain_nameD)
  moreover have "slash \<notin> set sn'"
    using plain_nameD [OF plain_servicesD(1) [OF assms(1) svc]] by simp
  ultimately show False
    using eq no_slash_split assms(2) by (auto simp: split_at_slash)
qed

lemma publish_services_tree:
  assumes "zk_tree zk nodes eph" "plain_text ip" "length (method_path_data ip port) < 128"
    and "plain_services s"
  shows "set sps \<subseteq> set (service_map s) \<Longrightarrow> eph z \<inter> route_paths (service_map s) = {} \<Longrightarrow>
    \<exists>z'. publish_services zk ip port sps z = Inr z'
    \<and> nodes z' = nodes z \<union> service_nodes (method_path_data ip port) sps
    \<and> eph z' \<inter> route_paths (service_map s) = {}"
proof (induction sps arbitrary: z)
  case Nil
  then show ?case by simp
next
  case (Cons sp sps)
  let ?R = "route_paths (service_map s)" and ?data = "method_path_data ip port"
  obtain sn info where sp: "sp = (sn, info)" by (cases sp)
  have svc: "(sn, info) \<in> set (service_map s)"
    using Cons.prems(1) by (simp add: sp)
  have sn: "plain_name sn" by (rule plain_servicesD(1) [OF assms(4) svc])
  have R: "slash # sn \<in> ?R" "(slash # sn) @ slash # fst mp \<in> ?R" if "mp \<in> set (si_method_map info)" for mp
    using svc that by (force simp: route_paths_def)+
  have R0: "slash # sn \<in> ?R"
    using svc by (force simp: route_paths_def)
  have methods: "\<forall>mp \<in> set (si_method_map info). plain_name (fst mp) \<and> (slash # sn) @ slash # fst mp \<in> ?R
      \<and> ((slash # sn) @ slash # fst mp) @ slash # ?data \<notin> ?R"
  proof
    fix mp assume mp: "mp \<in> set (si_method_map info)"
    have "plain_name (fst mp)"
      using plain_servicesD(2) [OF assms(4) svc, of "fst mp" "snd mp"] mp by simp
    then show "plain_name (fst mp) \<and> (slash # sn) @ slash # fst mp \<in> ?R
        \<and> ((slash # sn) @ slash # fst mp) @ slash # ?data \<notin> ?R"
      using R(2) [OF mp] address_not_route [OF assms(4), of sn "fst mp"] plain_nameD [OF sn] plain_nameD by blast
  qed
  obtain z1 where z1: "Create zk (slash # sn) None Persistent z = Inr z1"
      "nodes z1 = insert (slash # sn) (nodes z)" "eph z1 \<subseteq> eph z"
    using Create_tree [OF assms(1) _ sn, of "[]" z None Persistent] by auto
  have start: "0 \<notin> set (slash # sn)" "slash # sn \<noteq> [slash]" "slash # sn \<in> nodes z1" "eph z1 \<inter> ?R = {}"
    using plain_nameD [OF sn] z1(2,3) Cons.prems(2) by auto
  obtain z2 where z2: "publish_methods zk (slash # sn) ip port (si_method_map info) z1 = Inr z2"
      "nodes z2 = nodes z1 \<union> method_nodes (slash # sn) ?data (si_method_map info)" "eph z2 \<inter> ?R = {}"
    using publish_methods_tree [OF assms(1-3) start(1,2) R0 start(3,4) methods] by blast
  obtain z' where z': "publish_services zk ip port sps z2 = Inr z'"
      "nodes z' = nodes z2 \<union> service_nodes ?data sps" "eph z' \<inter> ?R = {}"
    using Cons.IH [OF _ z2(3)] Cons.prems(1) by auto
  from z1 z2 z' show ?case
    by (simp add: sp Let_def) blast
qed

text \<open>What a run leaves in ZooKeeper, and what a client then finds under a method.\<close>

lemma run_serves:
  assumes zk: "zk_tree zk nodes eph" "eph z \<inter> route_paths (service_map s) = {}"
    and start: "Start zk cfg events ZookeeperClient_init = Started client"
    and ip: "ip = Load cfg (lit ''rpcserverip'')" "port = atoi (c_str (Load cfg (lit ''rpcserverport'')))"
    and names: "plain_services s" "plain_text ip"
    and fits: "length (method_path_data ip port) < 128"
  shows "\<exists>z'. Run zk cfg events s z = Serving ip (ucast port) z'
    \<and> nodes z' = nodes z \<union> service_nodes (method_path_data ip port) (service_map s)"
proof -
  obtain z' where z': "publish_services zk ip port (service_map s) z = Inr z'"
      "nodes z' = nodes z \<union> service_nodes (method_path_data ip port) (service_map s)"
    using publish_services_tree [OF zk(1) names(2) fits names(1) order_refl zk(2)] by blast
  moreover have "Run zk cfg events s z = Serving ip (ucast port) z'"
    using z'(1) by (simp add: Run_def start Let_def ip del: lit_Cons)
  ultimately show ?thesis by blast
qed

lemma service_nodes_method:
  assumes "(sn, info) \<in> set sps" "(mn, i) \<in> set (si_method_map info)"
  shows "slash # sn @ slash # mn \<in> service_nodes data sps"
    and "(slash # sn @ slash # mn) @ slash # data \<in> service_nodes data sps"
  using assms by (force simp: service_nodes_def method_nodes_def)+

text \<open>Under a method this server adds its own address and nothing else.\<close>

lemma service_nodes_child:
  assumes "plain_services s" "slash \<notin> set sn" "slash \<notin> set mn"
    and "(slash # sn @ slash # mn) @ slash # c \<in> service_nodes data (service_map s)"
  shows "c = data"
proof -
  obtain sn' info where svc: "(sn', info) \<in> set (service_map s)"
    and mem: "slash # sn @ slash # mn @ slash # c \<in> insert (slash # sn') (method_nodes (slash # sn') data (si_method_map info))"
    using assms(4) by (auto simp: service_nodes_def)
  have plain: "slash \<notin> set sn'" "\<forall>(mn, i) \<in> set (si_method_map info). slash \<notin> set mn"
    using plain_servicesD [OF assms(1) svc] by (auto dest: plain_nameD)
  have "slash # sn @ slash # mn @ slash # c \<noteq> slash # sn'"
    using no_slash_split [OF plain(1)] by simp
  with mem obtain mp where mp: "mp \<in> set (si_method_map info)"
    and eq: "sn @ slash # (mn @ slash # c) = sn' @ slash # fst mp
      \<or> sn @ slash # (mn @ slash # c) = sn' @ slash # (fst mp @ slash # data)"
    by (auto simp: method_nodes_def)
  have "slash \<notin> set (fst mp)"
    using plain(2) mp by auto
  with eq assms(2,3) plain(1) show ?thesis
    using no_slash_split [of "fst mp" mn c] by (auto simp: split_at_slash)
qed

lemma run_lists_routes:
  assumes zk: "zk_tree zk nodes eph" "eph z \<inter> route_paths (service_map s) = {}"
    and start: "Start zk cfg events ZookeeperClient_init = Started client"
    and ip: "ip = Load cfg (lit ''rpcserverip'')" "port = atoi (c_str (Load cfg (lit ''rpcserverport'')))"
    and names: "plain_services s" "plain_text ip"
    and fits: "length (method_path_data ip port) < 128"
    and offered: "(sn, info) \<in> set (service_map s)" "(mn, i) \<in> set (si_method_map info)"
  shows "\<exists>z'. Run zk cfg events s z = Serving ip (ucast port) z'
    \<and> nodes z \<subseteq> nodes z'
    \<and> set (fst (GetChildren zk (slash # sn @ slash # mn) w z')) =
        insert (method_path_data ip port)
          (c_str ` {c. c \<noteq> [] \<and> slash \<notin> set c \<and> (slash # sn @ slash # mn) @ slash # c \<in> nodes z})"
proof -
  let ?data = "method_path_data ip port" and ?path = "slash # sn @ slash # mn"
  obtain z' where run: "Run zk cfg events s z = Serving ip (ucast port) z'"
    and z': "nodes z' = nodes z \<union> service_nodes ?data (service_map s)"
    using run_serves [OF zk start ip names fits] by blast
  have plain: "sn \<noteq> [] \<and> slash \<notin> set sn \<and> 0 \<notin> set sn" "mn \<noteq> [] \<and> slash \<notin> set mn \<and> 0 \<notin> set mn"
    using plain_nameD plain_servicesD [OF names(1) offered(1)] offered(2) by blast+
  have data: "slash \<notin> set ?data" "c_str ?data = ?data"
    using plain_nameD [OF plain_data [OF names(2), of port]] by (simp_all add: c_str_id)
  have kids: "{c. c \<noteq> [] \<and> slash \<notin> set c \<and> ?path @ slash # c \<in> nodes z'} =
      insert ?data {c. c \<noteq> [] \<and> slash \<notin> set c \<and> ?path @ slash # c \<in> nodes z}" (is "?L = insert _ ?R")
  proof (intro equalityI subsetI)
    fix c assume c: "c \<in> ?L"
    then have "?path @ slash # c \<in> nodes z \<or> c = ?data"
      using service_nodes_child [OF names(1), of sn mn c ?data] plain
      unfolding z' mem_Collect_eq Un_iff by metis
    with c show "c \<in> insert ?data ?R"
      unfolding mem_Collect_eq insert_iff by metis
  next
    fix c assume "c \<in> insert ?data ?R"
    with data(1) method_path_data_not_Nil [of ip port] service_nodes_method(2) [OF offered, of ?data] show "c \<in> ?L"
      unfolding z' mem_Collect_eq insert_iff Un_iff by metis
  qed
  have "0 \<notin> set ?path" "?path \<in> nodes z'" "?path \<noteq> [slash]"
    using plain service_nodes_method(1) [OF offered, of ?data] by (simp_all add: z')
  from GetChildren_tree [OF zk(1) this, of w] have "set (fst (GetChildren zk ?path w z')) =
      insert ?data (c_str ` {c. c \<noteq> [] \<and> slash \<notin> set c \<and> ?path @ slash # c \<in> nodes z})"
    by (simp only: kids image_insert data(2))
  with run z' show ?thesis by blast
qed

section \<open>Properties\<close>

text \<open>C18: a server that is connected to a working ZooKeeper announces everything it serves. With
  well-formed names and an address of printable characters without a slash that fits the array, and
  when none of the paths of its services and methods is taken by an ephemeral node, \<^verbatim>\<open>Run\<close> reaches the network
  loop on the configured address and keeps every node that was there, and a client that asks for
  the children of any method of any registered service finds \<^verbatim>\<open>ip:port\<close>, the servers that were
  listed before, and nothing else.\<close>

theorem run_publishes_routes:
  assumes zk: "zk_tree zk nodes eph" "eph z \<inter> route_paths (service_map s) = {}"
    and start: "Start zk cfg events ZookeeperClient_init = Started client"
    and ip: "ip = Load cfg (lit ''rpcserverip'')" "port = atoi (c_str (Load cfg (lit ''rpcserverport'')))"
    and names: "plain_services s" "plain_text ip"
    and fits: "length (method_path_data ip port) < 128"
    and offered: "(sn, info) \<in> set (service_map s)" "(mn, i) \<in> set (si_method_map info)"
  shows "\<exists>z'. Run zk cfg events s z = Serving ip (ucast port) z'
    \<and> nodes z \<subseteq> nodes z'
    \<and> set (fst (GetChildren zk (slash # sn @ slash # mn) w z')) =
        insert (method_path_data ip port)
          (c_str ` {c. c \<noteq> [] \<and> slash \<notin> set c \<and> (slash # sn @ slash # mn) @ slash # c \<in> nodes z})"
  by (rule run_lists_routes [OF assms])

section \<open>Witness\<close>

definition sample_config :: config_map where
  "sample_config = [lit ''rpcserverip'' \<mapsto> lit ''127.0.0.1'', lit ''rpcserverport'' \<mapsto> lit ''8000'']"

lemma sample_config_loads [simp]:
  "Load sample_config (lit ''rpcserverip'') = lit ''127.0.0.1''"
  "Load sample_config (lit ''rpcserverport'') = lit ''8000''"
  by (simp_all add: Load_def sample_config_def ch_def)

lemma sample_atoi: "atoi (c_str (lit ''8000'')) = 8000"
  by (simp add: c_str_id ch_def atoi_def strtol_def isspace_def isdigit_def digits_value_def)

lemma sample_port: "atoi (c_str (Load sample_config (lit ''rpcserverport''))) = 8000"
  by (simp only: sample_config_loads sample_atoi)

lemma sample_start: "Start list_zoo sample_config [ZOO_SESSION_EVENT ZOO_CONNECTED_STATE] ZookeeperClient_init
    = Started \<lparr>is_connected = True, m_zhandle = True\<rparr>"
  by (simp add: Start_def list_zoo_def session_event_def ZookeeperClient_init_def)

lemma sample_services: "service_map (sample_server None) = [(lit ''UserServiceRpc'',
    \<lparr>si_service = echo_service, si_method_map = [(lit ''Login'', 0), (lit ''Register'', 1)]\<rparr>)]"
  by (simp add: sample_server_def NotifyService_def RpcServer_init_def emplace_def echo_service_def ch_def)

lemma sample_plain: "plain_services (sample_server None)"
  by (simp add: plain_services_def sample_services plain_name_def plain_text_def ch_def)

lemma sample_fits: "length (method_path_data (lit ''127.0.0.1'') 8000) < 128"
  by (simp add: method_path_data_def c_str_id ch_def dec_int_def dec_nat.simps)

theorem run_publishes_routes_witness:
  "\<exists>z'. Run list_zoo sample_config [ZOO_SESSION_EVENT ZOO_CONNECTED_STATE] (sample_server None) []
       = Serving (lit ''127.0.0.1'') 8000 z'
     \<and> method_path_data (lit ''127.0.0.1'') 8000
         \<in> set (fst (GetChildren list_zoo (slash # lit ''UserServiceRpc'' @ slash # lit ''Login'') True z'))"
proof -
  have login: "(lit ''UserServiceRpc'',
      \<lparr>si_service = echo_service, si_method_map = [(lit ''Login'', 0), (lit ''Register'', 1)]\<rparr>)
      \<in> set (service_map (sample_server None))"
    by (simp add: sample_services)
  have "plain_text (lit ''127.0.0.1'')"
    by (simp add: plain_text_def ch_def)
  from run_publishes_routes [OF list_zoo_tree Int_empty_left sample_start sample_config_loads(1) [symmetric] sample_port [symmetric]
      sample_plain this sample_fits login, of "lit ''Login''" 0 "[]" True]
  show ?thesis by (auto simp: sample_port)
qed

end
