(* ===== verification/Service_Table.thy ===== *)
theory Service_Table
  imports Rpc_Server
begin

text \<open>
  What a server with any number of registered services holds and answers: the tables that
  \<^verbatim>\<open>NotifyService\<close> builds in \<^verbatim>\<open>src/rpc/server.cc\<close> are well formed, dispatch through them is a search in
  the list of services, and a legacy connection that carries several requests gets one answer each.
\<close>

section \<open>The tables\<close>

text \<open>Every entry is filed under the name of its service, names are unique, and a method name leads to
  the descriptor of that name.\<close>

definition method_table_ok :: "bytes list \<Rightarrow> (bytes \<times> nat) list \<Rightarrow> bool" where
  "method_table_ok names mm \<longleftrightarrow> distinct (map fst mm) \<and> fst ` set mm = set names
     \<and> (\<forall>(n, i) \<in> set mm. i < length names \<and> names ! i = n)"

definition service_table_ok :: "('req, 'resp) RpcServer \<Rightarrow> bool" where
  "service_table_ok s \<longleftrightarrow> distinct (map fst (service_map s))
     \<and> (\<forall>(n, info) \<in> set (service_map s). svc_name (si_service info) = n
          \<and> method_table_ok (svc_methods (si_service info)) (si_method_map info))"

lemma distinct_emplace: "distinct (map fst m) \<Longrightarrow> distinct (map fst (emplace k v m))"
  by (auto simp: emplace_def map_of_eq_None_iff)

lemma set_emplace: "set (emplace k v m) = (if map_of m k = None then insert (k, v) (set m) else set m)"
  by (auto simp: emplace_def)

lemma fst_set_emplace: "fst ` set (emplace k v m) = insert k (fst ` set m)"
  by (cases "map_of m k") (auto simp: set_emplace dest: map_of_SomeD intro: rev_image_eqI)

lemma register_methods_ok:
  assumes "distinct (map fst mm)" "\<forall>(n, i) \<in> set mm. i < length pre \<and> pre ! i = n"
  shows "distinct (map fst (register_methods (length pre) names mm))
    \<and> fst ` set (register_methods (length pre) names mm) = fst ` set mm \<union> set names
    \<and> (\<forall>(n, i) \<in> set (register_methods (length pre) names mm). i < length (pre @ names) \<and> (pre @ names) ! i = n)"
  using assms
proof (induction names arbitrary: pre mm)
  case Nil
  then show ?case by auto
next
  case (Cons a names)
  have "\<forall>(n, i) \<in> set (emplace a (length pre) mm). i < length (pre @ [a]) \<and> (pre @ [a]) ! i = n"
    using Cons.prems(2) by (auto simp: set_emplace nth_append)
  from Cons.IH [OF distinct_emplace [OF Cons.prems(1)] this] show ?case
    by (simp add: fst_set_emplace insert_commute)
qed

lemma method_table_of: "method_table_ok names (register_methods 0 names [])"
  using register_methods_ok [of "[]" "[]" names] by (simp add: method_table_ok_def)

lemma init_table_ok: "service_table_ok RpcServer_init"
  by (simp add: service_table_ok_def RpcServer_init_def)

lemma notify_table_ok: "service_table_ok s \<Longrightarrow> service_table_ok (NotifyService svc s)"
  by (auto simp: service_table_ok_def NotifyService_def distinct_emplace set_emplace method_table_of)

section \<open>Dispatch as a search\<close>

text \<open>The first service of that name and the first method of that name, without any table.\<close>

definition find_service :: "('req, 'resp) Service list \<Rightarrow> bytes \<Rightarrow> ('req, 'resp) Service option" where
  "find_service svcs n = find (\<lambda>svc. svc_name svc = n) svcs"

primrec find_method :: "bytes list \<Rightarrow> bytes \<Rightarrow> nat option" where
  "find_method [] n = None"
| "find_method (a # names) n = (if a = n then Some 0 else map_option Suc (find_method names n))"

definition answer :: "('req, 'resp) Service list \<Rightarrow> ServerCodec \<Rightarrow> ProtocolMessage \<Rightarrow> conn_event list" where
  "answer svcs codec msg =
     (case find_service svcs (pm_service_name msg) of
        None \<Rightarrow> []
      | Some svc \<Rightarrow>
          (case find_method (svc_methods svc) (pm_method_name msg) of
             None \<Rightarrow> []
           | Some i \<Rightarrow>
               (case Option.bind (svc_parse_request svc i (pm_body msg)) (svc_call svc i) of
                  None \<Rightarrow> []
                | Some response \<Rightarrow> SendRpcResponse codec (svc_serialize svc response))))"

lemma map_of_register:
  "map_of (register_methods k names mm) n =
     (case map_of mm n of None \<Rightarrow> map_option (\<lambda>i. k + i) (find_method names n) | Some i \<Rightarrow> Some i)"
proof (induction names arbitrary: k mm)
  case Nil
  then show ?case by (simp split: option.splits)
next
  case (Cons a names)
  have "map_option ((+) (Suc k)) x = map_option (\<lambda>i. Suc (k + i)) x" for x
    by (cases x) simp_all
  then show ?case
    by (auto simp: Cons.IH map_of_emplace option.map_comp comp_def split: option.splits)
qed

lemma map_of_services:
  "map_of (service_map (fold NotifyService svcs s)) n =
     (case map_of (service_map s) n of
        None \<Rightarrow> map_option (\<lambda>svc. \<lparr>si_service = svc, si_method_map = register_methods 0 (svc_methods svc) []\<rparr>)
          (find_service svcs n)
      | Some info \<Rightarrow> Some info)"
  by (induction svcs arbitrary: s)
    (auto simp: find_service_def NotifyService_def map_of_emplace split: option.splits)

section \<open>Several requests over one connection\<close>

text \<open>The bytes a server puts on a connection.\<close>

definition sent_bytes :: "conn_event list \<Rightarrow> bytes" where
  "sent_bytes evs = concat (map (\<lambda>ev. case ev of Send bs \<Rightarrow> bs | Shutdown \<Rightarrow> []) evs)"

lemma sent_bytes_Send [simp]:
  "sent_bytes [Send bs] = bs" "sent_bytes (replicate n (Send bs)) = concat (replicate n bs)"
  by (simp_all add: sent_bytes_def)

text \<open>A prefix of a stream of legacy frames within the limit is never taken for the new protocol.\<close>

lemma legacy_frame_no_magic:
  assumes "4 + length h + length body \<le> kMaxFrameSize" "legacy_request_frame h body @ more_bytes = p @ q"
  shows "\<not> starts_with_magic p"
proof
  assume "starts_with_magic p"
  then have "starts_with_magic (legacy_request_frame h body @ more_bytes)"
    by (simp add: assms(2) starts_with_magic_append)
  then have "kMaxFrameSize < unat (be32 (take 4 (legacy_request_frame h body @ more_bytes)))"
    by (rule magic_as_length) simp
  with assms(1) show False
    by (simp add: legacy_request_frame_def byte_simps unat_of_nat_small del: of_nat_add)
qed

text \<open>A server that has not seen a message behaves on such bytes like one that is on the legacy protocol.\<close>

lemma receive_detects_legacy:
  assumes "serverCodec s = None" "\<not> starts_with_magic seg"
  shows "receive pb s [] (seg # segs) = receive pb (s\<lparr>serverCodec := Some (LegacyServerCodec pb)\<rparr>) [] (seg # segs)"
  using assms by (simp add: OnMessage_def CreateServerCodec_auto_contents)

definition legacy_message :: "RpcHeader \<Rightarrow> bytes \<Rightarrow> ProtocolMessage" where
  "legacy_message rh body = ProtocolMessage_init\<lparr>pm_version := kLegacy, pm_service_name := rh_service_name rh,
     pm_method_name := rh_method_name rh, pm_args_size := rh_args_size rh, pm_body := body\<rparr>"

lemma receive_requests:
  assumes codec: "serverCodec s = None \<or> serverCodec s = Some (LegacyServerCodec pb)"
    and wf: "\<forall>(h, body, rh) \<in> set reqs. 4 + length h + length body \<le> kMaxFrameSize \<and> ParseRpcHeader pb h = Some rh"
    and segs: "concat segs = concat (map (\<lambda>(h, body, rh). legacy_request_frame h body) reqs)" "segs \<noteq> []" "reqs \<noteq> []"
  shows "snd (snd (receive pb s [] segs)) =
    concat (map (\<lambda>(h, body, rh). dispatch s (LegacyServerCodec pb) (legacy_message rh body)) reqs)"
proof -
  let ?s = "s\<lparr>serverCodec := Some (LegacyServerCodec pb)\<rparr>"
  obtain seg rest where s: "segs = seg # rest"
    using segs(2) by (cases segs) auto
  obtain h body rh reqs' where r: "reqs = (h, body, rh) # reqs'"
    using segs(3) by (cases reqs) auto
  have "\<not> starts_with_magic seg"
    using legacy_frame_no_magic [of h body _ seg "concat rest"] wf segs(1) by (auto simp: s r)
  moreover have "?s = s" if "serverCodec s = Some (LegacyServerCodec pb)"
    using that by (cases s) simp
  ultimately have eq: "receive pb s [] segs = receive pb ?s [] segs"
    using codec receive_detects_legacy [of s seg pb rest] unfolding s by metis
  have "list_all2 (waiting_frame (LegacyServerCodec pb)) (map (\<lambda>(h, body, rh). legacy_request_frame h body) reqs)
      (map (\<lambda>(h, body, rh). legacy_message rh body) reqs)"
    using wf by (auto simp: list_all2_conv_all_nth all_set_conv_all_nth legacy_message_def split: prod.splits
        intro!: legacy_waiting_frame)
  from legacy_server.receive_frames [OF _ this, of ?s "[]" segs] segs show ?thesis
    by (simp add: eq comp_def case_prod_unfold)
qed

text \<open>What a server answers to requests for a method it has published.\<close>

lemma legacy_served_all:
  assumes header: "hdr = \<lparr>rh_service_name = svc_name svc, rh_method_name = svc_methods svc ! i,
        rh_args_size = word_of_nat (length args)\<rparr>"
      "ParseRpcHeader pb h = Some hdr" "4 + length h + length args \<le> kMaxFrameSize"
    and server: "map_of (service_map srv) (svc_name svc) = None" "distinct (svc_methods svc)"
      "i < length (svc_methods svc)" "serverCodec srv = None \<or> serverCodec srv = Some (LegacyServerCodec pb)"
    and service: "svc_parse_request svc i args = Some req" "svc_call svc i req = Some resp"
      "svc_serialize svc resp = Some body" "length body \<le> kMaxFrameSize"
    and there: "concat segs = concat (replicate n (legacy_request_frame h args))" "segs \<noteq> []" "n \<noteq> 0"
  shows "snd (snd (receive pb (NotifyService svc srv) [] segs)) = replicate n (Send (legacy_response_frame body))"
proof -
  have "length body < 2 ^ 32"
    using service(4) by (simp add: kMaxFrameSize_def)
  then have "dispatch (NotifyService svc srv) (LegacyServerCodec pb) (legacy_message hdr args)
      = [Send (legacy_response_frame body)]"
    using server service
    by (simp add: header(1) legacy_message_def dispatch_def NotifyService_def map_of_emplace map_of_methods SendRpcResponse_legacy)
  moreover have "serverCodec (NotifyService svc srv) = serverCodec srv"
    by (simp add: NotifyService_def)
  moreover have "concat (replicate n [x]) = replicate n x" for x :: conn_event
    by (induction n) simp_all
  ultimately show ?thesis
    using receive_requests [of "NotifyService svc srv" pb "replicate n (h, args, hdr)" segs] header(2,3) there server(4)
    by simp
qed

lemma legacy_served:
  assumes "hdr = \<lparr>rh_service_name = svc_name svc, rh_method_name = svc_methods svc ! i,
        rh_args_size = word_of_nat (length args)\<rparr>"
      "ParseRpcHeader pb h = Some hdr" "4 + length h + length args \<le> kMaxFrameSize"
    and "map_of (service_map srv) (svc_name svc) = None" "distinct (svc_methods svc)"
      "i < length (svc_methods svc)" "serverCodec srv = None \<or> serverCodec srv = Some (LegacyServerCodec pb)"
    and "svc_parse_request svc i args = Some req" "svc_call svc i req = Some resp"
      "svc_serialize svc resp = Some body" "length body \<le> kMaxFrameSize"
    and "concat segs = legacy_request_frame h args" "segs \<noteq> []"
  shows "snd (snd (receive pb (NotifyService svc srv) [] segs)) = [Send (legacy_response_frame body)]"
  using legacy_served_all [OF assms(1-11), of segs 1] assms(12,13) by simp

section \<open>Properties\<close>

text \<open>C30: registration keeps the tables well formed. Whatever services are registered in whatever order,
  also several under one name, the tables of the server stay well formed: unique names, every service
  under its own name, exactly the methods of the service in its table, and each method name with the
  index of a descriptor of that name.\<close>

theorem service_table_well_formed:
  assumes "service_table_ok s"
  shows "service_table_ok (fold NotifyService svcs s)"
  using assms by (induction svcs arbitrary: s) (simp_all add: notify_table_ok)

text \<open>C11: dispatch refines a search in the list of services. After any registrations on a fresh server,
  a message is answered by the first service registered under its service name, through the first
  method of its method name, and not at all when there is none, when the arguments do not parse or
  when the service does not complete; later services of the same name are never called.\<close>

theorem dispatch_refines_answer:
  "dispatch (fold NotifyService svcs RpcServer_init) codec msg = answer svcs codec msg"
  by (auto simp: dispatch_def answer_def map_of_services map_of_register RpcServer_init_def comp_def
      split: option.splits)

section \<open>Witness\<close>

theorem service_table_well_formed_witness:
  "service_table_ok (fold NotifyService [echo_service, echo_service] RpcServer_init)"
  by (rule service_table_well_formed) (rule init_table_ok)

end
