(* ===== verification/User_Service.thy ===== *)
theory User_Service
  imports Service_Registration Service_Table
begin

text \<open>
  The example service of \<^verbatim>\<open>example/callee/server.cc\<close> and its program. The messages are those of
  \<^verbatim>\<open>example/user.proto\<close>; the classes generated from it are the parameter \<open>user_pb\<close>.
\<close>

section \<open>Messages\<close>

record ResultCode =
  errcode :: "32 word"
  errmsg :: bytes

record LoginRequest =
  lq_name :: bytes
  lq_pwd :: bytes

record LoginResponse =
  lp_result :: ResultCode
  lp_success :: bool

record RegisterRequest =
  gq_id :: "32 word"
  gq_name :: bytes
  gq_pwd :: bytes

record RegisterResponse =
  gp_result :: ResultCode
  gp_success :: bool

definition LoginResponse_init :: LoginResponse where
  "LoginResponse_init = \<lparr>lp_result = \<lparr>errcode = 0, errmsg = []\<rparr>, lp_success = False\<rparr>"

definition RegisterResponse_init :: RegisterResponse where
  "RegisterResponse_init = \<lparr>gp_result = \<lparr>errcode = 0, errmsg = []\<rparr>, gp_success = False\<rparr>"

record user_pb =
  ParseLoginRequest :: "bytes \<Rightarrow> LoginRequest option"
  SerializeLoginRequest :: "LoginRequest \<Rightarrow> bytes option"
  ParseLoginResponse :: "bytes \<Rightarrow> LoginResponse option"
  SerializeLoginResponse :: "LoginResponse \<Rightarrow> bytes option"
  ParseRegisterRequest :: "bytes \<Rightarrow> RegisterRequest option"
  SerializeRegisterResponse :: "RegisterResponse \<Rightarrow> bytes option"

section \<open>The service\<close>

text \<open>The local operations only print their arguments.\<close>

definition local_Login :: "bytes \<Rightarrow> bytes \<Rightarrow> bool" where
  "local_Login name pwd = True"

definition local_Register :: "32 word \<Rightarrow> bytes \<Rightarrow> bytes \<Rightarrow> bool" where
  "local_Register uid name pwd = True"

definition UserService_Login :: "LoginRequest \<Rightarrow> LoginResponse \<Rightarrow> LoginResponse" where
  "UserService_Login request response =
     (let name = lq_name request; pwd = lq_pwd request;
          login_result = local_Login name pwd
      in response\<lparr>lp_result := (lp_result response)\<lparr>errcode := 0, errmsg := []\<rparr>, lp_success := login_result\<rparr>)"

definition UserService_Register :: "RegisterRequest \<Rightarrow> RegisterResponse \<Rightarrow> RegisterResponse" where
  "UserService_Register request response =
     (let register_result = local_Register (gq_id request) (gq_name request) (gq_pwd request)
      in response\<lparr>gp_result := (gp_result response)\<lparr>errcode := 0, errmsg := []\<rparr>, gp_success := register_result\<rparr>)"

text \<open>The service object as the server sees it: methods by index, messages by their base class. Both
  operations run the \<^verbatim>\<open>done\<close> closure.\<close>

datatype user_request = Login_request LoginRequest | Register_request RegisterRequest

datatype user_response = Login_response LoginResponse | Register_response RegisterResponse

definition UserService :: "user_pb \<Rightarrow> (user_request, user_response) Service" where
  "UserService up =
     \<lparr>svc_name = lit ''UserServiceRpc'', svc_methods = [lit ''Login'', lit ''Register''],
      svc_parse_request = (\<lambda>i bs.
        if i = 0 then map_option Login_request (ParseLoginRequest up bs)
        else map_option Register_request (ParseRegisterRequest up bs)),
      svc_call = (\<lambda>i req. case req of
          Login_request r \<Rightarrow> Some (Login_response (UserService_Login r LoginResponse_init))
        | Register_request r \<Rightarrow> Some (Register_response (UserService_Register r RegisterResponse_init))),
      svc_serialize = (\<lambda>resp. case resp of
          Login_response r \<Rightarrow> SerializeLoginResponse up r
        | Register_response r \<Rightarrow> SerializeRegisterResponse up r)\<rparr>"

section \<open>The program\<close>

definition callee_main :: "user_pb \<Rightarrow> file_system \<Rightarrow> bytes list \<Rightarrow> 'z zoo \<Rightarrow> zoo_event list \<Rightarrow> 'z \<Rightarrow> 'z run_result" where
  "callee_main up fs argv zk events z =
     (case Application_Init fs argv Map.empty of
        None \<Rightarrow> Run_exit
      | Some cfg \<Rightarrow> Run zk cfg events (NotifyService (UserService up) RpcServer_init) z)"

section \<open>Lemmas\<close>

abbreviation login_names :: "bytes \<times> bytes" where
  "login_names \<equiv> (lit ''UserServiceRpc'', lit ''Login'')"

definition login_ok :: LoginResponse where
  "login_ok = \<lparr>lp_result = \<lparr>errcode = 0, errmsg = []\<rparr>, lp_success = True\<rparr>"

lemma UserService_Login_ok [simp]: "UserService_Login r LoginResponse_init = login_ok"
  by (simp add: UserService_Login_def local_Login_def login_ok_def LoginResponse_init_def)

lemma user_service_simps [simp]:
  "svc_name (UserService up) = lit ''UserServiceRpc''"
  "svc_methods (UserService up) = [lit ''Login'', lit ''Register'']"
  "svc_parse_request (UserService up) 0 bs = map_option Login_request (ParseLoginRequest up bs)"
  "svc_call (UserService up) i (Login_request r) = Some (Login_response login_ok)"
  "svc_serialize (UserService up) (Login_response resp) = SerializeLoginResponse up resp"
  by (simp_all add: UserService_def)

lemma user_methods_distinct: "distinct (svc_methods (UserService up))"
  by (simp add: ch_def)

definition user_info :: "user_pb \<Rightarrow> (user_request, user_response) ServiceInfo" where
  "user_info up = \<lparr>si_service = UserService up, si_method_map = [(lit ''Login'', 0), (lit ''Register'', 1)]\<rparr>"

lemma user_server_map:
  "service_map (NotifyService (UserService up) RpcServer_init) = [(lit ''UserServiceRpc'', user_info up)]"
  by (simp add: NotifyService_def RpcServer_init_def emplace_def user_info_def ch_def)

lemma user_server_plain: "plain_services (NotifyService (UserService up) RpcServer_init)"
  by (simp add: plain_services_def user_server_map user_info_def plain_name_def plain_text_def ch_def)

text \<open>What the program leaves in ZooKeeper.\<close>

lemma callee_main_serves:
  assumes "zk_tree zk nodes eph" "Application_Init fs argv Map.empty = Some cfg"
    and "Start zk cfg events ZookeeperClient_init = Started client"
    and "ip = Load cfg (lit ''rpcserverip'')" "port = atoi (c_str (Load cfg (lit ''rpcserverport'')))"
    and "plain_text ip" "length (method_path_data ip port) < 128"
    and "(mn, i) \<in> set (si_method_map (user_info up))"
    and "eph z \<inter> route_paths [(lit ''UserServiceRpc'', user_info up)] = {}"
  shows "\<exists>z'. callee_main up fs argv zk events z = Serving ip (ucast port) z'
    \<and> nodes z \<subseteq> nodes z'
    \<and> set (fst (GetChildren zk (slash # lit ''UserServiceRpc'' @ slash # mn) w z')) =
        insert (method_path_data ip port) (c_str ` {c. c \<noteq> [] \<and> slash \<notin> set c
          \<and> (slash # lit ''UserServiceRpc'' @ slash # mn) @ slash # c \<in> nodes z})"
proof -
  have offered: "(lit ''UserServiceRpc'', user_info up) \<in> set (service_map (NotifyService (UserService up) RpcServer_init))"
    by (simp add: user_server_map)
  have "eph z \<inter> route_paths (service_map (NotifyService (UserService up) RpcServer_init)) = {}"
    using assms(9) by (simp only: user_server_map)
  from run_lists_routes [OF assms(1) this assms(3-5) user_server_plain assms(6,7) offered assms(8), of w]
  show ?thesis
    using assms(2) by (simp only: callee_main_def option.case)
qed

end
