(* ===== verification/Example_Client.thy ===== *)
theory Example_Client
  imports Channel_Calls User_Service
begin

text \<open>
  The loops of the two example clients, \<^verbatim>\<open>example/caller/client.cc\<close> and \<^verbatim>\<open>example/caller/bench_client.cc\<close>:
  each thread calls \<^verbatim>\<open>Login\<close> over a channel of its own and adds to two shared atomic counters. A model
  function runs one thread and gives what it adds; additions of several threads commute. The result
  object of a failed call is kept, since it is only read when the controller has not failed.
\<close>

section \<open>One thread\<close>

text \<open>The generated stub calls the channel with the descriptor of \<^verbatim>\<open>Login\<close>.\<close>

definition login_request :: LoginRequest where
  "login_request = \<lparr>lq_name = lit ''zhangsan'', lq_pwd = lit ''123456''\<rparr>"

definition stub_Login :: "user_pb \<Rightarrow> 'z zoo \<Rightarrow> LoginResponse \<Rightarrow> 'z call_state \<Rightarrow> (LoginResponse, 'z) res" where
  "stub_Login up zk response s =
     (case CallMethod zk login_names (SerializeLoginRequest up login_request) (ParseLoginResponse up) s of
        Ok r s' \<Rightarrow> Ok r s'
      | Return s' \<Rightarrow> Ok response s'
      | Abort e \<Rightarrow> Abort e)"

type_synonym counters = "nat \<times> nat"

fun tally :: "Controller \<Rightarrow> LoginResponse \<Rightarrow> counters \<Rightarrow> counters" where
  "tally c response (success_count, fail_count) =
     (if Failed c then (success_count, Suc fail_count)
      else if errcode (lp_result response) = 0 then (Suc success_count, fail_count)
      else (success_count, Suc fail_count))"

primrec send_request :: "user_pb \<Rightarrow> 'z zoo \<Rightarrow> nat \<Rightarrow> LoginResponse \<Rightarrow> counters \<Rightarrow> 'z call_state
    \<Rightarrow> (counters, 'z) res" where
  "send_request up zk 0 response cnt s = Ok cnt s"
| "send_request up zk (Suc n) response cnt s =
     and_then (stub_Login up zk response s) (\<lambda>response' s'.
       send_request up zk n response' (tally (ctl s') response' cnt) s')"

text \<open>The second client resets the controller and the response after every call.\<close>

primrec bench_worker :: "user_pb \<Rightarrow> 'z zoo \<Rightarrow> nat \<Rightarrow> LoginResponse \<Rightarrow> counters \<Rightarrow> 'z call_state
    \<Rightarrow> (counters, 'z) res" where
  "bench_worker up zk 0 response cnt s = Ok cnt s"
| "bench_worker up zk (Suc n) response cnt s =
     and_then (stub_Login up zk response s) (\<lambda>response' s'.
       bench_worker up zk n LoginResponse_init (tally (ctl s') response' cnt)
         (s'\<lparr>ctl := Controller_Reset (ctl s')\<rparr>))"

text \<open>A thread with its channel. The first client makes a channel without an address, which no one
  deletes; the second connects its channel at once and destroys it at the end.\<close>

definition client_thread :: "protobuf \<Rightarrow> user_pb \<Rightarrow> 'z zoo \<Rightarrow> 16 word \<Rightarrow> nat \<Rightarrow> 'z world \<Rightarrow> (counters, 'z) res" where
  "client_thread pb up zk garbage requests_per_thread w =
     and_then (RpcChannel_ctor pb garbage False False w) (\<lambda>_ s.
       send_request up zk requests_per_thread LoginResponse_init (0, 0) s)"

definition bench_thread :: "protobuf \<Rightarrow> user_pb \<Rightarrow> 'z zoo \<Rightarrow> bytes \<Rightarrow> 16 word \<Rightarrow> nat \<Rightarrow> 'z world \<Rightarrow> (counters, 'z) res" where
  "bench_thread pb up zk server_ip server_port calls_per_thread w =
     and_then (RpcChannel_direct pb server_ip server_port False w) (\<lambda>_ s.
       and_then (bench_worker up zk calls_per_thread LoginResponse_init (0, 0) s)
         (\<lambda>cnt s'. Ok cnt (RpcChannel_destroy s')))"

section \<open>Counting\<close>

lemma tally_add: "fst (tally c r cnt) + snd (tally c r cnt) = Suc (fst cnt + snd cnt)"
  by (cases cnt) simp

lemma send_request_counts:
  "send_request up zk n resp cnt s = Ok cnt' s' \<Longrightarrow> fst cnt' + snd cnt' = fst cnt + snd cnt + n"
proof (induction n arbitrary: resp cnt s)
  case (Suc n)
  then show ?case
    by (cases "stub_Login up zk resp s") (auto simp: tally_add)
qed simp

lemma bench_worker_counts:
  "bench_worker up zk n resp cnt s = Ok cnt' s' \<Longrightarrow> fst cnt' + snd cnt' = fst cnt + snd cnt + n"
proof (induction n arbitrary: resp cnt s)
  case (Suc n)
  then show ?case
    by (cases "stub_Login up zk resp s") (auto simp: tally_add)
qed simp

text \<open>A controller that has failed stays so through every call.\<close>

interpretation sticky: channel_logic zk "\<lambda>s. Failed (ctl s)" "\<lambda>s. Failed (ctl s)" "\<lambda>s. Failed (ctl s)"
  "\<lambda>s. Failed (ctl s)" for zk
  by unfold_locales
    (auto simp: step_defs newConnect_def Let_def split: list.splits connect_outcome.splits)

lemma stub_sticky:
  assumes "Failed (ctl s)" "stub_Login up zk resp s = Ok r s'"
  shows "Failed (ctl s')"
proof -
  let ?r = "CallMethod zk login_names (SerializeLoginRequest up login_request) (ParseLoginResponse up) s"
  show ?thesis
  proof (cases ?r)
    case (Ok a t)
    with assms sticky.whole.call_ok [OF assms(1) Ok] show ?thesis
      by (auto simp: stub_Login_def record_stage_def)
  next
    case (Return t)
    with assms sticky.whole.call_return [OF assms(1) Return] show ?thesis
      by (auto simp: stub_Login_def record_stage_def)
  qed (use assms(2) in \<open>auto simp: stub_Login_def\<close>)
qed

lemma send_request_sticky:
  "Failed (ctl s) \<Longrightarrow> send_request up zk n resp cnt s = Ok cnt' s' \<Longrightarrow> cnt' = (fst cnt, snd cnt + n)"
proof (induction n arbitrary: resp cnt s)
  case (Suc n)
  obtain r t where t: "stub_Login up zk resp s = Ok r t" "send_request up zk n r (tally (ctl t) r cnt) t = Ok cnt' s'"
    using Suc.prems(2) by (cases "stub_Login up zk resp s") auto
  then have "Failed (ctl t)"
    using stub_sticky Suc.prems(1) by blast
  with Suc.IH [OF this t(2)] show ?case
    by (cases cnt) simp
qed (cases cnt, simp)

section \<open>What the calls came to\<close>

text \<open>The results of the calls one after the other, each with a fresh controller: whether it returned a
  response that reports success. \<open>None\<close> when a call does not return.\<close>

primrec login_outcomes :: "user_pb \<Rightarrow> 'z zoo \<Rightarrow> nat \<Rightarrow> 'z call_state \<Rightarrow> bool list option" where
  "login_outcomes up zk 0 s = Some []"
| "login_outcomes up zk (Suc n) s =
     (case CallMethod zk login_names (SerializeLoginRequest up login_request) (ParseLoginResponse up) s of
        Ok r s' \<Rightarrow> map_option ((#) (errcode (lp_result r) = 0))
          (login_outcomes up zk n (s'\<lparr>ctl := Controller_init\<rparr>))
      | Return s' \<Rightarrow> map_option ((#) False) (login_outcomes up zk n (s'\<lparr>ctl := Controller_init\<rparr>))
      | Abort e \<Rightarrow> None)"

text \<open>The same for a loop that keeps its controller: \<open>None\<close> for a call that left early, and otherwise
  whether the response reports success.\<close>

primrec login_results :: "user_pb \<Rightarrow> 'z zoo \<Rightarrow> nat \<Rightarrow> 'z call_state \<Rightarrow> bool option list option" where
  "login_results up zk 0 s = Some []"
| "login_results up zk (Suc n) s =
     (case CallMethod zk login_names (SerializeLoginRequest up login_request) (ParseLoginResponse up) s of
        Ok r s' \<Rightarrow> map_option ((#) (Some (errcode (lp_result r) = 0))) (login_results up zk n s')
      | Return s' \<Rightarrow> map_option ((#) None) (login_results up zk n s')
      | Abort e \<Rightarrow> None)"

text \<open>The counts of \<^verbatim>\<open>client.cc\<close>: successes stop at the first call that left early.\<close>

definition sticky_counts :: "bool \<Rightarrow> bool option list \<Rightarrow> counters \<Rightarrow> counters" where
  "sticky_counts failed rs cnt = (if failed then (fst cnt, snd cnt + length rs)
     else (fst cnt + count_list (takeWhile (\<lambda>r. r \<noteq> None) rs) (Some True),
           snd cnt + count_list (takeWhile (\<lambda>r. r \<noteq> None) rs) (Some False)
             + length (dropWhile (\<lambda>r. r \<noteq> None) rs)))"

lemma call_controller:
  "CallMethod zk mth request parse s = Ok r s' \<Longrightarrow> ctl s' = ctl s"
  "CallMethod zk mth request parse s = Return s' \<Longrightarrow> Failed (ctl s')"
  using report.whole.call_ok [OF refl, of zk mth request parse s r s']
    report.whole.call_return [OF refl, of zk mth request parse s s']
  by (auto simp: record_stage_def)

lemma send_request_results:
  "case login_results up zk n s of
     None \<Rightarrow> \<exists>e. send_request up zk n resp cnt s = Abort e
   | Some rs \<Rightarrow> \<exists>s'. send_request up zk n resp cnt s = Ok (sticky_counts (Failed (ctl s)) rs cnt) s'"
proof (induction n arbitrary: s resp cnt)
  case 0
  then show ?case by (simp add: sticky_counts_def)
next
  case (Suc n)
  show ?case
  proof (cases "CallMethod zk login_names (SerializeLoginRequest up login_request) (ParseLoginResponse up) s")
    case (Ok r t)
    have "ctl t = ctl s" using call_controller(1) [OF Ok] .
    with Ok Suc.IH [where s = t and resp = r and cnt = "tally (ctl t) r cnt"] show ?thesis
      by (cases "login_results up zk n t"; cases cnt)
        (auto simp: stub_Login_def sticky_counts_def simp del: lit_Cons)
  next
    case (Return t)
    have "Failed (ctl t)" using call_controller(2) [OF Return] .
    with Return Suc.IH [where s = t and resp = resp and cnt = "tally (ctl t) resp cnt"] show ?thesis
      by (cases "login_results up zk n t"; cases cnt)
        (auto simp: stub_Login_def sticky_counts_def simp del: lit_Cons)
  next
    case (Abort e)
    then show ?thesis by (simp add: stub_Login_def del: lit_Cons)
  qed
qed

lemma login_results_length: "login_results up zk n s = Some rs \<Longrightarrow> length rs = n"
  by (induction n arbitrary: s rs) (auto split: res.splits)

lemma bench_worker_step:
  assumes "ctl s = Controller_init"
  shows "bench_worker up zk (Suc n) resp (a, b) s =
    (case CallMethod zk login_names (SerializeLoginRequest up login_request) (ParseLoginResponse up) s of
       Ok r s' \<Rightarrow> bench_worker up zk n LoginResponse_init
         (if errcode (lp_result r) = 0 then (Suc a, b) else (a, Suc b)) (s'\<lparr>ctl := Controller_init\<rparr>)
     | Return s' \<Rightarrow> bench_worker up zk n LoginResponse_init (a, Suc b) (s'\<lparr>ctl := Controller_init\<rparr>)
     | Abort e \<Rightarrow> Abort e)"
proof (cases "CallMethod zk login_names (SerializeLoginRequest up login_request) (ParseLoginResponse up) s")
  case (Ok r s')
  then have "ctl s' = Controller_init"
    using report.whole.call_ok [OF assms Ok] by (auto simp: record_stage_def)
  with Ok show ?thesis
    by (simp add: stub_Login_def)
next
  case (Return s')
  then have "Failed (ctl s')"
    using report.whole.call_return [OF assms Return] by (auto simp: record_stage_def)
  with Return show ?thesis
    by (simp add: stub_Login_def)
qed (simp add: stub_Login_def)

section \<open>Calls over an open connection\<close>

text \<open>A channel with an open legacy connection on which the kernel takes \<open>n\<close> more requests and \<open>n\<close>
  answers are under way.\<close>

definition login_ready :: "protobuf \<Rightarrow> bytes \<Rightarrow> bytes \<Rightarrow> bytes \<Rightarrow> nat \<Rightarrow> nat \<Rightarrow> 'z call_state \<Rightarrow> bool" where
  "login_ready pb h args body k n s \<longleftrightarrow>
     m_clientfd (chan s) \<noteq> -1 \<and> \<not> useXrpcProtocol (chan s) \<and> clientCodec (chan s) = LegacyClientCodec pb
     \<and> (rc_service_name (chan s) = [] \<or> (rc_service_name (chan s), rc_method_name (chan s)) = login_names)
     \<and> sends (wrld s) = replicate n (Some k) \<and> length (legacy_request_frame h args) \<le> k
     \<and> live_stream (incoming (wrld s))
     \<and> stream_bytes (incoming (wrld s)) = concat (replicate n (legacy_response_frame body))"

text \<open>The messages of a login: the request with its header, and the answer.\<close>

definition login_messages :: "protobuf \<Rightarrow> user_pb \<Rightarrow> bytes \<Rightarrow> bytes \<Rightarrow> bytes \<Rightarrow> LoginResponse \<Rightarrow> bool" where
  "login_messages pb up h args body r \<longleftrightarrow>
     SerializeLoginRequest up login_request = Some args
     \<and> SerializeRpcHeader pb \<lparr>rh_service_name = fst login_names, rh_method_name = snd login_names,
         rh_args_size = word_of_nat (length args)\<rparr> = Some h
     \<and> 4 + length h + length args \<le> kMaxFrameSize \<and> length body \<le> kMaxFrameSize
     \<and> ParseLoginResponse up body = Some r"

lemma call_login_ready:
  assumes msgs: "login_messages pb up h args body r" and ready: "login_ready pb h args body k (Suc n) s"
  shows "\<exists>s'. CallMethod zk login_names (SerializeLoginRequest up login_request) (ParseLoginResponse up) s = Ok r s'
    \<and> login_ready pb h args body k n s' \<and> ctl s' = ctl s
    \<and> sent (wrld s') = sent (wrld s) @ legacy_request_frame h args \<and> dialled (wrld s') = dialled (wrld s)"
proof -
  have h: "length h < 2 ^ 32"
    using msgs by (simp add: login_messages_def kMaxFrameSize_def)
  have tgt: "login_names = (if rc_service_name (chan s) = [] then login_names
      else (rc_service_name (chan s), rc_method_name (chan s)))"
    using ready by (auto simp: login_ready_def simp del: lit_Cons)
  have open_conn: "m_clientfd (chan s) \<noteq> -1" "\<not> useXrpcProtocol (chan s)" "clientCodec (chan s) = LegacyClientCodec pb"
      "sends (wrld s) = Some k # replicate n (Some k)" "length (legacy_request_frame h args) \<le> k"
      "live_stream (incoming (wrld s))"
      "stream_bytes (incoming (wrld s)) = legacy_response_frame body @ concat (replicate n (legacy_response_frame body))"
    using ready by (simp_all add: login_ready_def del: lit_Cons)
  have m: "SerializeRpcHeader pb \<lparr>rh_service_name = fst login_names, rh_method_name = snd login_names,
         rh_args_size = word_of_nat (length args)\<rparr> = Some h" "length body \<le> kMaxFrameSize"
      "ParseLoginResponse up body = Some r" "SerializeLoginRequest up login_request = Some args"
    using msgs by (simp_all add: login_messages_def del: lit_Cons)
  obtain s' where "CallMethod zk login_names (Some args) (ParseLoginResponse up) s = Ok r s'"
    "sent (wrld s') = sent (wrld s) @ legacy_request_frame h args"
    "live_stream (incoming (wrld s'))" "stream_bytes (incoming (wrld s')) = concat (replicate n (legacy_response_frame body))"
    "sends (wrld s') = replicate n (Some k)" "dialled (wrld s') = dialled (wrld s)" "m_clientfd (chan s') = m_clientfd (chan s)" "ctl s' = ctl s"
    "\<not> useXrpcProtocol (chan s')" "clientCodec (chan s') = LegacyClientCodec pb"
    "(rc_service_name (chan s'), rc_method_name (chan s')) = login_names"
    using legacy_call_ok [where zk = zk and parse = "ParseLoginResponse up", OF open_conn(1-3) tgt m(1) h open_conn(4-7) m(2,3)] by blast
  with open_conn m(4) show ?thesis
    by (simp add: login_ready_def del: lit_Cons)
qed

lemma stub_login_ready:
  assumes "login_messages pb up h args body r" "login_ready pb h args body k (Suc n) s"
  shows "\<exists>s'. stub_Login up zk resp s = Ok r s' \<and> login_ready pb h args body k n s' \<and> ctl s' = ctl s
    \<and> sent (wrld s') = sent (wrld s) @ legacy_request_frame h args \<and> dialled (wrld s') = dialled (wrld s)"
  using call_login_ready [OF assms, of zk] by (auto simp: stub_Login_def simp del: lit_Cons)

lemma login_results_ready:
  assumes "login_messages pb up h args body r"
  shows "login_ready pb h args body k n s \<Longrightarrow>
    login_results up zk n s = Some (replicate n (Some (errcode (lp_result r) = 0)))"
proof (induction n arbitrary: s)
  case (Suc n)
  obtain t where "CallMethod zk login_names (SerializeLoginRequest up login_request) (ParseLoginResponse up) s = Ok r t"
      "login_ready pb h args body k n t"
    using call_login_ready [OF assms Suc.prems] by blast
  with Suc.IH [of t] show ?case by (simp del: lit_Cons)
qed simp

lemma send_request_ready:
  assumes "login_messages pb up h args body r"
  shows "login_ready pb h args body k n s \<Longrightarrow> \<exists>s'. send_request up zk n resp (a, b) s =
      Ok (if \<not> Failed (ctl s) \<and> errcode (lp_result r) = 0 then (a + n, b) else (a, b + n)) s'
    \<and> sent (wrld s') = sent (wrld s) @ concat (replicate n (legacy_request_frame h args))
    \<and> stream_bytes (incoming (wrld s')) = []"
proof (induction n arbitrary: s resp a b)
  case 0
  then show ?case by (simp add: login_ready_def del: lit_Cons)
next
  case (Suc n)
  obtain t where t: "stub_Login up zk resp s = Ok r t" "login_ready pb h args body k n t" "ctl t = ctl s"
      "sent (wrld t) = sent (wrld s) @ legacy_request_frame h args"
    using stub_login_ready [OF assms Suc.prems] by blast
  from Suc.IH [OF t(2), of r "fst (tally (ctl t) r (a, b))" "snd (tally (ctl t) r (a, b))"] t
  show ?case by auto
qed

lemma bench_worker_ready:
  assumes "login_messages pb up h args body r"
  shows "login_ready pb h args body k n s \<Longrightarrow> \<not> Failed (ctl s) \<Longrightarrow> \<exists>s'. bench_worker up zk n resp (a, b) s =
      Ok (if errcode (lp_result r) = 0 then (a + n, b) else (a, b + n)) s'
    \<and> sent (wrld s') = sent (wrld s) @ concat (replicate n (legacy_request_frame h args))
    \<and> stream_bytes (incoming (wrld s')) = []"
proof (induction n arbitrary: s resp a b)
  case 0
  then show ?case by (simp add: login_ready_def del: lit_Cons)
next
  case (Suc n)
  obtain t where t: "stub_Login up zk resp s = Ok r t" "login_ready pb h args body k n t" "ctl t = ctl s"
      "sent (wrld t) = sent (wrld s) @ legacy_request_frame h args"
    using stub_login_ready [OF assms Suc.prems(1)] by blast
  have "login_ready pb h args body k n (t\<lparr>ctl := Controller_Reset (ctl t)\<rparr>)"
    using t(2) by (simp add: login_ready_def del: lit_Cons)
  from Suc.IH [OF this, of LoginResponse_init "fst (tally (ctl t) r (a, b))" "snd (tally (ctl t) r (a, b))"] t Suc.prems(2)
  show ?case by auto
qed

text \<open>What a server with the example service answers to logins.\<close>

lemma user_service_served:
  assumes msgs: "login_messages pb up h args body login_ok"
    and parsers: "roundtrips (SerializeRpcHeader pb) (ParseRpcHeader pb) \<lparr>rh_service_name = fst login_names,
        rh_method_name = snd login_names, rh_args_size = word_of_nat (length args)\<rparr>"
      "ParseLoginRequest up args = Some req" "SerializeLoginResponse up login_ok = Some body"
    and there: "concat segs = concat (replicate n (legacy_request_frame h args))" "segs \<noteq> []" "n \<noteq> 0"
  shows "snd (snd (receive pb (NotifyService (UserService up) RpcServer_init) [] segs))
      = replicate n (Send (legacy_response_frame body))"
proof -
  let ?hdr = "\<lparr>rh_service_name = svc_name (UserService up), rh_method_name = svc_methods (UserService up) ! 0,
      rh_args_size = word_of_nat (length args)\<rparr>"
  have m: "SerializeRpcHeader pb ?hdr = Some h" "roundtrips (SerializeRpcHeader pb) (ParseRpcHeader pb) ?hdr"
      "4 + length h + length args \<le> kMaxFrameSize" "length body \<le> kMaxFrameSize"
    using msgs parsers(1) by (simp_all add: login_messages_def del: lit_Cons)
  have srv: "map_of (service_map (RpcServer_init :: (user_request, user_response) RpcServer)) (svc_name (UserService up)) = None"
      "serverCodec (RpcServer_init :: (user_request, user_response) RpcServer) = None"
    by (simp_all add: RpcServer_init_def)
  have call: "svc_parse_request (UserService up) 0 args = Some (Login_request req)"
      "svc_call (UserService up) 0 (Login_request req) = Some (Login_response login_ok)"
      "svc_serialize (UserService up) (Login_response login_ok) = Some body" "0 < length (svc_methods (UserService up))"
    using parsers(2,3) by simp_all
  show ?thesis
    by (rule legacy_served_all [OF refl roundtripsD [OF m(2,1)] m(3) srv(1) user_methods_distinct call(4)
          disjI1 [OF srv(2)] call(1-3) m(4) there])
qed

section \<open>Properties\<close>

text \<open>\<^verbatim>\<open>bench_client\<close> counts what happened. Starting with a fresh controller, the worker adds to the success
  counter exactly the number of calls that returned a response with error code 0 and to the failure
  counter the number of all other calls; it hangs or ends the program exactly when a call does.\<close>

lemma bench_counts_outcomes:
  assumes "ctl s = Controller_init"
  shows "(case login_outcomes up zk n s of
      None \<Rightarrow> \<exists>e. bench_worker up zk n resp (a, b) s = Abort e
    | Some os \<Rightarrow> \<exists>s'. bench_worker up zk n resp (a, b) s
        = Ok (a + length (filter id os), b + length (filter Not os)) s')"
  using assms
proof (induction n arbitrary: s resp a b)
  case (Suc n)
  let ?t = "\<lambda>s' :: 'a call_state. s'\<lparr>ctl := Controller_init\<rparr>"
  have IH: "case login_outcomes up zk n (?t s') of
      None \<Rightarrow> \<exists>e. bench_worker up zk n LoginResponse_init (a', b') (?t s') = Abort e
    | Some os \<Rightarrow> \<exists>s2. bench_worker up zk n LoginResponse_init (a', b') (?t s')
        = Ok (a' + length (filter id os), b' + length (filter Not os)) s2" for s' a' b'
    by (rule Suc.IH) simp
  show ?case
  proof (cases "CallMethod zk login_names (SerializeLoginRequest up login_request) (ParseLoginResponse up) s")
    case (Ok r s')
    show ?thesis
      using IH [of "if errcode (lp_result r) = 0 then Suc a else a" "if errcode (lp_result r) = 0 then b else Suc b" s']
      by (cases "login_outcomes up zk n (?t s')")
        (simp_all add: bench_worker_step [OF Suc.prems] Ok del: bench_worker.simps lit_Cons split: if_splits)
  next
    case (Return s')
    show ?thesis
      using IH [of a "Suc b" s'] by (cases "login_outcomes up zk n (?t s')")
        (simp_all add: bench_worker_step [OF Suc.prems] Return del: bench_worker.simps lit_Cons)
  next
    case (Abort e)
    then show ?thesis
      by (simp add: bench_worker_step [OF Suc.prems] del: bench_worker.simps lit_Cons)
  qed
qed simp

text \<open>C15: many calls over one connection, from client loop to service and back. A \<^verbatim>\<open>bench_client\<close> thread whose
  channel has an open legacy connection to a server with the example service makes \<open>n\<close> logins. The
  server may receive the requests in any segments and the client the answers in any segments. Then
  all \<open>n\<close> calls return and are counted as successes, what was sent is what the server received, and
  no byte of the answers is left.\<close>

theorem bench_logins_end_to_end:
  assumes msgs: "login_messages pb up h args body login_ok"
    and parsers: "roundtrips (SerializeRpcHeader pb) (ParseRpcHeader pb) \<lparr>rh_service_name = fst login_names,
        rh_method_name = snd login_names, rh_args_size = word_of_nat (length args)\<rparr>"
      "ParseLoginRequest up args = Some req" "SerializeLoginResponse up login_ok = Some body"
    and open_channel: "m_clientfd (chan s) \<noteq> -1" "\<not> useXrpcProtocol (chan s)"
      "clientCodec (chan s) = LegacyClientCodec pb" "rc_service_name (chan s) = []" "ctl s = Controller_init"
    and there: "sends (wrld s) = replicate n (Some k)" "8 + length h + length args \<le> k" "n \<noteq> 0"
      "concat segs = concat (replicate n (legacy_request_frame h args))" "segs \<noteq> []"
    and answers: "live_stream (incoming (wrld s))" "stream_bytes (incoming (wrld s)) = sent_bytes
        (snd (snd (receive pb (NotifyService (UserService up) RpcServer_init) [] segs)))"
  shows "\<exists>s'. bench_worker up zk n resp (0, 0) s = Ok (n, 0) s'
    \<and> sent (wrld s') = sent (wrld s) @ concat segs \<and> stream_bytes (incoming (wrld s')) = []"
proof -
  have "snd (snd (receive pb (NotifyService (UserService up) RpcServer_init) [] segs))
      = replicate n (Send (legacy_response_frame body))"
    by (rule user_service_served [OF msgs parsers there(4,5,3)])
  then have "login_ready pb h args body k n s"
    using open_channel there answers by (simp add: login_ready_def del: lit_Cons)
  from bench_worker_ready [OF msgs this, of zk resp 0 0] open_channel(5) there(4) show ?thesis
    by (auto simp: login_ok_def)
qed

text \<open>C40: in \<^verbatim>\<open>client.cc\<close> one failure spoils the count of all later calls, because the controller is shared by
  all calls of a thread and never reset. Whatever the calls of a thread come to, the success counter
  grows by the calls with error code 0 before the first one that left early; that one and every later
  call, however it ended, are counted as failures (with a controller that has failed before, all of
  them). The loop ends abnormally exactly when a call does. For instance, \<open>n\<close> calls that all reach the
  server and are all answered with success are all counted as failures when the controller has failed
  before, and as successes with a fresh one.\<close>

theorem client_failure_sticks:
  "(case login_results up zk n s of
      None \<Rightarrow> \<exists>e. send_request up zk n resp (a, b) s = Abort e
    | Some rs \<Rightarrow> length rs = n \<and> (\<exists>s'. send_request up zk n resp (a, b) s =
        Ok (if Failed (ctl s) then (a, b + n)
            else (a + count_list (takeWhile (\<lambda>r. r \<noteq> None) rs) (Some True),
                  b + count_list (takeWhile (\<lambda>r. r \<noteq> None) rs) (Some False)
                    + length (dropWhile (\<lambda>r. r \<noteq> None) rs))) s'))
   \<and> (login_messages pb up h args body login_ok \<and> login_ready pb h args body k n s \<longrightarrow>
      login_results up zk n s = Some (replicate n (Some True))
      \<and> (\<exists>s'. send_request up zk n resp (a, b) s = Ok (if Failed (ctl s) then (a, b + n) else (a + n, b)) s'
        \<and> sent (wrld s') = sent (wrld s) @ concat (replicate n (legacy_request_frame h args))
        \<and> stream_bytes (incoming (wrld s')) = []))"
proof -
  have "length rs = n" if "login_results up zk n s = Some rs" for rs
    using that by (rule login_results_length)
  then have "case login_results up zk n s of
      None \<Rightarrow> \<exists>e. send_request up zk n resp (a, b) s = Abort e
    | Some rs \<Rightarrow> length rs = n \<and> (\<exists>s'. send_request up zk n resp (a, b) s =
        Ok (if Failed (ctl s) then (a, b + n)
            else (a + count_list (takeWhile (\<lambda>r. r \<noteq> None) rs) (Some True),
                  b + count_list (takeWhile (\<lambda>r. r \<noteq> None) rs) (Some False)
                    + length (dropWhile (\<lambda>r. r \<noteq> None) rs))) s')"
    using send_request_results [where up = up and zk = zk and n = n and s = s and resp = resp and cnt = "(a, b)"]
    by (cases "login_results up zk n s"; cases "Failed (ctl s)") (simp_all add: sticky_counts_def)
  moreover have "login_results up zk n s = Some (replicate n (Some True))
      \<and> (\<exists>s'. send_request up zk n resp (a, b) s = Ok (if Failed (ctl s) then (a, b + n) else (a + n, b)) s'
        \<and> sent (wrld s') = sent (wrld s) @ concat (replicate n (legacy_request_frame h args))
        \<and> stream_bytes (incoming (wrld s')) = [])"
    if "login_messages pb up h args body login_ok" "login_ready pb h args body k n s"
  proof -
    have "errcode (lp_result login_ok) = 0" by (simp add: login_ok_def)
    then show ?thesis
      using send_request_ready [OF that, of zk resp a b] login_results_ready [OF that, of zk]
      by (cases "Failed (ctl s)") (simp_all del: lit_Cons)
  qed
  ultimately show ?thesis by blast
qed

section \<open>Witnesses\<close>

definition sample_user_pb :: user_pb where
  "sample_user_pb =
     \<lparr>ParseLoginRequest = (\<lambda>bs. if bs = [10, 1, 97] then Some login_request else None),
      SerializeLoginRequest = (\<lambda>_. Some [10, 1, 97]),
      ParseLoginResponse = (\<lambda>bs. if bs = [10, 0, 16, 1] then Some login_ok else None),
      SerializeLoginResponse = (\<lambda>r. if r = login_ok then Some [10, 0, 16, 1] else None),
      ParseRegisterRequest = (\<lambda>_. None), SerializeRegisterResponse = (\<lambda>_. None)\<rparr>"

lemma sample_login_messages: "login_messages (sample_legacy_pb [10, 0]) sample_user_pb [10, 0] [10, 1, 97] [10, 0, 16, 1] login_ok"
proof -
  have "\<lparr>rh_service_name = fst login_names, rh_method_name = snd login_names,
      rh_args_size = word_of_nat (length [10 :: byte, 1, 97])\<rparr> = rpc_header ClientContext_init sample_legacy_request"
    by (simp add: rpc_header_def sample_legacy_request_def ProtocolMessage_init_def)
  then have "SerializeRpcHeader (sample_legacy_pb [10, 0]) \<lparr>rh_service_name = fst login_names,
      rh_method_name = snd login_names, rh_args_size = word_of_nat (length [10 :: byte, 1, 97])\<rparr> = Some [10, 0]"
    by (simp only: sample_legacy_simps)
  then show ?thesis
    by (simp add: login_messages_def sample_user_pb_def kMaxFrameSize_def del: lit_Cons)
qed

definition sample_bench :: "bytes list call_state" where
  "sample_bench = (sample_channel False 4)\<lparr>wrld := sample_world\<lparr>sends := replicate 2 (Some 1000),
     incoming := [Data (legacy_response_frame [10, 0, 16, 1] @ take 1 (legacy_response_frame [10, 0, 16, 1])),
       Eintr, Data (drop 1 (legacy_response_frame [10, 0, 16, 1]))]\<rparr>\<rparr>"

lemma sample_bench_simps:
  "m_clientfd (chan sample_bench) \<noteq> -1" "\<not> useXrpcProtocol (chan sample_bench)"
  "clientCodec (chan sample_bench) = LegacyClientCodec (sample_legacy_pb [10, 0])"
  "rc_service_name (chan sample_bench) = []" "ctl sample_bench = Controller_init"
  "sends (wrld sample_bench) = replicate 2 (Some 1000)" "live_stream (incoming (wrld sample_bench))"
  "stream_bytes (incoming (wrld sample_bench)) = concat (replicate 2 (legacy_response_frame [10, 0, 16, 1]))"
  by (simp_all add: sample_bench_def sample_channel_def new_channel_def CreateClientCodec_def sample_world_def
      numeral_2_eq_2 legacy_response_frame_def flip: length_greater_0_conv)

lemma sample_bench_ready: "login_ready (sample_legacy_pb [10, 0]) [10, 0] [10, 1, 97] [10, 0, 16, 1] 1000 2 sample_bench"
  using sample_bench_simps by (simp add: login_ready_def)

theorem bench_logins_end_to_end_witness:
  "\<exists>s'. bench_worker sample_user_pb list_zoo 2 LoginResponse_init (0, 0) sample_bench = Ok (2, 0) s'"
proof -
  let ?pb = "sample_legacy_pb [10, 0]" and ?args = "[10, 1, 97] :: bytes" and ?body = "[10, 0, 16, 1] :: bytes"
  let ?segs = "replicate 2 (legacy_request_frame [10, 0] ?args)"
  have up: "ParseLoginRequest sample_user_pb ?args = Some login_request"
      "SerializeLoginResponse sample_user_pb login_ok = Some ?body"
    by (simp_all add: sample_user_pb_def)
  have "snd (snd (receive ?pb (NotifyService (UserService sample_user_pb) RpcServer_init) [] ?segs))
      = replicate 2 (Send (legacy_response_frame ?body))"
    by (rule user_service_served [OF sample_login_messages sample_legacy_simps(4) up refl]) simp_all
  then have answers: "stream_bytes (incoming (wrld sample_bench)) = sent_bytes
      (snd (snd (receive ?pb (NotifyService (UserService sample_user_pb) RpcServer_init) [] ?segs)))"
    by (simp add: sample_bench_simps)
  have sizes: "8 + length [10 :: byte, 0] + length ?args \<le> 1000" "2 \<noteq> (0 :: nat)" "?segs \<noteq> []"
    by simp_all
  from bench_logins_end_to_end [OF sample_login_messages sample_legacy_simps(4) up sample_bench_simps(1-6) sizes(1,2) refl sizes(3)
      sample_bench_simps(7) answers, of list_zoo LoginResponse_init]
  show ?thesis by blast
qed

text \<open>A thread whose first attempt to connect is refused and whose second one leads to a server that
  answers both remaining calls.\<close>

definition sample_retry :: "bytes list call_state" where
  "sample_retry = (sample_channel False (- 1))\<lparr>wrld := sample_world
     \<lparr>connects := [Connect_error 4, Connected 5 (incoming (wrld sample_bench))], sends := replicate 2 (Some 1000)\<rparr>\<rparr>"

lemma refused_call:
  assumes "m_clientfd (chan s) = -1" "m_ip (chan s) \<noteq> []" "connects (wrld s) = Connect_error fd # cs"
    "rc_service_name (chan s) = []"
  shows "\<exists>t. CallMethod zk mth request parse s = Return t \<and> connects (wrld t) = cs \<and> sends (wrld t) = sends (wrld s)
    \<and> chan t = (chan s)\<lparr>rc_service_name := fst mth, rc_method_name := snd mth\<rparr>"
  using assms by (simp add: CallMethod_def call_body_def ensure_connected_def newConnect_def fail_def Let_def
      with_failure_def record_stage_def del: lit_Cons)

lemma connected_call:
  assumes "m_clientfd (chan s) = -1" "m_ip (chan s) \<noteq> []" "connects (wrld s) = Connected fd evs # cs"
    "rc_service_name (chan s) \<noteq> []" "fd \<noteq> -1"
  shows "\<exists>t. (\<forall>request parse. CallMethod zk mth request parse s = CallMethod zk mth request parse t)
    \<and> sends (wrld t) = sends (wrld s) \<and> incoming (wrld t) = evs \<and> ctl t = ctl s
    \<and> chan t = (chan s)\<lparr>m_clientfd := fd\<rparr>"
proof -
  obtain t where "ensure_connected zk mth s = Ok () t" "ensure_connected zk mth t = Ok () t"
    "sends (wrld t) = sends (wrld s)" "incoming (wrld t) = evs" "ctl t = ctl s"
    "chan t = (chan s)\<lparr>m_clientfd := fd\<rparr>"
    using assms by (simp add: ensure_connected_def newConnect_def record_stage_def Let_def)
  then show ?thesis
    by (intro exI [where x = t] conjI allI) (simp_all add: CallMethod_def call_body_def)
qed

theorem client_failure_sticks_witness:
  "\<exists>s'. login_results sample_user_pb list_zoo 3 sample_retry = Some [None, Some True, Some True]
    \<and> send_request sample_user_pb list_zoo 3 LoginResponse_init (5, 1) sample_retry = Ok (5, 4) s'"
proof -
  let ?call = "CallMethod list_zoo login_names (SerializeLoginRequest sample_user_pb login_request)
      (ParseLoginResponse sample_user_pb)"
  have s: "m_clientfd (chan sample_retry) = -1" "m_ip (chan sample_retry) = lit ''h''"
    "connects (wrld sample_retry) = Connect_error 4 # [Connected 5 (incoming (wrld sample_bench))]"
    "rc_service_name (chan sample_retry) = []" "sends (wrld sample_retry) = replicate 2 (Some 1000)"
    "ctl sample_retry = Controller_init" "\<not> useXrpcProtocol (chan sample_retry)"
    "clientCodec (chan sample_retry) = LegacyClientCodec (sample_legacy_pb [10, 0])"
    by (simp_all add: sample_retry_def sample_channel_def new_channel_def CreateClientCodec_def del: lit_Cons)
  have h: "lit ''h'' \<noteq> []" "fst login_names \<noteq> []" "(5 :: int) \<noteq> -1" by simp_all
  obtain t where t: "?call sample_retry = Return t" "connects (wrld t) = [Connected 5 (incoming (wrld sample_bench))]"
    "sends (wrld t) = replicate 2 (Some 1000)"
    "chan t = (chan sample_retry)\<lparr>rc_service_name := fst login_names, rc_method_name := snd login_names\<rparr>"
    using refused_call [OF s(1) _ s(3,4)] s(2,5) h(1) by metis
  obtain u where u: "?call t = ?call u"
    "sends (wrld u) = replicate 2 (Some 1000)" "incoming (wrld u) = incoming (wrld sample_bench)"
    "chan u = (chan t)\<lparr>m_clientfd := 5\<rparr>"
    using connected_call [of t 5 "incoming (wrld sample_bench)" "[]" list_zoo login_names] t s h
    by (auto simp del: lit_Cons)
  have "login_ready (sample_legacy_pb [10, 0]) [10, 0] [10, 1, 97] [10, 0, 16, 1] 1000 2 u"
    using u(2-4) t(4) s sample_bench_simps(7,8) by (simp add: login_ready_def del: lit_Cons)
  then have "login_results sample_user_pb list_zoo 2 u = Some (replicate 2 (Some True))"
    using login_results_ready [OF sample_login_messages] by (simp add: login_ok_def)
  then have "login_results sample_user_pb list_zoo 2 t = Some (replicate 2 (Some True))"
    unfolding numeral_2_eq_2 login_results.simps(2) u(1) .
  with t(1) have results: "login_results sample_user_pb list_zoo 3 sample_retry = Some [None, Some True, Some True]"
    by (simp add: numeral_3_eq_3 numeral_2_eq_2 del: lit_Cons)
  have fresh: "\<not> Failed (ctl sample_retry)"
    using s(6) by simp
  from conjunct1 [OF client_failure_sticks [where up = sample_user_pb and zk = list_zoo and n = 3 and s = sample_retry
      and resp = LoginResponse_init and a = 5 and b = 1]] results fresh
  show ?thesis by (simp add: eval_nat_numeral)
qed

end
