(* ===== verification/Reactor.thy ===== *)
theory Reactor
  imports Legacy_Codec "HOL-Library.Multiset" "HOL-Library.Sublist"
begin

text \<open>
  The event-driven server of \<^verbatim>\<open>tools/mini_server_reactor.cc\<close>, which speaks the legacy protocol over
  non-blocking sockets: one request (\<^verbatim>\<open>ProcessOneRequest\<close>), the worker that polls its connections
  (\<^verbatim>\<open>WorkerLoop\<close>) and the main thread that deals new connections out to the workers. The results of
  \<^verbatim>\<open>recv\<close>, \<^verbatim>\<open>writev\<close>, \<^verbatim>\<open>poll\<close> and \<^verbatim>\<open>accept\<close> are scripts; a socket without data reports \<^verbatim>\<open>EAGAIN\<close>.
  The generated message classes are parameters.
\<close>

section \<open>One request\<close>

datatype nb_event = Nb_data bytes | Nb_again | Nb_error

datatype read_result = Complete bytes | Read_again | Read_failed

text \<open>The two receive loops: an empty segment is the end of the stream.\<close>

primrec read_exact :: "nb_event list \<Rightarrow> nat \<Rightarrow> read_result \<times> nb_event list" where
  "read_exact [] n = (if n = 0 then (Complete [], []) else (Read_again, []))"
| "read_exact (ev # evs) n =
     (if n = 0 then (Complete [], ev # evs)
      else case ev of
             Nb_again \<Rightarrow> (Read_again, evs)
           | Nb_error \<Rightarrow> (Read_failed, evs)
           | Nb_data d \<Rightarrow>
               (if d = [] then (Read_failed, evs)
                else if n < length d then (Complete (take n d), Nb_data (drop n d) # evs)
                else case read_exact evs (n - length d) of
                       (Complete r, evs') \<Rightarrow> (Complete (d @ r), evs')
                     | (x, evs') \<Rightarrow> (x, evs')))"

text \<open>The offsets of the two \<^verbatim>\<open>iovec\<close>s after \<open>n\<close> bytes were written: the inner loop, which every branch
  leaves with \<open>n = 0\<close>.\<close>

definition adjust_iov :: "nat \<Rightarrow> bytes \<times> bytes \<Rightarrow> bytes \<times> bytes" where
  "adjust_iov n iov =
     (if n = 0 then iov
      else if n \<ge> length (fst iov)
      then let n' = n - length (fst iov) in if n' > 0 then ([], drop n' (snd iov)) else ([], snd iov)
      else (drop n (fst iov), snd iov))"

datatype write_event = Wrote nat | Write_again | Write_error

text \<open>The send loop. It spins while the socket is full; \<open>None\<close> is a loop that has not ended.\<close>

primrec send_loop :: "write_event list \<Rightarrow> nat \<Rightarrow> nat \<Rightarrow> bytes \<times> bytes \<Rightarrow> bytes
    \<Rightarrow> bool option \<times> bytes \<times> write_event list" where
  "send_loop [] to_send sent iov out = (if sent < to_send then None else Some True, out, [])"
| "send_loop (ev # evs) to_send sent iov out =
     (if sent < to_send
      then case ev of
             Write_again \<Rightarrow> send_loop evs to_send sent iov out
           | Write_error \<Rightarrow> (Some False, out, evs)
           | Wrote k \<Rightarrow>
               let n = min k (length (fst iov) + length (snd iov))
               in send_loop evs to_send (sent + n) (adjust_iov n iov) (out @ take n (fst iov @ snd iov))
      else (Some True, out, ev # evs))"

record conn =
  inq :: "nb_event list"
  outq :: "write_event list"
  wire :: bytes

text \<open>The messages of the service: whether a login request parses, and the fixed response.\<close>

record login_pb =
  ParseLogin :: "bytes \<Rightarrow> bool"
  LoginOk :: "bytes option"

definition reactor_max_frame :: nat where
  "reactor_max_frame = 16 * 1024 * 1024"

definition respond :: "bytes \<Rightarrow> conn \<Rightarrow> bool option \<times> conn" where
  "respond resp_body c =
     (let resp_len = mem32 (htonl (word_of_nat (length resp_body)))
      in case send_loop (outq c) (4 + length resp_body) 0 (resp_len, resp_body) (wire c) of
           (r, out, evs) \<Rightarrow> (r, c\<lparr>outq := evs, wire := out\<rparr>))"

definition ProcessOneRequest :: "protobuf \<Rightarrow> login_pb \<Rightarrow> conn \<Rightarrow> bool option \<times> conn" where
  "ProcessOneRequest pb lg c =
     (case read_exact (inq c) 8 of
        (Read_failed, evs) \<Rightarrow> (Some False, c\<lparr>inq := evs\<rparr>)
      | (Read_again, evs) \<Rightarrow> (Some True, c\<lparr>inq := evs\<rparr>)
      | (Complete header_buf, evs) \<Rightarrow>
          let c1 = c\<lparr>inq := evs\<rparr>;
              total_len = ntohl (load32 (take 4 header_buf));
              header_len = ntohl (load32 (drop 4 header_buf))
          in if unat total_len < 4 \<or> unat total_len > reactor_max_frame then (Some False, c1)
             else if header_len > total_len - 4 then (Some False, c1)
             else
               let remaining = unat (total_len - 4)
               in case read_exact (inq c1) remaining of
                    (Read_failed, evs) \<Rightarrow> (Some False, c1\<lparr>inq := evs\<rparr>)
                  | (Read_again, evs) \<Rightarrow> (Some True, c1\<lparr>inq := evs\<rparr>)
                  | (Complete frame, evs) \<Rightarrow>
                      let c2 = c1\<lparr>inq := evs\<rparr>
                      in if ParseRpcHeader pb (take (unat header_len) frame) = None then (Some False, c2)
                         else if \<not> ParseLogin lg (drop (unat header_len) frame) then (Some False, c2)
                         else case LoginOk lg of
                                None \<Rightarrow> (Some False, c2)
                              | Some resp_body \<Rightarrow> respond resp_body c2)"

section \<open>The worker\<close>

record pollfd =
  pf_fd :: int
  pf_err :: bool
  pf_in :: bool

text \<open>\<^verbatim>\<open>POLLERR | POLLHUP | POLLNVAL\<close> and \<^verbatim>\<open>POLLIN\<close>: no other event is asked for.\<close>

abbreviation is_ready :: "pollfd \<Rightarrow> bool" where
  "is_ready p \<equiv> pf_err p \<or> pf_in p"

record 'w worker =
  w_closed :: "int list"
  counter :: "64 word"
  conns :: 'w

definition swap_remove :: "nat \<Rightarrow> pollfd list \<Rightarrow> pollfd list" where
  "swap_remove i fds = (if i < length fds - 1 then butlast (fds[i := last fds]) else butlast fds)"

definition close_at :: "nat \<Rightarrow> pollfd list \<Rightarrow> 'w worker \<Rightarrow> 'w worker" where
  "close_at i fds st = st\<lparr>w_closed := w_closed st @ [pf_fd (fds ! i)]\<rparr>"

lemma length_swap_remove [simp]: "length (swap_remove i fds) = length fds - 1"
  by (simp add: swap_remove_def)

text \<open>The loop over the polled connections. The request handler is a parameter here: it gets the
  descriptor and the connections, and \<open>None\<close> means that it does not return.\<close>

function ready_loop :: "(int \<Rightarrow> 'w \<Rightarrow> (bool \<times> 'w) option) \<Rightarrow> nat \<Rightarrow> nat \<Rightarrow> pollfd list \<Rightarrow> 'w worker
    \<Rightarrow> (pollfd list \<times> 'w worker) option" where
  "ready_loop process i ready fds st =
     (if i < length fds \<and> 0 < ready
      then if \<not> is_ready (fds ! i) then ready_loop process (Suc i) ready fds st
           else if pf_err (fds ! i)
           then ready_loop process i (ready - 1) (swap_remove i fds) (close_at i fds st)
           else case process (pf_fd (fds ! i)) (conns st) of
                  None \<Rightarrow> None
                | Some (ok, w) \<Rightarrow>
                    let st1 = st\<lparr>conns := w\<rparr>
                    in if ok then ready_loop process (Suc i) (ready - 1) fds (st1\<lparr>counter := counter st1 + 1\<rparr>)
                       else ready_loop process i (ready - 1) (swap_remove i fds) (close_at i fds st1)
      else Some (fds, st))"
  by pat_completeness auto
termination
  by (relation "measure (\<lambda>(process, i, ready, fds, st). length fds - i)") auto

declare ready_loop.simps [simp del]

definition kMaxFds :: nat where
  "kMaxFds = 4096"

primrec adopt :: "int list \<Rightarrow> pollfd list \<Rightarrow> 'w worker \<Rightarrow> pollfd list \<times> 'w worker" where
  "adopt [] fds st = (fds, st)"
| "adopt (fd # new_fds) fds st =
     (if length fds < kMaxFds then adopt new_fds (fds @ [\<lparr>pf_fd = fd, pf_err = False, pf_in = False\<rparr>]) st
      else adopt new_fds fds (st\<lparr>w_closed := w_closed st @ [fd]\<rparr>))"

datatype poll_outcome = Poll_eintr | Poll_error | Polled "int \<Rightarrow> bool \<times> bool"

definition set_revents :: "(int \<Rightarrow> bool \<times> bool) \<Rightarrow> pollfd list \<Rightarrow> pollfd list" where
  "set_revents revents fds =
     map (\<lambda>p. p\<lparr>pf_err := fst (revents (pf_fd p)), pf_in := snd (revents (pf_fd p))\<rparr>) fds"

text \<open>One element of the script per turn of the loop: the connections handed over since the last turn and
  the result of \<^verbatim>\<open>poll\<close>, which gives every descriptor its events. The script ends when \<^verbatim>\<open>g_running\<close> is
  cleared.\<close>

primrec WorkerLoop :: "(int \<Rightarrow> 'w \<Rightarrow> (bool \<times> 'w) option) \<Rightarrow> (int list \<times> poll_outcome) list
    \<Rightarrow> pollfd list \<Rightarrow> 'w worker \<Rightarrow> 'w worker option" where
  "WorkerLoop process [] fds st = Some (st\<lparr>w_closed := w_closed st @ map pf_fd fds\<rparr>)"
| "WorkerLoop process (turn # turns) fds st =
     (case adopt (fst turn) fds st of (fds1, st1) \<Rightarrow>
        (case snd turn of
           Poll_eintr \<Rightarrow> WorkerLoop process turns fds1 st1
         | Poll_error \<Rightarrow> Some (st1\<lparr>w_closed := w_closed st1 @ map pf_fd fds1\<rparr>)
         | Polled revents \<Rightarrow>
             let fds2 = set_revents revents fds1; ready = length (filter is_ready fds2)
             in if ready = 0 then WorkerLoop process turns fds2 st1
                else case ready_loop process 0 ready fds2 st1 of
                       None \<Rightarrow> None
                     | Some (fds3, st3) \<Rightarrow> WorkerLoop process turns fds3 st3))"

section \<open>The main thread\<close>

datatype accept_event = Accepted int | Accept_eintr | Accept_again | Accept_error

text \<open>Dealing out connections. \<open>None\<close> is undefined behaviour: no worker, or a counter that overflows.\<close>

primrec accept_loop :: "nat \<Rightarrow> accept_event list \<Rightarrow> nat \<Rightarrow> int list list \<Rightarrow> int list list option" where
  "accept_loop num_workers [] rr_idx contexts = Some contexts"
| "accept_loop num_workers (ev # evs) rr_idx contexts =
     (case ev of
        Accept_eintr \<Rightarrow> accept_loop num_workers evs rr_idx contexts
      | Accept_again \<Rightarrow> accept_loop num_workers evs rr_idx contexts
      | Accept_error \<Rightarrow> Some contexts
      | Accepted client_fd \<Rightarrow>
          if num_workers = 0 \<or> rr_idx + 1 \<ge> 2 ^ 31 then None
          else let idx = rr_idx mod num_workers
               in accept_loop num_workers evs (rr_idx + 1) (contexts[idx := contexts ! idx @ [client_fd]]))"


section \<open>Reading and writing\<close>

text \<open>A script that delivers bytes without a pause or an error, and its bytes.\<close>

definition flowing :: "nb_event list \<Rightarrow> bool" where
  "flowing evs \<longleftrightarrow> (\<forall>ev \<in> set evs. \<exists>d. ev = Nb_data d \<and> d \<noteq> [])"

definition nb_bytes :: "nb_event list \<Rightarrow> bytes" where
  "nb_bytes evs = concat (map (\<lambda>ev. case ev of Nb_data d \<Rightarrow> d | _ \<Rightarrow> []) evs)"

lemma nb_simps [simp]:
  "flowing []" "flowing (Nb_data d # evs) \<longleftrightarrow> d \<noteq> [] \<and> flowing evs" "\<not> flowing (Nb_again # evs)"
  "\<not> flowing (Nb_error # evs)" "nb_bytes [] = []" "nb_bytes (Nb_data d # evs) = d @ nb_bytes evs"
  "nb_bytes (Nb_again # evs) = nb_bytes evs" "nb_bytes (Nb_error # evs) = nb_bytes evs"
  by (auto simp: flowing_def nb_bytes_def)

lemma read_exact_zero [simp]: "read_exact evs 0 = (Complete [], evs)"
  by (cases evs) simp_all

text \<open>Bytes that flow are read to the end of the request, whatever comes after them.\<close>

lemma read_exact_flowing:
  assumes "flowing evs" "n \<le> length (nb_bytes evs)"
  shows "\<exists>evs'. read_exact (evs @ more_evs) n = (Complete (take n (nb_bytes evs)), evs' @ more_evs)
    \<and> flowing evs' \<and> nb_bytes evs' = drop n (nb_bytes evs)"
  using assms
proof (induction evs arbitrary: n)
  case Nil
  then show ?case by simp
next
  case (Cons ev evs)
  obtain d where d: "ev = Nb_data d" "d \<noteq> []"
    using Cons.prems(1) by (cases ev) auto
  show ?case
  proof (cases "n < length d")
    case True
    with d Cons.prems show ?thesis
      by (cases "n = 0") (auto intro: exI [of _ "Nb_data (drop n d) # evs"] exI [of _ "Nb_data d # evs"])
  next
    case False
    have "n - length d \<le> length (nb_bytes evs)" "flowing evs"
      using Cons.prems d by auto
    then obtain evs' where "read_exact (evs @ more_evs) (n - length d)
        = (Complete (take (n - length d) (nb_bytes evs)), evs' @ more_evs)"
      "flowing evs'" "nb_bytes evs' = drop (n - length d) (nb_bytes evs)"
      using Cons.IH [of "n - length d"] by blast
    with False d show ?thesis
      by (intro exI [of _ evs']) (auto simp: Suc_le_eq neq_Nil_conv)
  qed
qed

text \<open>Bytes that stop too early are read and dropped.\<close>

lemma read_exact_stops:
  assumes "flowing evs" "length (nb_bytes evs) < n"
  shows "read_exact (evs @ Nb_again # more_evs) n = (Read_again, more_evs)"
  using assms
proof (induction evs arbitrary: n)
  case Nil
  then show ?case by simp
next
  case (Cons ev evs)
  obtain d where d: "ev = Nb_data d" "d \<noteq> []"
    using Cons.prems(1) by (cases ev) auto
  with Cons show ?case by simp
qed

lemma adjust_iov_bytes: "n \<le> length a + length b \<Longrightarrow>
    fst (adjust_iov n (a, b)) @ snd (adjust_iov n (a, b)) = drop n (a @ b)"
  by (auto simp: adjust_iov_def Let_def)

text \<open>However the kernel cuts the writes, what has been sent is a prefix of the response, and a loop that
  ends well has sent all of it.\<close>

lemma send_loop_exact:
  assumes "send_loop evs to_send sent (a, b) out = (r, out', evs')" "to_send = sent + length (a @ b)"
  shows "prefix (out) out' \<and> prefix out' (out @ a @ b) \<and> (r = Some True \<longrightarrow> out' = out @ a @ b)"
  using assms
proof (induction evs arbitrary: sent a b out)
  case Nil
  then show ?case by (auto split: if_splits)
next
  case (Cons ev evs)
  show ?case
  proof (cases "sent < to_send")
    case False
    with Cons.prems show ?thesis by auto
  next
    case True
    show ?thesis
    proof (cases ev)
      case (Wrote k)
      let ?n = "min k (length a + length b)"
      obtain a' b' where iov: "adjust_iov ?n (a, b) = (a', b')" by fastforce
      have rest: "a' @ b' = drop ?n (a @ b)"
        using adjust_iov_bytes [of ?n a b] by (simp add: iov)
      have step: "send_loop evs to_send (sent + ?n) (a', b') (out @ take ?n (a @ b)) = (r, out', evs')"
        using Cons.prems(1) True by (simp add: Wrote iov Let_def)
      have "to_send = sent + ?n + length (a' @ b')"
        unfolding rest using Cons.prems(2) by simp
      from Cons.IH [OF step this] show ?thesis
        unfolding rest append_assoc append_take_drop_id
        by (auto intro: prefix_order.trans [OF prefixI])
    qed (use Cons True in auto)
  qed
qed

text \<open>The bytes a script of writes can take.\<close>

definition write_room :: "write_event list \<Rightarrow> nat" where
  "write_room evs = sum_list (map (\<lambda>ev. case ev of Wrote k \<Rightarrow> k | _ \<Rightarrow> 0) evs)"

lemma send_loop_finishes:
  assumes "Write_error \<notin> set evs" "length (a @ b) \<le> write_room evs" "to_send = sent + length (a @ b)"
  shows "\<exists>evs'. send_loop evs to_send sent (a, b) out = (Some True, out @ a @ b, evs')"
  using assms
proof (induction evs arbitrary: sent a b out)
  case Nil
  then show ?case by (simp add: write_room_def)
next
  case (Cons ev evs)
  show ?case
  proof (cases "sent < to_send")
    case False
    with Cons.prems show ?thesis by simp
  next
    case True
    show ?thesis
    proof (cases ev)
      case (Wrote k)
      let ?n = "min k (length a + length b)"
      obtain a' b' where iov: "adjust_iov ?n (a, b) = (a', b')" by fastforce
      have rest: "a' @ b' = drop ?n (a @ b)"
        using adjust_iov_bytes [of ?n a b] by (simp add: iov)
      have "length (a' @ b') \<le> write_room evs" "to_send = sent + ?n + length (a' @ b')"
        unfolding rest using Cons.prems(2,3) by (auto simp: Wrote write_room_def)
      from Cons.IH [OF _ this, of "out @ take ?n (a @ b)"] Cons.prems(1)
      obtain evs' where ih: "send_loop evs to_send (sent + ?n) (a', b') (out @ take ?n (a @ b))
          = (Some True, (out @ take ?n (a @ b)) @ a' @ b', evs')" by auto
      have eq: "(out @ take ?n (a @ b)) @ a' @ b' = out @ a @ b"
        unfolding rest append_assoc append_take_drop_id ..
      have "send_loop (ev # evs) to_send sent (a, b) out =
          send_loop evs to_send (sent + ?n) (a', b') (out @ take ?n (a @ b))"
        using True by (simp add: Wrote iov Let_def)
      from trans [OF this ih [unfolded eq]] show ?thesis by blast
    qed (use Cons True in \<open>auto simp: write_room_def\<close>)
  qed
qed


lemma respond_ok:
  assumes "Write_error \<notin> set (outq c)" "4 + length resp \<le> write_room (outq c)"
  shows "\<exists>evs'. respond resp c = (Some True, c\<lparr>outq := evs', wire := wire c @ legacy_response_frame resp\<rparr>)"
proof -
  let ?l = "mem32 (htonl (word_of_nat (length resp)))"
  have "length (?l @ resp) \<le> write_room (outq c)" "4 + length resp = 0 + length (?l @ resp)"
    using assms(2) by simp_all
  from send_loop_finishes [OF assms(1) this, of "wire c"]
  obtain evs' where "send_loop (outq c) (4 + length resp) 0 (?l, resp) (wire c) = (Some True, wire c @ ?l @ resp, evs')"
    by blast
  then show ?thesis
    by (auto simp: respond_def Let_def legacy_response_frame_def mem32_htonl)
qed

lemma request_head:
  "take 8 (legacy_request_frame h body @ rest) =
     rev (mem32 (word_of_nat (4 + length h + length body))) @ rev (mem32 (word_of_nat (length h)))"
  "drop 8 (legacy_request_frame h body @ rest) = h @ body @ rest"
  by (simp_all add: legacy_request_frame_def)

lemma request_lengths:
  assumes "4 + length h + length body \<le> reactor_max_frame"
  shows "unat (word_of_nat (4 + length h + length body) :: 32 word) = 4 + length h + length body"
    and "unat (word_of_nat (4 + length h + length body) - 4 :: 32 word) = length h + length body"
    and "unat (word_of_nat (length h) :: 32 word) = length h"
    and "\<not> (word_of_nat (length h) :: 32 word) > word_of_nat (4 + length h + length body) - 4"
proof -
  have small: "4 + length h + length body < 2 ^ 32"
    using assms by (simp add: reactor_max_frame_def)
  then show "unat (word_of_nat (4 + length h + length body) :: 32 word) = 4 + length h + length body"
      "unat (word_of_nat (length h) :: 32 word) = length h"
    by (simp_all add: unat_of_nat del: of_nat_add)
  have "(word_of_nat (4 + length h + length body) - 4 :: 32 word) = word_of_nat (length h + length body)"
    by simp
  moreover have "unat (word_of_nat (length h + length body) :: 32 word) = length h + length body"
    using small by (simp add: unat_of_nat del: of_nat_add)
  ultimately show sub: "unat (word_of_nat (4 + length h + length body) - 4 :: 32 word) = length h + length body"
    by (simp only:)
  show "\<not> (word_of_nat (length h) :: 32 word) > word_of_nat (4 + length h + length body) - 4"
    unfolding word_less_nat_alt sub using small by (simp add: unat_of_nat)
qed

lemma length_fields:
  "ntohl (load32 (take 4 (rev (mem32 x) @ rev (mem32 y)))) = x"
  "ntohl (load32 (drop 4 (rev (mem32 x) @ rev (mem32 y)))) = y"
  by (simp_all add: be32_def [symmetric] byte_simps)

lemma process_request:
  assumes size: "4 + length h + length body \<le> reactor_max_frame"
    and flow: "flowing evs" "nb_bytes evs = legacy_request_frame h body @ rest" "inq c = evs @ later"
    and parse: "ParseRpcHeader pb h \<noteq> None" "ParseLogin lg body" "LoginOk lg = Some resp"
  shows "\<exists>evs'. ProcessOneRequest pb lg c = respond resp (c\<lparr>inq := evs' @ later\<rparr>)
    \<and> flowing evs' \<and> nb_bytes evs' = rest"
proof -
  note len = request_lengths [OF size]
  obtain evs1 where r1: "read_exact (inq c) 8 = (Complete (take 8 (nb_bytes evs)), evs1 @ later)"
      "flowing evs1" "nb_bytes evs1 = drop 8 (nb_bytes evs)"
    using read_exact_flowing [OF flow(1), of 8 later] flow(2,3) by auto
  have b1: "nb_bytes evs1 = h @ body @ rest"
    using r1(3) by (simp only: flow(2) request_head)
  obtain evs2 where r2: "read_exact (evs1 @ later) (length h + length body) = (Complete (h @ body), evs2 @ later)"
      "flowing evs2" "nb_bytes evs2 = rest"
    using read_exact_flowing [OF r1(2), of "length h + length body" later] b1 by auto
  have head: "take 8 (nb_bytes evs) =
      rev (mem32 (word_of_nat (4 + length h + length body))) @ rev (mem32 (word_of_nat (length h)))"
    by (simp only: flow(2) request_head)
  have "ProcessOneRequest pb lg c = respond resp (c\<lparr>inq := evs2 @ later\<rparr>)"
    unfolding ProcessOneRequest_def r1(1) head prod.case read_result.case Let_def length_fields len
    using size r2(1) parse len by auto
  with r2 show ?thesis by blast
qed


section \<open>Polling\<close>

lemma swap_remove_mset:
  assumes "i < length fds"
  shows "mset (drop i (swap_remove i fds)) = mset (drop (Suc i) fds)" "take i (swap_remove i fds) = take i fds"
proof -
  have split: "fds = take i fds @ fds ! i # drop (Suc i) fds"
    using assms by (rule id_take_nth_drop)
  have "swap_remove i fds = take i fds @ (if drop (Suc i) fds = [] then [] else last (drop (Suc i) fds) # butlast (drop (Suc i) fds))"
  proof (cases "drop (Suc i) fds = []")
    case True
    with assms have "i = length fds - 1" by simp
    with True show ?thesis
      by (simp add: swap_remove_def butlast_conv_take)
  next
    case False
    then have less: "i < length fds - 1" by simp
    have "butlast (fds[i := last fds]) = butlast (take i fds @ last fds # drop (Suc i) fds)"
      using assms by (simp add: upd_conv_take_nth_drop)
    also have "\<dots> = take i fds @ last (drop (Suc i) fds) # butlast (drop (Suc i) fds)"
      using False by (simp add: butlast_append)
    finally show ?thesis
      using less False by (simp add: swap_remove_def)
  qed
  moreover have "mset (drop (Suc i) fds) = mset (last (drop (Suc i) fds) # butlast (drop (Suc i) fds))"
    if "drop (Suc i) fds \<noteq> []"
    using arg_cong [OF append_butlast_last_id [OF that], of mset] by simp
  ultimately show "mset (drop i (swap_remove i fds)) = mset (drop (Suc i) fds)" "take i (swap_remove i fds) = take i fds"
    using assms by auto
qed


lemma swap_remove_all:
  assumes "i < length fds"
  shows "mset (map pf_fd fds) = add_mset (pf_fd (fds ! i)) (mset (map pf_fd (swap_remove i fds)))"
proof -
  have "mset (swap_remove i fds) = mset (take i fds) + mset (drop (Suc i) fds)"
    using swap_remove_mset [OF assms] by (metis append_take_drop_id mset_append)
  moreover have "mset fds = mset (take i fds) + add_mset (fds ! i) (mset (drop (Suc i) fds))"
    using assms by (metis Cons_nth_drop_Suc append_take_drop_id mset.simps(2) mset_append)
  ultimately show ?thesis by simp
qed

text \<open>A handler that also keeps the list of its calls and their outcomes.\<close>

definition logged :: "(int \<Rightarrow> 'w \<Rightarrow> (bool \<times> 'w) option) \<Rightarrow> int \<Rightarrow> 'w \<times> (int \<times> bool) list
    \<Rightarrow> (bool \<times> 'w \<times> (int \<times> bool) list) option" where
  "logged process fd wl = map_option (\<lambda>(ok, w). (ok, w, snd wl @ [(fd, ok)])) (process fd (fst wl))"

lemma ready_loop_step:
  assumes "i < length fds" "0 < ready"
  shows "ready_loop process i ready fds st =
    (if \<not> is_ready (fds ! i) then ready_loop process (Suc i) ready fds st
     else if pf_err (fds ! i) then ready_loop process i (ready - 1) (swap_remove i fds) (close_at i fds st)
     else case process (pf_fd (fds ! i)) (conns st) of
            None \<Rightarrow> None
          | Some (ok, w) \<Rightarrow>
              if ok then ready_loop process (Suc i) (ready - 1) fds (st\<lparr>conns := w, counter := counter st + 1\<rparr>)
              else ready_loop process i (ready - 1) (swap_remove i fds) (close_at i fds (st\<lparr>conns := w\<rparr>)))"
  using assms by (subst ready_loop.simps) (simp add: Let_def split: option.splits)

text \<open>
  What one round does with the entries it still has to look at: the calls it makes, the descriptors
  it closes and the requests it counts.
\<close>

definition with_input :: "pollfd multiset \<Rightarrow> int multiset" where
  "with_input ps = image_mset pf_fd {#p \<in># ps. pf_in p \<and> \<not> pf_err p#}"

definition with_error :: "pollfd multiset \<Rightarrow> int multiset" where
  "with_error ps = image_mset pf_fd {#p \<in># ps. pf_err p#}"

definition round_done :: "pollfd list \<Rightarrow> pollfd multiset \<Rightarrow> ('w \<times> (int \<times> bool) list) worker
    \<Rightarrow> pollfd list \<Rightarrow> ('w \<times> (int \<times> bool) list) worker \<Rightarrow> bool" where
  "round_done fds todo st fds' st' \<longleftrightarrow>
     mset (map pf_fd fds') + mset (w_closed st') = mset (map pf_fd fds) + mset (w_closed st)
     \<and> (\<exists>calls. snd (conns st') = snd (conns st) @ calls
         \<and> mset (map fst calls) = with_input todo
         \<and> mset (w_closed st') = mset (w_closed st) + with_error todo + mset (map fst (filter (\<lambda>c. \<not> snd c) calls))
         \<and> counter st' = counter st + word_of_nat (length (filter snd calls)))"

lemma round_done_call:
  assumes "round_done fds todo (st\<lparr>conns := (w, snd (conns st) @ [(pf_fd p, True)]), counter := counter st + 1\<rparr>) fds' st'"
    and "pf_in p" "\<not> pf_err p"
  shows "round_done fds (add_mset p todo) st fds' st'"
  using assms unfolding round_done_def
  by (auto simp: with_input_def with_error_def)

lemma round_done_close:
  assumes "round_done fds1 todo (st\<lparr>w_closed := w_closed st @ [pf_fd p]\<rparr>) fds' st'" "pf_err p"
    and "mset (map pf_fd fds) = add_mset (pf_fd p) (mset (map pf_fd fds1))"
  shows "round_done fds (add_mset p todo) st fds' st'"
  using assms unfolding round_done_def by (auto simp: with_input_def with_error_def)

lemma round_done_call_close:
  assumes "round_done fds1 todo (st\<lparr>conns := (w, snd (conns st) @ [(pf_fd p, False)]), w_closed := w_closed st @ [pf_fd p]\<rparr>) fds' st'"
    and "pf_in p" "\<not> pf_err p" "mset (map pf_fd fds) = add_mset (pf_fd p) (mset (map pf_fd fds1))"
  shows "round_done fds (add_mset p todo) st fds' st'"
  using assms unfolding round_done_def
  by (auto simp: with_input_def with_error_def)

lemma round_done_idle:
  "round_done fds todo st fds' st' \<Longrightarrow> \<not> is_ready p \<Longrightarrow> round_done fds (add_mset p todo) st fds' st'"
  by (simp add: round_done_def with_input_def with_error_def)

lemma ready_loop_spec:
  assumes "ready_loop (logged process) i ready fds st = Some (fds', st')"
    and "ready = size (filter_mset is_ready (mset (drop i fds)))" "i \<le> length fds"
  shows "round_done fds (mset (drop i fds)) st fds' st'"
  using assms
proof (induction "logged process" i ready fds st rule: ready_loop.induct)
  case (1 i ready fds st)
  show ?case
  proof (cases "i < length fds \<and> 0 < ready")
    case False
    then have "\<forall>p \<in> set (drop i fds). \<not> is_ready p"
      using "1.prems"(2,3) by (auto simp: filter_mset_eq_conv)
    moreover have "fds' = fds" "st' = st"
      using "1.prems"(1) False by (subst (asm) ready_loop.simps; auto)+
    ultimately show ?thesis
      by (auto simp: round_done_def with_input_def with_error_def filter_mset_eq_conv)
  next
    case True
    then have i: "i < length fds" "0 < ready" by simp_all
    have d: "mset (drop i fds) = add_mset (fds ! i) (mset (drop (Suc i) fds))"
      using i(1) by (simp flip: Cons_nth_drop_Suc)
    have rm: "mset (drop i (swap_remove i fds)) = mset (drop (Suc i) fds)"
      by (rule swap_remove_mset [OF i(1)])
    note all = swap_remove_all [OF i(1)]
    have cnt: "ready = (if is_ready (fds ! i) then 1 else 0) + size (filter_mset is_ready (mset (drop (Suc i) fds)))"
      using "1.prems"(2) by (simp add: d)
    have le: "i \<le> length (swap_remove i fds)" "Suc i \<le> length fds"
      using i(1) by simp_all
    note step = "1.prems"(1) [unfolded ready_loop_step [OF i]]
    consider (idle) "\<not> is_ready (fds ! i)" | (err) "pf_err (fds ! i)" | (inp) "pf_in (fds ! i)" "\<not> pf_err (fds ! i)"
      by blast
    then show ?thesis
    proof cases
      case idle
      from "1.hyps"(1) [OF True idle _ _ le(2)] step idle cnt show ?thesis
        unfolding d by (intro round_done_idle) simp_all
    next
      case err
      then have ready: "\<not> \<not> is_ready (fds ! i)" by simp
      from "1.hyps"(2) [OF True ready err _ _ le(1)] step err cnt show ?thesis
        unfolding d rm by (intro round_done_close [OF _ err all]) (simp add: close_at_def)
    next
      case inp
      then have ready: "\<not> \<not> is_ready (fds ! i)" by simp
      obtain ok w where ok: "process (pf_fd (fds ! i)) (fst (conns st)) = Some (ok, w)"
        using step inp by (auto simp: logged_def split: option.splits)
      have lg: "logged process (pf_fd (fds ! i)) (conns st) = Some (ok, w, snd (conns st) @ [(pf_fd (fds ! i), ok)])"
        by (simp add: logged_def ok)
      show ?thesis
      proof (cases ok)
        case True
        from "1.hyps"(3) [OF \<open>i < length fds \<and> 0 < ready\<close> ready inp(2) lg refl refl True _ _ le(2)] step inp cnt lg True
        show ?thesis unfolding d by (intro round_done_call [OF _ inp]) simp
      next
        case False
        from "1.hyps"(4) [OF \<open>i < length fds \<and> 0 < ready\<close> ready inp(2) lg refl refl False _ _ le(1)] step inp cnt lg False
        show ?thesis unfolding d rm by (intro round_done_call_close [OF _ inp all]) (simp add: close_at_def)
      qed
    qed
  qed
qed


section \<open>The life of a worker\<close>

lemma ready_loop_conserves:
  "ready_loop process i ready fds st = Some (fds', st') \<Longrightarrow>
   mset (map pf_fd fds') + mset (w_closed st') = mset (map pf_fd fds) + mset (w_closed st)"
proof (induction process i ready fds st rule: ready_loop.induct)
  case (1 process i ready fds st)
  show ?case
  proof (cases "i < length fds \<and> 0 < ready")
    case False
    with "1.prems" show ?thesis by (subst (asm) ready_loop.simps) auto
  next
    case True
    with "1.prems" "1.IH" swap_remove_all [of i fds] show ?thesis
      by (auto simp: ready_loop_step close_at_def Let_def split: if_splits option.splits)
  qed
qed

lemma adopt_conserves:
  "adopt new fds st = (fds', st') \<Longrightarrow>
   mset (map pf_fd fds') + mset (w_closed st') = mset (map pf_fd fds) + mset (w_closed st) + mset new"
  by (induction new arbitrary: fds st) (auto split: if_splits)

text \<open>The array never overflows.\<close>

lemma adopt_bound: "adopt new fds st = (fds', st') \<Longrightarrow> length fds \<le> kMaxFds \<Longrightarrow> length fds' \<le> kMaxFds"
  by (induction new arbitrary: fds st) (auto split: if_splits)

lemma map_set_revents [simp]: "map pf_fd (set_revents revents fds) = map pf_fd fds"
  by (simp add: set_revents_def o_def)

lemma image_set_revents [simp]: "image_mset pf_fd (mset (set_revents revents fds)) = image_mset pf_fd (mset fds)"
  by (simp only: map_set_revents flip: mset_map)

text \<open>The connections a worker takes over: those handed to it before \<^verbatim>\<open>poll\<close> fails.\<close>

fun taken :: "(int list \<times> poll_outcome) list \<Rightarrow> int list" where
  "taken [] = []"
| "taken ((new, Poll_error) # turns) = new"
| "taken ((new, _) # turns) = new @ taken turns"

lemma worker_conserves:
  "WorkerLoop process turns fds st = Some st' \<Longrightarrow>
   mset (w_closed st') = mset (w_closed st) + mset (map pf_fd fds) + mset (taken turns)"
proof (induction turns arbitrary: fds st)
  case Nil
  then show ?case by auto
next
  case (Cons turn turns)
  obtain new out fds1 st1 where turn: "turn = (new, out)" and ad: "adopt new fds st = (fds1, st1)"
    by (metis surj_pair)
  note conserve = adopt_conserves [OF ad]
  show ?case
  proof (cases out)
    case Poll_eintr
    with Cons turn ad conserve show ?thesis by (auto simp: ac_simps)
  next
    case Poll_error
    with Cons.prems turn ad conserve show ?thesis by (auto simp: ac_simps)
  next
    case (Polled revents)
    let ?fds2 = "set_revents revents fds1"
    let ?ready = "length (filter is_ready ?fds2)"
    have "\<exists>fds3 st3. WorkerLoop process turns fds3 st3 = Some st'
        \<and> mset (map pf_fd fds3) + mset (w_closed st3) = mset (map pf_fd ?fds2) + mset (w_closed st1)"
    proof (cases "?ready = 0")
      case True
      then have "WorkerLoop process turns ?fds2 st1 = Some st'"
        using Cons.prems turn ad Polled by (simp add: Let_def)
      then show ?thesis by blast
    next
      case False
      with Cons.prems turn ad Polled ready_loop_conserves [of process 0 ?ready ?fds2 st1] show ?thesis
        by (auto simp: Let_def split: option.splits)
    qed
    then obtain fds3 st3 where "WorkerLoop process turns fds3 st3 = Some st'"
        "mset (map pf_fd fds3) + mset (w_closed st3) = mset (map pf_fd ?fds2) + mset (w_closed st1)"
      by blast
    with Cons.IH [of fds3 st3] conserve turn Polled show ?thesis
      by (simp add: ac_simps)
  qed
qed

section \<open>Dealing out connections\<close>

fun accepted :: "accept_event list \<Rightarrow> int list" where
  "accepted [] = []"
| "accepted (Accepted fd # evs) = fd # accepted evs"
| "accepted (Accept_error # evs) = []"
| "accepted (_ # evs) = accepted evs"

lemma accept_loop_deals:
  assumes "0 < n" "rr + length (accepted evs) < 2 ^ 31" "length contexts = n"
  shows "\<exists>contexts'. accept_loop n evs rr contexts = Some contexts' \<and> length contexts' = n
    \<and> (\<forall>i < n. contexts' ! i = contexts ! i @ nths (accepted evs) {j. (rr + j) mod n = i})"
  using assms(2,3)
proof (induction evs arbitrary: rr contexts rule: accepted.induct)
  case (2 fd evs)
  let ?idx = "rr mod n"
  let ?c = "contexts[?idx := contexts ! ?idx @ [fd]]"
  obtain contexts' where c: "accept_loop n evs (rr + 1) ?c = Some contexts'" "length contexts' = n"
      "\<forall>i < n. contexts' ! i = ?c ! i @ nths (accepted evs) {j. (rr + 1 + j) mod n = i}"
    using "2.IH" [of "rr + 1" ?c] "2.prems" by auto
  have "contexts' ! i = contexts ! i @ nths (fd # accepted evs) {j. (rr + j) mod n = i}" if "i < n" for i
    using c(3) that "2.prems"(2) by (auto simp: nths_Cons nth_list_update)
  then show ?case
    using assms(1) "2.prems" c(1,2) by (auto simp: Let_def)
qed (use assms(1) in auto)

lemma residue_count:
  "0 < n \<Longrightarrow> i < n \<Longrightarrow> card {j. j < k \<and> j mod n = i} = k div n + (if i < k mod n then 1 else 0)"
proof (induction k)
  case (Suc k)
  have "{j. j < Suc k \<and> j mod n = i} = (if k mod n = i then insert k else id) {j. j < k \<and> j mod n = i}"
    by (auto simp: less_Suc_eq)
  then have "card {j. j < Suc k \<and> j mod n = i} = card {j. j < k \<and> j mod n = i} + (if k mod n = i then 1 else 0)"
    by simp
  with Suc show ?case
    by (auto simp: div_Suc mod_Suc)
qed simp


section \<open>Properties\<close>

text \<open>C26: a request is answered once and in full. When the bytes of a request have arrived, in any segments,
  and its header and body parse, \<^verbatim>\<open>ProcessOneRequest\<close> consumes exactly the request and, however the
  socket cuts the writes and as often as it is full, puts exactly one response frame on the wire.\<close>

theorem reactor_answers_request:
  assumes size: "4 + length h + length body \<le> reactor_max_frame"
    and arrived: "flowing evs" "nb_bytes evs = legacy_request_frame h body @ rest" "inq c = evs @ later"
    and parse: "ParseRpcHeader pb h \<noteq> None" "ParseLogin lg body" "LoginOk lg = Some resp"
    and room: "Write_error \<notin> set (outq c)" "4 + length resp \<le> write_room (outq c)"
  shows "\<exists>c' evs'. ProcessOneRequest pb lg c = (Some True, c') \<and> wire c' = wire c @ legacy_response_frame resp
    \<and> inq c' = evs' @ later \<and> flowing evs' \<and> nb_bytes evs' = rest"
proof -
  obtain evs' where p: "ProcessOneRequest pb lg c = respond resp (c\<lparr>inq := evs' @ later\<rparr>)"
      "flowing evs'" "nb_bytes evs' = rest"
    using process_request [OF size arrived parse] by blast
  obtain out' where "respond resp (c\<lparr>inq := evs' @ later\<rparr>) =
      (Some True, c\<lparr>inq := evs' @ later, outq := out', wire := wire c @ legacy_response_frame resp\<rparr>)"
    using respond_ok [of "c\<lparr>inq := evs' @ later\<rparr>" resp] room by auto
  with p show ?thesis by simp
qed

text \<open>A request that has not arrived completely is lost. If the socket runs dry anywhere inside a request,
  \<^verbatim>\<open>ProcessOneRequest\<close> reports success, so that the worker counts a request and keeps the connection,
  sends nothing and forgets what it has read: the next call takes the rest of the request for the
  beginning of another one.\<close>

lemma reactor_drops_partial_request:
  assumes "4 + length h + length body \<le> reactor_max_frame" "k < length (legacy_request_frame h body)"
    and "flowing evs" "nb_bytes evs = take k (legacy_request_frame h body)" "inq c = evs @ Nb_again # later"
  shows "ProcessOneRequest pb lg c = (Some True, c\<lparr>inq := later\<rparr>)"
proof (cases "k < 8")
  case True
  then have "length (nb_bytes evs) < 8"
    using assms(4) by simp
  then show ?thesis
    using read_exact_stops [OF assms(3), of 8 later] by (simp add: ProcessOneRequest_def assms(5))
next
  case False
  note len = request_lengths [OF assms(1)]
  have all: "length (nb_bytes evs) = k"
    using assms(2,4) by simp
  with False obtain evs1 where r1: "read_exact (inq c) 8 = (Complete (take 8 (nb_bytes evs)), evs1 @ Nb_again # later)"
      "flowing evs1" "nb_bytes evs1 = drop 8 (nb_bytes evs)"
    using read_exact_flowing [OF assms(3), of 8 "Nb_again # later"] by (auto simp: assms(5))
  have head: "take 8 (nb_bytes evs) =
      rev (mem32 (word_of_nat (4 + length h + length body))) @ rev (mem32 (word_of_nat (length h)))"
    using False request_head(1) [of h body "[]"] by (simp add: assms(4) min_def)
  have "length (nb_bytes evs1) < length h + length body"
    using assms(2) False all by (simp add: r1(3))
  then have r2: "read_exact (evs1 @ Nb_again # later) (length h + length body) = (Read_again, later)"
    by (rule read_exact_stops [OF r1(2)])
  show ?thesis
    unfolding ProcessOneRequest_def r1(1) head prod.case read_result.case Let_def length_fields len
    using assms(1) r2 len by auto
qed

text \<open>C14: a round of the worker serves every connection that is ready exactly once. Although entries are
  removed by moving the last one into their place while the array is scanned, the handler is called
  once for each descriptor with input and for no other, the descriptors with an error and those whose
  request failed are closed and all others kept, and the successful requests are counted.\<close>

theorem worker_round_exact:
  assumes "ready_loop (logged process) 0 (length (filter is_ready fds)) fds st = Some (fds', st')"
  shows "mset (map pf_fd fds') + mset (w_closed st') = mset (map pf_fd fds) + mset (w_closed st)
    \<and> (\<exists>calls. snd (conns st') = snd (conns st) @ calls
         \<and> mset (map fst calls) = mset (map pf_fd (filter (\<lambda>p. pf_in p \<and> \<not> pf_err p) fds))
         \<and> mset (w_closed st') = mset (w_closed st) + mset (map pf_fd (filter pf_err fds))
             + mset (map fst (filter (\<lambda>c. \<not> snd c) calls))
         \<and> counter st' = counter st + word_of_nat (length (filter snd calls)))"
proof -
  have "round_done fds (mset (drop 0 fds)) st fds' st'"
    by (rule ready_loop_spec [OF assms]) (simp_all flip: size_mset)
  then show ?thesis
    by (simp add: round_done_def with_input_def with_error_def)
qed

text \<open>A worker closes every connection exactly once. Whatever its handler does and \<^verbatim>\<open>poll\<close> reports, when
  the worker ends, the descriptors it has closed are exactly those it was handed, the ones it had no
  room for included.\<close>

lemma worker_closes_all:
  assumes "WorkerLoop process turns [] st = Some st'" "w_closed st = []"
  shows "mset (w_closed st') = mset (taken turns)"
  using worker_conserves [OF assms(1)] assms(2) by simp

text \<open>Connections are dealt out evenly. With at least one worker and fewer than \<open>2 ^ 31\<close> connections, the
  main thread gives worker \<open>i\<close> the connections whose number is \<open>i\<close> modulo the number of workers, in
  their order, so that the shares of two workers differ by at most one.\<close>

lemma accept_deals_evenly:
  assumes "0 < n" "length (accepted evs) < 2 ^ 31"
  shows "\<exists>contexts. accept_loop n evs 0 (replicate n []) = Some contexts \<and> length contexts = n
    \<and> (\<forall>i < n. contexts ! i = nths (accepted evs) {j. j mod n = i}
         \<and> length (contexts ! i) = length (accepted evs) div n + (if i < length (accepted evs) mod n then 1 else 0))"
proof -
  obtain contexts where c: "accept_loop n evs 0 (replicate n []) = Some contexts" "length contexts = n"
      "\<forall>i < n. contexts ! i = replicate n [] ! i @ nths (accepted evs) {j. (0 + j) mod n = i}"
    using accept_loop_deals [OF assms(1), of 0 evs "replicate n []"] assms(2) by auto
  then show ?thesis
    using residue_count [OF assms(1)] by (simp add: length_nths)
qed

section \<open>Witnesses\<close>

definition sample_login :: login_pb where
  "sample_login = \<lparr>ParseLogin = (\<lambda>b. b \<noteq> []), LoginOk = Some [10, 4, 18, 2, 111, 107, 16, 1]\<rparr>"

definition sample_conn :: conn where
  "sample_conn =
     \<lparr>inq = [Nb_data (take 3 (legacy_request_frame [10, 0] [7])), Nb_data (drop 3 (legacy_request_frame [10, 0] [7]))],
      outq = [Wrote 1, Write_again, Wrote 6, Wrote 100], wire = []\<rparr>"

theorem reactor_answers_request_witness:
  "\<exists>c'. ProcessOneRequest (sample_legacy_pb [10, 0]) sample_login sample_conn = (Some True, c')
     \<and> wire c' = legacy_response_frame [10, 4, 18, 2, 111, 107, 16, 1]"
proof -
  let ?f = "legacy_request_frame [10, 0] [7]"
  let ?evs = "[Nb_data (take 3 ?f), Nb_data (drop 3 ?f)]"
  have evs: "flowing ?evs" "nb_bytes ?evs = ?f @ []" "inq sample_conn = ?evs @ []"
    by (simp_all add: sample_conn_def flip: length_greater_0_conv)
  show ?thesis
    using reactor_answers_request [OF _ evs, of "sample_legacy_pb [10, 0]" sample_login "[10, 4, 18, 2, 111, 107, 16, 1]"]
    by (auto simp: sample_login_def sample_conn_def reactor_max_frame_def write_room_def)
qed

definition sample_fds :: "pollfd list" where
  "sample_fds = [\<lparr>pf_fd = 4, pf_err = True, pf_in = False\<rparr>, \<lparr>pf_fd = 5, pf_err = False, pf_in = False\<rparr>,
     \<lparr>pf_fd = 6, pf_err = False, pf_in = True\<rparr>]"

definition sample_worker :: "(unit \<times> (int \<times> bool) list) worker" where
  "sample_worker = \<lparr>w_closed = [], counter = 0, conns = ((), [])\<rparr>"

lemma sample_round:
  "ready_loop (logged (\<lambda>fd w. Some (True, w))) 0 (length (filter is_ready sample_fds)) sample_fds sample_worker
   = Some ([\<lparr>pf_fd = 6, pf_err = False, pf_in = True\<rparr>, \<lparr>pf_fd = 5, pf_err = False, pf_in = False\<rparr>],
       \<lparr>w_closed = [4], counter = 1, conns = ((), [(6, True)])\<rparr>)"
  by (simp add: sample_fds_def sample_worker_def ready_loop.simps swap_remove_def close_at_def logged_def)

theorem worker_round_exact_witness:
  "\<exists>fds' st'. ready_loop (logged (\<lambda>fd w. Some (True, w))) 0 2 sample_fds sample_worker = Some (fds', st')
     \<and> mset (map fst (snd (conns st'))) = {#6#} \<and> mset (w_closed st') = {#4#}"
proof -
  have two: "length (filter is_ready sample_fds) = 2"
    by (simp add: sample_fds_def)
  from sample_round worker_round_exact [OF sample_round] show ?thesis
    unfolding two by (auto simp: sample_fds_def sample_worker_def)
qed

end
