(* ===== verification/Mini_Server.thy ===== *)
theory Mini_Server
  imports Reactor Rpc_Channel
begin

text \<open>
  The server with one thread per connection of \<^verbatim>\<open>tools/mini_server.cc\<close>: its blocking reads and the
  loop that serves one client. It speaks the legacy protocol with the messages of \<open>Reactor\<close> over the
  sockets of \<open>Rpc_Channel\<close>; \<^verbatim>\<open>g_running\<close> stays set.
\<close>

section \<open>Serving a client\<close>

text \<open>Unlike the channel, this loop gives up when it is interrupted.\<close>

primrec server_recv_exact :: "recv_event list \<Rightarrow> nat \<Rightarrow> recv_result \<times> recv_event list" where
  "server_recv_exact [] n = (if n = 0 then (Received [], []) else (Would_block, []))"
| "server_recv_exact (ev # evs) n =
     (if n = 0 then (Received [], ev # evs)
      else case ev of
             Eintr \<Rightarrow> (Recv_failed, evs)
           | Recv_error \<Rightarrow> (Recv_failed, evs)
           | Data d \<Rightarrow>
               (if d = [] then (Closed, evs)
                else if n < length d then (Received (take n d), Data (drop n d) # evs)
                else case server_recv_exact evs (n - length d) of
                       (Received r, evs') \<Rightarrow> (Received (d @ r), evs')
                     | (x, evs') \<Rightarrow> (x, evs')))"

text \<open>One blocking \<^verbatim>\<open>send\<close>, which has to take all bytes.\<close>

definition send_all :: "nat option list \<Rightarrow> bytes \<Rightarrow> bytes \<Rightarrow> bool option \<times> nat option list \<times> bytes" where
  "send_all ws bs out =
     (case ws of
        [] \<Rightarrow> (None, [], out)
      | None # ws' \<Rightarrow> (Some False, ws', out)
      | Some k # ws' \<Rightarrow> (Some (length bs \<le> k), ws', out @ take k bs))"

text \<open>How serving a client ends: its connection is closed, the thread waits, or it reads outside of the
  frame.\<close>

datatype client_end = Hung_up | Waiting | Out_of_bounds

lemma server_recv_rest:
  "server_recv_exact evs n = (Received bs, evs') \<Longrightarrow> length (stream_bytes evs) = n + length (stream_bytes evs')"
proof (induction evs arbitrary: n bs evs')
  case Nil
  then show ?case by (auto split: if_splits)
next
  case (Cons ev evs)
  then show ?case
    by (cases ev) (fastforce split: if_splits prod.splits recv_result.splits)+
qed

function handle_client :: "protobuf \<Rightarrow> login_pb \<Rightarrow> recv_event list \<Rightarrow> nat option list \<Rightarrow> bytes
    \<Rightarrow> client_end \<times> bytes" where
  "handle_client pb lg evs ws out =
     (case server_recv_exact evs 4 of
        (Received total_len_be, evs1) \<Rightarrow>
          let total_len = ntohl (load32 total_len_be)
          in if total_len = 0 \<or> unat total_len > 16 * 1024 * 1024 then (Hung_up, out)
             else case server_recv_exact evs1 4 of
               (Received header_len_be, evs2) \<Rightarrow>
                 let header_len = ntohl (load32 header_len_be);
                     remaining = total_len - 4
                 in (case server_recv_exact evs2 (unat remaining) of
                       (Received frame, evs3) \<Rightarrow>
                         if unat header_len > length frame then (Out_of_bounds, out)
                         else if ParseRpcHeader pb (take (unat header_len) frame) = None then (Hung_up, out)
                         else if \<not> ParseLogin lg (drop (unat header_len) frame) then (Hung_up, out)
                         else (case LoginOk lg of
                                 None \<Rightarrow> (Hung_up, out)
                               | Some resp_body \<Rightarrow>
                                   (case send_all ws (mem32 (htonl (word_of_nat (length resp_body)))) out of
                                      (None, _, out1) \<Rightarrow> (Waiting, out1)
                                    | (Some False, _, out1) \<Rightarrow> (Hung_up, out1)
                                    | (Some True, ws1, out1) \<Rightarrow>
                                        (case send_all ws1 resp_body out1 of
                                           (None, _, out2) \<Rightarrow> (Waiting, out2)
                                         | (Some False, _, out2) \<Rightarrow> (Hung_up, out2)
                                         | (Some True, ws2, out2) \<Rightarrow> handle_client pb lg evs3 ws2 out2)))
                     | (Would_block, _) \<Rightarrow> (Waiting, out)
                     | _ \<Rightarrow> (Hung_up, out))
             | (Would_block, _) \<Rightarrow> (Waiting, out)
             | _ \<Rightarrow> (Hung_up, out)
      | (Would_block, _) \<Rightarrow> (Waiting, out)
      | _ \<Rightarrow> (Hung_up, out))"
  by pat_completeness auto
termination
  by (relation "measure (\<lambda>(pb, lg, evs, ws, out). length (stream_bytes evs))")
    (auto dest!: server_recv_rest [OF sym])

declare handle_client.simps [simp del]

section \<open>Requests in a row\<close>

definition uninterrupted :: "recv_event list \<Rightarrow> bool" where
  "uninterrupted evs \<longleftrightarrow> (\<forall>ev \<in> set evs. \<exists>d. ev = Data d \<and> d \<noteq> [])"

lemma uninterrupted_simps [simp]:
  "uninterrupted []" "uninterrupted (Data d # evs) \<longleftrightarrow> d \<noteq> [] \<and> uninterrupted evs"
  "\<not> uninterrupted (Eintr # evs)" "\<not> uninterrupted (Recv_error # evs)"
  by (auto simp: uninterrupted_def)

lemma server_recv_uninterrupted:
  assumes "uninterrupted evs" "n \<le> length (stream_bytes evs)"
  shows "\<exists>evs'. server_recv_exact evs n = (Received (take n (stream_bytes evs)), evs')
    \<and> uninterrupted evs' \<and> stream_bytes evs' = drop n (stream_bytes evs)"
  using assms
proof (induction evs arbitrary: n)
  case Nil
  then show ?case by simp
next
  case (Cons ev evs)
  obtain d where d: "ev = Data d" "d \<noteq> []"
    using Cons.prems(1) by (cases ev) auto
  show ?case
  proof (cases "n < length d")
    case True
    with d Cons.prems show ?thesis by (cases "n = 0") auto
  next
    case False
    have "n - length d \<le> length (stream_bytes evs)" "uninterrupted evs"
      using Cons.prems d by auto
    then obtain evs' where "server_recv_exact evs (n - length d)
        = (Received (take (n - length d) (stream_bytes evs)), evs')"
      "uninterrupted evs'" "stream_bytes evs' = drop (n - length d) (stream_bytes evs)"
      using Cons.IH [of "n - length d"] by blast
    with False d show ?thesis
      by (intro exI [of _ evs']) (auto simp: Suc_le_eq neq_Nil_conv)
  qed
qed

lemma handle_one:
  assumes size: "4 + length h + length body \<le> reactor_max_frame"
    and evs: "uninterrupted evs" "stream_bytes evs = legacy_request_frame h body @ rest"
    and parse: "ParseRpcHeader pb h \<noteq> None" "ParseLogin lg body" "LoginOk lg = Some resp"
    and room: "4 \<le> k" "length resp \<le> l"
  shows "\<exists>evs'. handle_client pb lg evs (Some k # Some l # ws) out
      = handle_client pb lg evs' ws (out @ legacy_response_frame resp)
    \<and> uninterrupted evs' \<and> stream_bytes evs' = rest"
proof -
  note len = request_lengths [OF size]
  let ?t = "word_of_nat (4 + length h + length body) :: 32 word" and ?h = "word_of_nat (length h) :: 32 word"
  have frame: "stream_bytes evs = rev (mem32 ?t) @ rev (mem32 ?h) @ (h @ body) @ rest"
    using evs(2) by (simp only: legacy_request_frame_def append_assoc)
  obtain evs1 where r1: "server_recv_exact evs 4 = (Received (rev (mem32 ?t)), evs1)" "uninterrupted evs1"
      "stream_bytes evs1 = rev (mem32 ?h) @ (h @ body) @ rest"
    using server_recv_uninterrupted [OF evs(1), of 4] by (auto simp: frame simp del: of_nat_add)
  obtain evs2 where r2: "server_recv_exact evs1 4 = (Received (rev (mem32 ?h)), evs2)" "uninterrupted evs2"
      "stream_bytes evs2 = (h @ body) @ rest"
    using server_recv_uninterrupted [OF r1(2), of 4] by (auto simp: r1(3))
  obtain evs3 where r3: "server_recv_exact evs2 (length h + length body) = (Received (h @ body), evs3)" "uninterrupted evs3"
      "stream_bytes evs3 = rest"
    using server_recv_uninterrupted [OF r2(2), of "length h + length body"] by (auto simp: r2(3))
  have fields: "ntohl (load32 (rev (mem32 x))) = x" for x
    by (simp add: be32_def [symmetric] byte_simps)
  have nz: "?t \<noteq> 0"
    using len(1) by force
  have sends: "send_all (Some k # Some l # ws) (mem32 (htonl (word_of_nat (length resp)))) out =
      (Some True, Some l # ws, out @ mem32 (htonl (word_of_nat (length resp))))"
      "send_all (Some l # ws) resp o1 = (Some True, ws, o1 @ resp)" for o1
    using room by (simp_all add: send_all_def)
  have wire: "out @ legacy_response_frame resp = (out @ mem32 (htonl (word_of_nat (length resp)))) @ resp"
    by (simp add: legacy_response_frame_def mem32_htonl)
  obtain y where y: "ParseRpcHeader pb h = Some y"
    using parse(1) by blast
  have le: "\<not> 16 * 1024 * 1024 < 4 + length h + length body"
    using size by (simp add: reactor_max_frame_def)
  have "handle_client pb lg evs (Some k # Some l # ws) out
      = handle_client pb lg evs3 ws (out @ legacy_response_frame resp)"
    unfolding wire
    by (subst handle_client.simps, unfold r1(1) r2(1) prod.case recv_result.case Let_def fields len r3(1) sends option.case bool.case parse(3))
      (use nz y parse(2) le in simp)
  with r3 show ?thesis by blast
qed

lemma handle_requests:
  assumes "\<forall>(h, body) \<in> set reqs. 4 + length h + length body \<le> reactor_max_frame
      \<and> ParseRpcHeader pb h \<noteq> None \<and> ParseLogin lg body"
    and "LoginOk lg = Some resp" "uninterrupted evs"
    and "stream_bytes evs = concat (map (\<lambda>(h, body). legacy_request_frame h body) reqs)"
    and "length resp \<le> k" "4 \<le> k"
  shows "handle_client pb lg evs (replicate (2 * length reqs) (Some k)) out
    = (Waiting, out @ concat (replicate (length reqs) (legacy_response_frame resp)))"
  using assms(1,3,4)
proof (induction reqs arbitrary: evs out)
  case Nil
  then have "evs = []"
    by (cases evs; cases "hd evs") auto
  then show ?case
    by (simp add: handle_client.simps)
next
  case (Cons req reqs)
  obtain h body where req: "req = (h, body)" by fastforce
  have ok: "4 + length h + length body \<le> reactor_max_frame" "ParseRpcHeader pb h \<noteq> None" "ParseLogin lg body"
    using Cons.prems(1) by (auto simp: req)
  have bytes: "stream_bytes evs = legacy_request_frame h body @ concat (map (\<lambda>(h, body). legacy_request_frame h body) reqs)"
    using Cons.prems(3) by (simp add: req)
  obtain evs' where step: "handle_client pb lg evs (Some k # Some k # replicate (2 * length reqs) (Some k)) out
      = handle_client pb lg evs' (replicate (2 * length reqs) (Some k)) (out @ legacy_response_frame resp)"
      "uninterrupted evs'" "stream_bytes evs' = concat (map (\<lambda>(h, body). legacy_request_frame h body) reqs)"
    using handle_one [OF ok(1) Cons.prems(2) bytes ok(2,3) assms(2,6,5)] by blast
  have "handle_client pb lg evs' (replicate (2 * length reqs) (Some k)) (out @ legacy_response_frame resp)
      = (Waiting, (out @ legacy_response_frame resp) @ concat (replicate (length reqs) (legacy_response_frame resp)))"
    using Cons.prems(1) by (intro Cons.IH step(2,3)) simp
  with step(1) show ?case by simp
qed

end
