(* ===== verification/Latency_Stats.thy ===== *)
theory Latency_Stats
  imports Ieee_Double "HOL-Library.Word" "HOL-Library.Multiset"
begin

text \<open>
  The exact percentiles that \<^verbatim>\<open>tools/real_benchmark.cc\<close> and \<^verbatim>\<open>tools/rcu_benchmark.cc\<close> take from their
  samples, and the verdict on the tail that both print. Unlike the histogram of \<open>Runtime_Stats\<close> they
  sort all samples. The index computations stay below \<open>2 ^ 63\<close> for any number of samples that fits
  into memory.
\<close>

section \<open>Percentiles of the samples\<close>

record LatencyStats =
  ls_p50 :: rat
  ls_p99 :: rat
  ls_p999 :: rat
  ls_avg :: rat
  ls_max :: rat
  ls_count :: nat

definition LatencyStats_init :: LatencyStats where
  "LatencyStats_init = \<lparr>ls_p50 = 0, ls_p99 = 0, ls_p999 = 0, ls_avg = 0, ls_max = 0, ls_count = 0\<rparr>"

text \<open>The samples of \<^verbatim>\<open>real_benchmark\<close> are \<^verbatim>\<open>double\<close>s; their sum is rounded at every addition.\<close>

definition double_sum :: "rat list \<Rightarrow> rat" where
  "double_sum xs = foldl (\<lambda>acc v. rnd (acc + v)) 0 xs"

definition ComputePercentiles_ms :: "rat list \<Rightarrow> LatencyStats" where
  "ComputePercentiles_ms samples =
     (if samples = [] then LatencyStats_init
      else let sorted_samples = sort samples; n = length samples
           in \<lparr>ls_p50 = sorted_samples ! (n * 50 div 100), ls_p99 = sorted_samples ! (n * 99 div 100),
               ls_p999 = sorted_samples ! (n * 999 div 1000), ls_avg = rnd (double_sum sorted_samples / rnd (of_nat n)),
               ls_max = last sorted_samples, ls_count = n\<rparr>)"

text \<open>Those of \<^verbatim>\<open>rcu_benchmark\<close> are \<^verbatim>\<open>long long\<close>s, added up at 64 bits.\<close>

definition ComputePercentiles_ns :: "int list \<Rightarrow> LatencyStats" where
  "ComputePercentiles_ns samples =
     (if samples = [] then LatencyStats_init
      else let sorted_samples = sort samples; n = length samples;
               dbl = (\<lambda>v. rnd (of_int v));
               sum = sum_list (map word_of_int sorted_samples) :: 64 word
           in \<lparr>ls_p50 = dbl (sorted_samples ! (n * 50 div 100)), ls_p99 = dbl (sorted_samples ! (n * 99 div 100)),
               ls_p999 = dbl (sorted_samples ! (n * 999 div 1000)), ls_avg = rnd (dbl (sint sum) / rnd (of_nat n)),
               ls_max = dbl (last sorted_samples), ls_count = n\<rparr>)"

text \<open>What is said about the tail. The two programs guard the division differently.\<close>

datatype tail_verdict = Severe_tail | Moderate_tail | Healthy

definition tail_of_ratio :: "rat \<Rightarrow> tail_verdict" where
  "tail_of_ratio r = (if r > 10 then Severe_tail else if r > 3 then Moderate_tail else Healthy)"

definition real_tail :: "LatencyStats \<Rightarrow> tail_verdict" where
  "real_tail s = tail_of_ratio (if ls_p50 s > rnd (1/1000) then rnd (ls_p999 s / ls_p50 s) else 0)"

definition rcu_tail :: "LatencyStats \<Rightarrow> tail_verdict" where
  "rcu_tail s = tail_of_ratio (if ls_p50 s > 0 then rnd (ls_p999 s / ls_p50 s) else 0)"

text \<open>The share of successful calls in percent.\<close>

definition success_rate :: "int \<Rightarrow> int \<Rightarrow> rat" where
  "success_rate s t = (if t > 0 then rnd (rnd (100 * rnd (of_int s)) / rnd (of_int t)) else 0)"

section \<open>Order statistics\<close>

lemma last_sorted_Max:
  fixes xs :: "'a :: linorder list"
  assumes "sorted xs" "xs \<noteq> []"
  shows "last xs = Max (set xs)"
proof (rule sym, rule Max_eqI)
  show "y \<le> last xs" if y: "y \<in> set xs" for y
  proof -
    obtain i where "i < length xs" "y = xs ! i"
      using y by (metis in_set_conv_nth)
    with assms show ?thesis
      by (simp add: last_conv_nth sorted_nth_mono)
  qed
qed (use assms in auto)

lemma last_sort_Max: "xs \<noteq> [] \<Longrightarrow> last (sort xs) = Max (set xs)"
  by (metis last_sorted_Max length_0_conv length_sort set_sort sorted_sort)

lemma length_filter_parts:
  "length (filter P (take k ys)) \<le> length (filter P ys)" "length (filter P (drop k ys)) \<le> length (filter P ys)"
  by (metis append_take_drop_id filter_append length_append le_add1)
    (metis append_take_drop_id filter_append length_append le_add2)

text \<open>The element at position \<open>k\<close> of the sorted list has more than \<open>k\<close> samples at or below it and at
  least \<open>n - k\<close> at or above it.\<close>

lemma rank_below:
  assumes "k < length xs"
  shows "k < length (filter (\<lambda>v. v \<le> sort xs ! k) xs)"
proof -
  have "take (Suc k) (sort xs) = filter (\<lambda>v. v \<le> sort xs ! k) (take (Suc k) (sort xs))"
    using assms by (intro filter_True [symmetric] ballI) (auto simp: in_set_conv_nth intro!: sorted_nth_mono)
  then have "Suc k = length (filter (\<lambda>v. v \<le> sort xs ! k) (take (Suc k) (sort xs)))"
    using assms by (metis length_take length_sort min.absorb2 Suc_leI)
  also have "\<dots> \<le> length (filter (\<lambda>v. v \<le> sort xs ! k) (sort xs))"
    by (rule length_filter_parts)
  also have "\<dots> = length (filter (\<lambda>v. v \<le> sort xs ! k) xs)"
    by (metis mset_filter mset_sort size_mset)
  finally show ?thesis by simp
qed

lemma rank_above:
  assumes "k < length xs"
  shows "length xs - k \<le> length (filter (\<lambda>v. sort xs ! k \<le> v) xs)"
proof -
  have "drop k (sort xs) = filter (\<lambda>v. sort xs ! k \<le> v) (drop k (sort xs))"
    using assms by (intro filter_True [symmetric] ballI) (auto simp: in_set_conv_nth intro!: sorted_nth_mono)
  then have "length xs - k = length (filter (\<lambda>v. sort xs ! k \<le> v) (drop k (sort xs)))"
    by (metis length_drop length_sort)
  also have "\<dots> \<le> length (filter (\<lambda>v. sort xs ! k \<le> v) (sort xs))"
    by (rule length_filter_parts)
  also have "\<dots> = length (filter (\<lambda>v. sort xs ! k \<le> v) xs)"
    by (metis mset_filter mset_sort size_mset)
  finally show ?thesis .
qed

lemma sorted_index_mono: "i \<le> j \<Longrightarrow> j < length xs \<Longrightarrow> sort xs ! i \<le> sort xs ! j"
  by (intro sorted_nth_mono) simp_all

lemma sorted_index_max: "i < length xs \<Longrightarrow> sort xs ! i \<le> Max (set xs)"
  by (intro Max_ge) (use nth_mem [of i "sort xs"] in auto)

lemma percentile_indices:
  assumes "0 < (n :: nat)"
  shows "n * 50 div 100 < n" "n * 99 div 100 < n" "n * 999 div 1000 < n"
    "n * 50 div 100 \<le> n * 99 div 100" "n * 99 div 100 \<le> n * 999 div 1000"
  using assms by linarith+

lemma success_rate_bounds:
  assumes "0 \<le> s" "s \<le> t" "100 * t < 2 ^ 53"
  shows "0 \<le> success_rate s t \<and> success_rate s t \<le> 100"
proof (cases "t > 0")
  case True
  have exact: "rnd (of_int s) = of_int s" "rnd (of_int t) = of_int t" "rnd (100 * of_int s) = 100 * of_int s"
    using assms rnd_of_int [of s] rnd_of_int [of t] rnd_of_int [of "100 * s"] by simp_all
  have frac: "0 \<le> 100 * of_int s / (of_int t :: rat)" "100 * of_int s / (of_int t :: rat) \<le> 100"
    using assms True by (simp_all add: pos_divide_le_eq)
  have "rnd 100 = 100"
    using rnd_of_int [of 100] by simp
  then show ?thesis
    using True rnd_nonneg [OF frac(1)] rnd_mono [OF frac] by (simp add: success_rate_def exact)
qed (simp add: success_rate_def)

section \<open>Properties\<close>

text \<open>C36: the exact percentiles are order statistics. For any samples the three positions lie inside the
  vector, the values are ordered up to the maximum, and each percentile separates the samples: with k
  the number for 50 %, 99 % or 99.9 % of the n samples (rounded down), more than k samples do not exceed
  it and at least n - k are not below it, which leaves the sample of rank k only.\<close>

theorem exact_percentiles:
  assumes "samples \<noteq> []"
  shows "ls_p50 (ComputePercentiles_ms samples) \<le> ls_p99 (ComputePercentiles_ms samples)
    \<and> ls_p99 (ComputePercentiles_ms samples) \<le> ls_p999 (ComputePercentiles_ms samples)
    \<and> ls_p999 (ComputePercentiles_ms samples) \<le> ls_max (ComputePercentiles_ms samples)
    \<and> ls_max (ComputePercentiles_ms samples) = Max (set samples)
    \<and> set [ls_p50 (ComputePercentiles_ms samples), ls_p99 (ComputePercentiles_ms samples),
        ls_p999 (ComputePercentiles_ms samples)] \<subseteq> set samples
    \<and> length samples * 50 div 100 < length (filter (\<lambda>v. v \<le> ls_p50 (ComputePercentiles_ms samples)) samples)
    \<and> length samples * 99 div 100 < length (filter (\<lambda>v. v \<le> ls_p99 (ComputePercentiles_ms samples)) samples)
    \<and> length samples * 999 div 1000 < length (filter (\<lambda>v. v \<le> ls_p999 (ComputePercentiles_ms samples)) samples)
    \<and> length samples - length samples * 50 div 100
        \<le> length (filter (\<lambda>v. ls_p50 (ComputePercentiles_ms samples) \<le> v) samples)
    \<and> length samples - length samples * 99 div 100
        \<le> length (filter (\<lambda>v. ls_p99 (ComputePercentiles_ms samples) \<le> v) samples)
    \<and> ls_count (ComputePercentiles_ms samples) = length samples
    \<and> length samples - length samples * 999 div 1000
        \<le> length (filter (\<lambda>v. ls_p999 (ComputePercentiles_ms samples) \<le> v) samples)"
proof -
  let ?n = "length samples"
  have n: "0 < ?n" using assms by simp
  note idx = percentile_indices [OF n]
  have eq: "ls_p50 (ComputePercentiles_ms samples) = sort samples ! (?n * 50 div 100)"
    "ls_p99 (ComputePercentiles_ms samples) = sort samples ! (?n * 99 div 100)"
    "ls_p999 (ComputePercentiles_ms samples) = sort samples ! (?n * 999 div 1000)"
    "ls_max (ComputePercentiles_ms samples) = Max (set samples)"
    "ls_count (ComputePercentiles_ms samples) = ?n"
    using assms by (simp_all add: ComputePercentiles_ms_def Let_def last_sort_Max)
  have mem: "sort samples ! i \<in> set samples" if "i < ?n" for i
    using that nth_mem [of i "sort samples"] by simp
  show ?thesis
    unfolding eq
    by (intro conjI sorted_index_mono sorted_index_max rank_below rank_above idx refl) (use idx mem in simp_all)
qed

text \<open>The same holds for the samples of the lock benchmark; its values go through \<^verbatim>\<open>double\<close>, which keeps
  their order.\<close>

lemma exact_percentiles_ns:
  assumes "samples \<noteq> []" "\<forall>v \<in> set samples. 0 \<le> v"
  shows "ls_p50 (ComputePercentiles_ns samples) \<le> ls_p99 (ComputePercentiles_ns samples)"
    "ls_p99 (ComputePercentiles_ns samples) \<le> ls_p999 (ComputePercentiles_ns samples)"
    "ls_p999 (ComputePercentiles_ns samples) \<le> ls_max (ComputePercentiles_ns samples)"
proof -
  let ?n = "length samples" and ?d = "\<lambda>v. rnd (of_int v) :: rat"
  have n: "0 < ?n" using assms by simp
  note idx = percentile_indices [OF n]
  have mem: "0 \<le> sort samples ! i" if "i < ?n" for i
    using assms(2) that nth_mem [of i "sort samples"] by simp
  have mono: "?d a \<le> ?d b" if "0 \<le> a" "a \<le> b" for a b
    using that by (intro rnd_mono) simp_all
  have "last (sort samples) = Max (set samples)"
    using assms(1) by (rule last_sort_Max)
  then show "ls_p50 (ComputePercentiles_ns samples) \<le> ls_p99 (ComputePercentiles_ns samples)"
    "ls_p99 (ComputePercentiles_ns samples) \<le> ls_p999 (ComputePercentiles_ns samples)"
    "ls_p999 (ComputePercentiles_ns samples) \<le> ls_max (ComputePercentiles_ns samples)"
    using assms(1) idx
    by (auto simp: ComputePercentiles_ns_def Let_def intro!: mono mem sorted_index_mono sorted_index_max)
qed

section \<open>Witness\<close>

theorem exact_percentiles_witness:
  "ls_p50 (ComputePercentiles_ms [3, 1, 2]) \<le> ls_p999 (ComputePercentiles_ms [3, 1, 2])
    \<and> ls_max (ComputePercentiles_ms [3, 1, 2]) = 3"
proof -
  note e = exact_percentiles [of "[3, 1, 2]", OF list.distinct(2)]
  have "ls_max (ComputePercentiles_ms [3, 1, 2]) = Max (set [3, 1, 2])"
    using e by blast
  also have "\<dots> = 3" by simp
  finally show ?thesis
    using e by (meson order_trans)
qed

end
