(* ===== verification/Real_Benchmark.thy ===== *)
theory Real_Benchmark
  imports Mini_Server Latency_Stats User_Service
begin

text \<open>
  The raw client of \<^verbatim>\<open>tools/real_benchmark.cc\<close>: it builds legacy frames by hand, without the channel and
  the codecs, and measures the stand-alone servers. Its \<^verbatim>\<open>recv_exact\<close> is the text of that of
  \<open>Mini_Server\<close>. A socket is a script of what the system delivers and takes; the clock is a function
  from the number of its readings to nanoseconds.
\<close>

section \<open>One call\<close>

record raw_sock =
  rs_in :: "recv_event list"
  rs_room :: "nat option list"
  rs_sent :: bytes
  rs_ticks :: nat

text \<open>The frame, field by field into a zeroed vector; the lengths are \<^verbatim>\<open>uint32_t\<close>s.\<close>

definition raw_frame :: "bytes \<Rightarrow> bytes \<Rightarrow> bytes" where
  "raw_frame header_bytes req_body =
     (let header_len = word_of_nat (length header_bytes) :: 32 word;
          total_len = 4 + header_len + word_of_nat (length req_body);
          wire = replicate (unat (8 + header_len) + length req_body) 0;
          wire1 = memcpy wire 0 (mem32 (htonl total_len));
          wire2 = memcpy wire1 4 (mem32 (htonl header_len));
          wire3 = memcpy wire2 8 (take (unat header_len) header_bytes)
      in if req_body = [] then wire3 else memcpy wire3 (unat (8 + header_len)) req_body)"

text \<open>The call gives its result, the error message and the latency; \<open>None\<close> when it waits forever.\<close>

definition RpcCall :: "protobuf \<Rightarrow> user_pb \<Rightarrow> (nat \<Rightarrow> int) \<Rightarrow> bytes \<Rightarrow> bytes \<Rightarrow> bytes \<Rightarrow> raw_sock
    \<Rightarrow> (bool \<times> bytes \<times> rat) option \<times> raw_sock" where
  "RpcCall pb up clock service mth req_body sk0 =
     (let t0 = clock (rs_ticks sk0);
          sk = sk0\<lparr>rs_ticks := Suc (rs_ticks sk0)\<rparr>;
          failed = Some (False, [], 0)
      in case SerializeRpcHeader pb \<lparr>rh_service_name = service, rh_method_name = mth,
                rh_args_size = word_of_nat (length req_body)\<rparr> of
           None \<Rightarrow> (failed, sk)
         | Some header_bytes \<Rightarrow>
             (case send_all (rs_room sk) (raw_frame header_bytes req_body) (rs_sent sk) of
                (None, _, out) \<Rightarrow> (None, sk\<lparr>rs_sent := out\<rparr>)
              | (Some False, room, out) \<Rightarrow> (failed, sk\<lparr>rs_room := room, rs_sent := out\<rparr>)
              | (Some True, room, out) \<Rightarrow>
                  let sk1 = sk\<lparr>rs_room := room, rs_sent := out\<rparr>
                  in (case server_recv_exact (rs_in sk1) 4 of
                        (Would_block, evs) \<Rightarrow> (None, sk1\<lparr>rs_in := evs\<rparr>)
                      | (Received resp_len_be, evs) \<Rightarrow>
                          let resp_len = ntohl (load32 resp_len_be); sk2 = sk1\<lparr>rs_in := evs\<rparr>
                          in if unat resp_len > 16 * 1024 * 1024 then (failed, sk2)
                             else (case server_recv_exact (rs_in sk2) (unat resp_len) of
                                     (Would_block, evs') \<Rightarrow> (None, sk2\<lparr>rs_in := evs'\<rparr>)
                                   | (Received body_buf, evs') \<Rightarrow>
                                       let sk3 = sk2\<lparr>rs_in := evs'\<rparr>
                                       in (case ParseLoginResponse up body_buf of
                                             None \<Rightarrow> (failed, sk3)
                                           | Some resp \<Rightarrow>
                                               (Some (errcode (lp_result resp) = 0, errmsg (lp_result resp),
                                                  elapsed_ms t0 (clock (rs_ticks sk3))),
                                                sk3\<lparr>rs_ticks := Suc (rs_ticks sk3)\<rparr>))
                                   | (_, evs') \<Rightarrow> (failed, sk2\<lparr>rs_in := evs'\<rparr>))
                      | (_, evs) \<Rightarrow> (failed, sk1\<lparr>rs_in := evs\<rparr>))))"

section \<open>A worker\<close>

text \<open>
  Connecting: the outcome of each attempt is an argument. The result says whether it succeeded, how
  many attempts were made and how many microseconds the thread slept in between.
\<close>

function connect_loop :: "(nat \<Rightarrow> bool) \<Rightarrow> nat \<Rightarrow> nat \<Rightarrow> bool \<times> nat \<times> nat" where
  "connect_loop attempt retry slept =
     (if attempt retry then (True, Suc retry, slept)
      else if Suc retry \<ge> 20 then (False, Suc retry, slept)
      else connect_loop attempt (Suc retry) (slept + 100 * Suc retry))"
  by pat_completeness auto
termination
  by (relation "measure (\<lambda>(attempt, retry, slept). 20 - retry)") auto

declare connect_loop.simps [simp del]

record bench_totals =
  bt_success :: int
  bt_fail :: int
  bt_latencies :: "rat list"
  bt_closed :: "int list"

primrec call_loop :: "protobuf \<Rightarrow> user_pb \<Rightarrow> (nat \<Rightarrow> int) \<Rightarrow> bytes \<Rightarrow> nat \<Rightarrow> nat \<Rightarrow> raw_sock \<Rightarrow> bench_totals
    \<Rightarrow> (raw_sock \<times> bench_totals) option" where
  "call_loop pb up clock req_body i 0 sk t = Some (sk, t)"
| "call_loop pb up clock req_body i (Suc n) sk t =
     (case RpcCall pb up clock (lit ''UserServiceRpc'') (lit ''Login'') req_body sk of
        (None, _) \<Rightarrow> None
      | (Some (ok, _, lat_ms), sk') \<Rightarrow>
          let t' = (if ok then t\<lparr>bt_success := bt_success t + 1,
                        bt_latencies := (if i mod 10 = 0 then bt_latencies t @ [lat_ms] else bt_latencies t)\<rparr>
                    else t\<lparr>bt_fail := bt_fail t + 1\<rparr>)
          in call_loop pb up clock req_body (Suc i) n sk' t')"

text \<open>\<open>socket_fd\<close> is what \<^verbatim>\<open>socket\<close> returns. A worker that hangs is \<open>None\<close>.\<close>

definition Worker :: "protobuf \<Rightarrow> user_pb \<Rightarrow> (nat \<Rightarrow> int) \<Rightarrow> int \<Rightarrow> (nat \<Rightarrow> bool) \<Rightarrow> raw_sock \<Rightarrow> int \<Rightarrow> bench_totals
    \<Rightarrow> (raw_sock \<times> bench_totals) option" where
  "Worker pb up clock socket_fd attempt sk calls_per_thread t =
     (let give_up = (\<lambda>t. t\<lparr>bt_fail := bt_fail t + calls_per_thread\<rparr>);
          close_fd = (\<lambda>t. t\<lparr>bt_closed := bt_closed t @ [socket_fd]\<rparr>)
      in if socket_fd < 0 then Some (sk, give_up t)
         else if \<not> fst (connect_loop attempt 0 0) then Some (sk, give_up (close_fd t))
         else (case SerializeLoginRequest up \<lparr>lq_name = lit ''zhangsan'', lq_pwd = lit ''123456''\<rparr> of
                 None \<Rightarrow> Some (sk, give_up (close_fd t))
               | Some req_body \<Rightarrow>
                   map_option (\<lambda>(sk', t'). (sk', close_fd t'))
                     (call_loop pb up clock req_body 0 (nat calls_per_thread) sk t)))"

text \<open>\<^verbatim>\<open>main\<close> starts the workers, waits for all of them and reads the counters. The additions commute, so
  the workers are taken one after the other.\<close>

record worker_env =
  we_socket_fd :: int
  we_connects :: "nat \<Rightarrow> bool"
  we_sock :: raw_sock

primrec run_workers :: "protobuf \<Rightarrow> user_pb \<Rightarrow> (nat \<Rightarrow> int) \<Rightarrow> int \<Rightarrow> worker_env list \<Rightarrow> bench_totals \<Rightarrow> bench_totals option" where
  "run_workers pb up clock calls_per [] t = Some t"
| "run_workers pb up clock calls_per (w # ws) t =
     (case Worker pb up clock (we_socket_fd w) (we_connects w) (we_sock w) calls_per t of
        None \<Rightarrow> None
      | Some (_, t') \<Rightarrow> run_workers pb up clock calls_per ws t')"

record bench_report =
  br_calls :: int
  br_success :: int
  br_fail :: int
  br_elapsed :: rat
  br_qps :: "rat option"
  br_succ_rate :: rat
  br_stats :: LatencyStats
  br_tail :: tail_verdict

text \<open>The times are in nanoseconds, the quotient by a time of zero has no value.\<close>

definition real_report :: "int \<Rightarrow> int \<Rightarrow> bench_totals \<Rightarrow> bench_report" where
  "real_report t0 t1 tot =
     (let elapsed = rnd (elapsed_ms t0 t1 / 1000);
          s = bt_success tot; f = bt_fail tot; t = s + f;
          qps = (if elapsed = 0 then None else Some (rnd (rnd (of_int t) / elapsed)));
          stats = ComputePercentiles_ms (bt_latencies tot)
      in \<lparr>br_calls = t, br_success = s, br_fail = f, br_elapsed = elapsed, br_qps = qps, br_succ_rate = success_rate s t,
          br_stats = stats, br_tail = real_tail stats\<rparr>)"

definition bench_totals_init :: bench_totals where
  "bench_totals_init = \<lparr>bt_success = 0, bt_fail = 0, bt_latencies = [], bt_closed = []\<rparr>"

text \<open>The command line: the address, the port, and two numbers with defaults.\<close>

record bench_args =
  ba_ip :: bytes
  ba_port :: "32 word"
  ba_threads :: int
  ba_calls_per :: int

definition real_args :: "bytes list \<Rightarrow> bench_args option" where
  "real_args argv =
     (if length argv < 3 then None
      else Some \<lparr>ba_ip = c_str (argv ! 1), ba_port = atoi (c_str (argv ! 2)),
        ba_threads = (if length argv > 3 then sint (atoi (c_str (argv ! 3))) else 20),
        ba_calls_per = (if length argv > 4 then sint (atoi (c_str (argv ! 4))) else 500)\<rparr>)"

text \<open>\<open>env\<close> is what each thread meets. The outcome is the exit code 1, a thread that hangs, or the report.\<close>

datatype bench_outcome = Usage | Hangs | Reported bench_report

definition real_main :: "protobuf \<Rightarrow> user_pb \<Rightarrow> (nat \<Rightarrow> int) \<Rightarrow> bytes list \<Rightarrow> (nat \<Rightarrow> worker_env) \<Rightarrow> int \<Rightarrow> int \<Rightarrow> bench_outcome" where
  "real_main pb up clock argv env t0 t1 =
     (case real_args argv of
        None \<Rightarrow> Usage
      | Some a \<Rightarrow>
          (case run_workers pb up clock (ba_calls_per a) (map env [0..<nat (ba_threads a)]) bench_totals_init of
             None \<Rightarrow> Hangs
           | Some tot \<Rightarrow> Reported (real_report t0 t1 tot)))"

section \<open>The frame\<close>

lemma raw_frame_legacy:
  assumes "4 + length h + length body \<le> reactor_max_frame"
  shows "raw_frame h body = legacy_request_frame h body"
proof -
  have small: "8 + length h < 2 ^ 32"
    using assms by (simp add: reactor_max_frame_def)
  have "(8 + word_of_nat (length h) :: 32 word) = word_of_nat (8 + length h)"
    by simp
  then have l8: "unat (8 + word_of_nat (length h) :: 32 word) = 8 + length h"
    using small by (simp add: unat_of_nat del: of_nat_add)
  have lh: "unat (word_of_nat (length h) :: 32 word) = length h"
    using small by (simp add: unat_of_nat)
  show ?thesis
    by (simp add: raw_frame_def Let_def l8 lh legacy_request_frame_def mem32_htonl memcpy_def)
qed

section \<open>Connecting\<close>

text \<open>The result of the loop from any attempt on.\<close>

lemma connect_loop_result:
  "retry < 20 \<Longrightarrow> \<exists>a sl. connect_loop attempt retry slept = ((\<exists>k<20. retry \<le> k \<and> attempt k), Suc a, sl)
     \<and> retry \<le> a \<and> a < 20 \<and> (\<forall>k. retry \<le> k \<and> k < a \<longrightarrow> \<not> attempt k)
     \<and> sl + 50 * (retry * Suc retry) = slept + 50 * (a * Suc a)"
proof (induction attempt retry slept rule: connect_loop.induct)
  case (1 attempt retry slept)
  consider (ok) "attempt retry" | (last) "\<not> attempt retry" "retry = 19" | (again) "\<not> attempt retry" "Suc retry < 20"
    using "1.prems" by linarith
  then show ?case
  proof cases
    case ok
    with "1.prems" show ?thesis
      by (auto simp: connect_loop.simps [of attempt retry] intro!: exI [of _ retry])
  next
    case last
    then have "(\<exists>k<20. 19 \<le> k \<and> attempt k) = False"
      by (auto simp: less_Suc_eq eval_nat_numeral)
    with last show ?thesis
      by (simp add: connect_loop.simps [of attempt 19])
  next
    case again
    then obtain a sl where r: "connect_loop attempt (Suc retry) (slept + 100 * Suc retry)
          = ((\<exists>k<20. Suc retry \<le> k \<and> attempt k), Suc a, sl)"
        "Suc retry \<le> a" "a < 20" "\<forall>k. Suc retry \<le> k \<and> k < a \<longrightarrow> \<not> attempt k"
        "sl + 50 * (Suc retry * Suc (Suc retry)) = slept + 100 * Suc retry + 50 * (a * Suc a)"
      using "1.IH" by auto
    have "(\<exists>k<20. Suc retry \<le> k \<and> attempt k) = (\<exists>k<20. retry \<le> k \<and> attempt k)"
      "\<forall>k. retry \<le> k \<and> k < a \<longrightarrow> \<not> attempt k"
      using again(1) r(4) by (metis Suc_leD Suc_leI le_neq_implies_less)+
    moreover have "sl + 50 * (retry * Suc retry) = slept + 50 * (a * Suc a)"
      using r(5) by simp
    moreover have "connect_loop attempt retry slept = connect_loop attempt (Suc retry) (slept + 100 * Suc retry)"
      using again by (simp add: connect_loop.simps [of attempt retry])
    ultimately show ?thesis
      using r(1-3) by (intro exI [of _ a] exI [of _ sl]) simp
  qed
qed

section \<open>Accounting\<close>

text \<open>What a worker adds to the totals.\<close>

definition accounted :: "int \<Rightarrow> nat \<Rightarrow> bench_totals \<Rightarrow> bench_totals \<Rightarrow> bool" where
  "accounted n samples t t' \<longleftrightarrow> bt_success t \<le> bt_success t' \<and> bt_fail t \<le> bt_fail t'
     \<and> bt_success t' + bt_fail t' = bt_success t + bt_fail t + n
     \<and> (\<exists>ls. bt_latencies t' = bt_latencies t @ ls \<and> length ls \<le> samples
         \<and> int (length ls) \<le> bt_success t' - bt_success t)"

lemma accounted_refl: "accounted 0 k t t"
  by (simp add: accounted_def)

lemma accounted_trans: "accounted m j t t' \<Longrightarrow> accounted n k t' t'' \<Longrightarrow> accounted (m + n) (j + k) t t''"
  by (fastforce simp: accounted_def)

lemma call_loop_accounted:
  "call_loop pb up clock req_body i n sk t = Some (sk', t') \<Longrightarrow>
     accounted (int n) (length (filter (\<lambda>j. j mod 10 = 0) [i..<i + n])) t t' \<and> bt_closed t' = bt_closed t"
proof (induction n arbitrary: i sk t)
  case 0
  then show ?case by (simp add: accounted_refl)
next
  case (Suc n)
  obtain ok m lat sk1 where call: "RpcCall pb up clock (lit ''UserServiceRpc'') (lit ''Login'') req_body sk = (Some (ok, m, lat), sk1)"
    using Suc.prems by (auto split: prod.splits option.splits)
  define t1 where "t1 = (if ok then t\<lparr>bt_success := bt_success t + 1,
      bt_latencies := (if i mod 10 = 0 then bt_latencies t @ [lat] else bt_latencies t)\<rparr>
    else t\<lparr>bt_fail := bt_fail t + 1\<rparr>)"
  have "call_loop pb up clock req_body (Suc i) n sk1 t1 = Some (sk', t')"
    using Suc.prems by (simp add: call t1_def Let_def del: lit_Cons)
  then have rest: "accounted (int n) (length (filter (\<lambda>j. j mod 10 = 0) [Suc i..<Suc i + n])) t1 t'" "bt_closed t' = bt_closed t1"
    using Suc.IH by blast+
  have "accounted 1 (if i mod 10 = 0 then 1 else 0) t t1"
    by (simp add: accounted_def t1_def)
  moreover have "[i..<i + Suc n] = i # [Suc i..<Suc i + n]"
    by (simp add: upt_conv_Cons del: upt_Suc)
  moreover have "bt_closed t1 = bt_closed t"
    by (simp add: t1_def)
  ultimately show ?case
    using accounted_trans [OF _ rest(1)] rest(2) by (simp del: upt_Suc) force
qed

lemma filter_every_ten: "length (filter (\<lambda>j. j mod 10 = 0) [0..<n]) = (n + 9) div 10"
proof (induction n)
  case (Suc n)
  moreover have "(Suc n + 9) div 10 = (if n mod 10 = 0 then Suc ((n + 9) div 10) else (n + 9) div 10)"
    by presburger
  ultimately show ?case by simp
qed simp

lemma Worker_accounted:
  assumes "Worker pb up clock fd attempt sk calls t = Some (sk', t')" "0 \<le> calls"
  shows "accounted calls ((nat calls + 9) div 10) t t' \<and> bt_closed t' = bt_closed t @ (if fd < 0 then [] else [fd])"
proof -
  have give_up: "accounted calls k t (t\<lparr>bt_fail := bt_fail t + calls\<rparr>)"
      "accounted calls k t (t\<lparr>bt_closed := c, bt_fail := bt_fail t + calls\<rparr>)"
      "accounted calls k t (t1\<lparr>bt_closed := c\<rparr>) \<longleftrightarrow> accounted calls k t t1" for k c t1
    using assms(2) by (simp_all add: accounted_def)
  show ?thesis
    using assms call_loop_accounted [of pb up clock _ 0 "nat calls" sk t]
    by (auto simp: Worker_def Let_def give_up filter_every_ten split: if_splits option.splits)
qed

lemma run_workers_accounted:
  assumes "0 \<le> calls"
  shows "run_workers pb up clock calls ws t = Some t' \<Longrightarrow>
     accounted (int (length ws) * calls) (length ws * ((nat calls + 9) div 10)) t t'
     \<and> bt_closed t' = bt_closed t @ filter (\<lambda>fd. 0 \<le> fd) (map we_socket_fd ws)"
proof (induction ws arbitrary: t)
  case Nil
  then show ?case by (simp add: accounted_refl)
next
  case (Cons w ws)
  obtain sk1 t1 where w: "Worker pb up clock (we_socket_fd w) (we_connects w) (we_sock w) calls t = Some (sk1, t1)"
      "run_workers pb up clock calls ws t1 = Some t'"
    using Cons.prems by (auto split: option.splits)
  from accounted_trans [OF conjunct1 [OF Worker_accounted [OF w(1) assms]] conjunct1 [OF Cons.IH [OF w(2)]]]
    conjunct2 [OF Worker_accounted [OF w(1) assms]] conjunct2 [OF Cons.IH [OF w(2)]]
  show ?case by (simp add: algebra_simps)
qed

section \<open>Calls that are answered\<close>

lemma RpcCall_answered:
  assumes ser: "SerializeRpcHeader pb \<lparr>rh_service_name = service, rh_method_name = mth,
        rh_args_size = word_of_nat (length req)\<rparr> = Some h" "4 + length h + length req \<le> reactor_max_frame"
    and room: "rs_room sk = Some k # ks" "8 + length h + length req \<le> k"
    and answer: "uninterrupted (rs_in sk)" "stream_bytes (rs_in sk) = legacy_response_frame resp @ rest"
      "length resp \<le> reactor_max_frame" "ParseLoginResponse up resp = Some r"
  shows "\<exists>lat sk'. RpcCall pb up clock service mth req sk = (Some (errcode (lp_result r) = 0, errmsg (lp_result r), lat), sk')
    \<and> uninterrupted (rs_in sk') \<and> stream_bytes (rs_in sk') = rest \<and> rs_room sk' = ks
    \<and> rs_sent sk' = rs_sent sk @ legacy_request_frame h req"
proof -
  let ?len = "word_of_nat (length resp) :: 32 word"
  have send: "send_all (rs_room sk) (raw_frame h req) (rs_sent sk) = (Some True, ks, rs_sent sk @ legacy_request_frame h req)"
    using room by (simp add: send_all_def raw_frame_legacy [OF ser(2)])
  have bytes: "stream_bytes (rs_in sk) = rev (mem32 ?len) @ resp @ rest"
    using answer(2) by (simp add: legacy_response_frame_def)
  obtain evs1 where r1: "server_recv_exact (rs_in sk) 4 = (Received (rev (mem32 ?len)), evs1)" "uninterrupted evs1"
      "stream_bytes evs1 = resp @ rest"
    using server_recv_uninterrupted [OF answer(1), of 4] by (auto simp: bytes)
  obtain evs2 where r2: "server_recv_exact evs1 (length resp) = (Received resp, evs2)" "uninterrupted evs2"
      "stream_bytes evs2 = rest"
    using server_recv_uninterrupted [OF r1(2), of "length resp"] by (auto simp: r1(3))
  have len: "unat (ntohl (load32 (rev (mem32 ?len)))) = length resp"
    using answer(3) by (simp add: be32_def [symmetric] byte_simps unat_of_nat reactor_max_frame_def)
  show ?thesis
    using answer(3) by (simp add: RpcCall_def Let_def ser(1) send r1 r2 len answer(4) reactor_max_frame_def)
qed

text \<open>The messages of a benchmark run.\<close>

definition bench_messages :: "protobuf \<Rightarrow> user_pb \<Rightarrow> bytes \<Rightarrow> bytes \<Rightarrow> bytes \<Rightarrow> LoginResponse \<Rightarrow> bool" where
  "bench_messages pb up h req resp r \<longleftrightarrow>
     SerializeLoginRequest up \<lparr>lq_name = lit ''zhangsan'', lq_pwd = lit ''123456''\<rparr> = Some req
     \<and> SerializeRpcHeader pb \<lparr>rh_service_name = fst login_names, rh_method_name = snd login_names,
         rh_args_size = word_of_nat (length req)\<rparr> = Some h
     \<and> 4 + length h + length req \<le> reactor_max_frame \<and> length resp \<le> reactor_max_frame
     \<and> ParseLoginResponse up resp = Some r \<and> errcode (lp_result r) = 0"

lemma call_loop_answered:
  assumes msgs: "bench_messages pb up h req resp r" and k: "8 + length h + length req \<le> k"
  shows "rs_room sk = replicate n (Some k) \<Longrightarrow> uninterrupted (rs_in sk) \<Longrightarrow>
      stream_bytes (rs_in sk) = concat (replicate n (legacy_response_frame resp)) \<Longrightarrow>
    \<exists>sk' t'. call_loop pb up clock req i n sk t = Some (sk', t') \<and> stream_bytes (rs_in sk') = []
      \<and> rs_sent sk' = rs_sent sk @ concat (replicate n (legacy_request_frame h req))
      \<and> bt_success t' = bt_success t + int n \<and> bt_fail t' = bt_fail t \<and> bt_closed t' = bt_closed t"
proof (induction n arbitrary: i sk t)
  case (Suc n)
  have m: "SerializeRpcHeader pb \<lparr>rh_service_name = lit ''UserServiceRpc'', rh_method_name = lit ''Login'',
         rh_args_size = word_of_nat (length req)\<rparr> = Some h" "4 + length h + length req \<le> reactor_max_frame"
      "length resp \<le> reactor_max_frame" "ParseLoginResponse up resp = Some r" "errcode (lp_result r) = 0"
    using msgs by (simp_all add: bench_messages_def del: lit_Cons)
  have room: "rs_room sk = Some k # replicate n (Some k)"
    and bytes: "stream_bytes (rs_in sk) = legacy_response_frame resp @ concat (replicate n (legacy_response_frame resp))"
    using Suc.prems by simp_all
  obtain msg lat sk1 where call: "RpcCall pb up clock (lit ''UserServiceRpc'') (lit ''Login'') req sk = (Some (True, msg, lat), sk1)"
    and sk1: "rs_room sk1 = replicate n (Some k)" "uninterrupted (rs_in sk1)"
      "stream_bytes (rs_in sk1) = concat (replicate n (legacy_response_frame resp))"
      "rs_sent sk1 = rs_sent sk @ legacy_request_frame h req"
    using RpcCall_answered [OF m(1,2) room k Suc.prems(2) bytes m(3,4), of clock] m(5) by auto
  define t1 where "t1 = t\<lparr>bt_success := bt_success t + 1,
      bt_latencies := (if i mod 10 = 0 then bt_latencies t @ [lat] else bt_latencies t)\<rparr>"
  have "call_loop pb up clock req i (Suc n) sk t = call_loop pb up clock req (Suc i) n sk1 t1"
    by (simp add: call t1_def Let_def del: lit_Cons)
  with Suc.IH [OF sk1(1-3), of "Suc i" t1] show ?case
    by (auto simp: sk1(4) t1_def)
qed simp

lemma Worker_answered:
  assumes "bench_messages pb up h req resp r" "8 + length h + length req \<le> k" "0 \<le> fd" "\<exists>j<20. attempt j"
    and "rs_room sk = replicate n (Some k)" "uninterrupted (rs_in sk)"
    and "stream_bytes (rs_in sk) = concat (replicate n (legacy_response_frame resp))"
  shows "\<exists>sk' t'. Worker pb up clock fd attempt sk (int n) t = Some (sk', t') \<and> stream_bytes (rs_in sk') = []
      \<and> rs_sent sk' = rs_sent sk @ concat (replicate n (legacy_request_frame h req))
      \<and> bt_success t' = bt_success t + int n \<and> bt_fail t' = bt_fail t \<and> bt_closed t' = bt_closed t @ [fd]"
proof -
  have "fst (connect_loop attempt 0 0)"
    using connect_loop_result [of 0 attempt 0] assms(4) by auto
  moreover have "SerializeLoginRequest up \<lparr>lq_name = lit ''zhangsan'', lq_pwd = lit ''123456''\<rparr> = Some req"
    using assms(1) by (simp add: bench_messages_def del: lit_Cons)
  ultimately show ?thesis
    using call_loop_answered [OF assms(1,2,5-7), of clock 0 t] assms(3)
    by (auto simp: Worker_def Let_def simp del: lit_Cons)
qed

section \<open>Against the blocking server\<close>

text \<open>The message classes as \<^verbatim>\<open>mini_server.cc\<close> uses them, and the response it builds.\<close>

definition mini_ok :: LoginResponse where
  "mini_ok = \<lparr>lp_result = \<lparr>errcode = 0, errmsg = lit ''ok''\<rparr>, lp_success = True\<rparr>"

definition mini_login :: "user_pb \<Rightarrow> login_pb" where
  "mini_login up = \<lparr>ParseLogin = (\<lambda>bs. ParseLoginRequest up bs \<noteq> None), LoginOk = SerializeLoginResponse up mini_ok\<rparr>"

section \<open>Properties\<close>

text \<open>C33: connecting ends. Whatever each attempt meets, the loop returns after at most twenty attempts, with
  success exactly when one of the first twenty succeeds, and then at the first of these; in between
  the thread sleeps for 100, 200, 300, ... microseconds, never longer than 19 milliseconds in total.\<close>

theorem connect_loop_terminates:
  "\<exists>a. connect_loop attempt 0 0 = ((\<exists>k<20. attempt k), Suc a, 50 * (a * Suc a))
    \<and> Suc a \<le> 20 \<and> 50 * (a * Suc a) \<le> 19000 \<and> (\<forall>k. k < a \<longrightarrow> \<not> attempt k)"
proof -
  obtain a sl where a: "connect_loop attempt 0 0 = ((\<exists>k<20. attempt k), Suc a, sl)" "a < 20"
      "\<forall>k. k < a \<longrightarrow> \<not> attempt k" "sl = 50 * (a * Suc a)"
    using connect_loop_result [of 0 attempt 0] by auto
  have "a * Suc a \<le> 19 * 20"
    using a(2) by (intro mult_le_mono) simp_all
  with a show ?thesis
    by (intro exI [of _ a]) simp
qed

text \<open>C32: no call of the benchmark is lost or counted twice. When the program prints its report, however the
  connections behaved, the successes and failures in it add up to the number of threads times the calls
  per thread, the success rate lies between 0 and 100, there are no more samples than successes nor
  than one per ten calls, and every socket that was opened has been closed exactly once.\<close>

theorem real_benchmark_accounts:
  assumes args: "real_args argv = Some a" "0 \<le> ba_threads a" "0 \<le> ba_calls_per a" "100 * (ba_threads a * ba_calls_per a) < 2 ^ 53"
    and main: "real_main pb up clock argv env t0 t1 = Reported r"
  shows "br_calls r = ba_threads a * ba_calls_per a \<and> 0 \<le> br_success r \<and> 0 \<le> br_fail r
    \<and> br_success r + br_fail r = br_calls r \<and> 0 \<le> br_succ_rate r \<and> br_succ_rate r \<le> 100
    \<and> ls_count (br_stats r) \<le> nat (ba_threads a) * ((nat (ba_calls_per a) + 9) div 10)
    \<and> int (ls_count (br_stats r)) \<le> br_success r
    \<and> (\<exists>t. run_workers pb up clock (ba_calls_per a) (map env [0..<nat (ba_threads a)]) bench_totals_init = Some t
         \<and> r = real_report t0 t1 t
         \<and> bt_closed t = filter (\<lambda>fd. 0 \<le> fd) (map (\<lambda>i. we_socket_fd (env i)) [0..<nat (ba_threads a)]))"
proof -
  let ?ws = "map env [0..<nat (ba_threads a)]"
  obtain t where t: "run_workers pb up clock (ba_calls_per a) ?ws bench_totals_init = Some t" "r = real_report t0 t1 t"
    using main by (auto simp: real_main_def args(1) split: option.splits)
  have acc: "accounted (ba_threads a * ba_calls_per a) (nat (ba_threads a) * ((nat (ba_calls_per a) + 9) div 10)) bench_totals_init t"
    and closed: "bt_closed t = filter (\<lambda>fd. 0 \<le> fd) (map (\<lambda>i. we_socket_fd (env i)) [0..<nat (ba_threads a)])"
    using run_workers_accounted [OF args(3) t(1)] args(2) by (auto simp: bench_totals_init_def comp_def)
  have n: "0 \<le> bt_success t" "0 \<le> bt_fail t" "bt_success t + bt_fail t = ba_threads a * ba_calls_per a"
      "length (bt_latencies t) \<le> nat (ba_threads a) * ((nat (ba_calls_per a) + 9) div 10)"
      "int (length (bt_latencies t)) \<le> bt_success t"
    using acc by (auto simp: accounted_def bench_totals_init_def)
  have rate: "0 \<le> success_rate (bt_success t) (bt_success t + bt_fail t) \<and> success_rate (bt_success t) (bt_success t + bt_fail t) \<le> 100"
    by (rule success_rate_bounds) (use n args(4) in simp_all)
  have count: "ls_count (ComputePercentiles_ms xs) = length xs" for xs
    by (simp add: ComputePercentiles_ms_def LatencyStats_init_def Let_def)
  have report: "br_calls r = bt_success t + bt_fail t" "br_success r = bt_success t" "br_fail r = bt_fail t"
      "br_succ_rate r = success_rate (bt_success t) (bt_success t + bt_fail t)" "ls_count (br_stats r) = length (bt_latencies t)"
    by (simp_all add: t(2) real_report_def Let_def count)
  show ?thesis
    unfolding report using n rate t(1) closed t(2) by (intro conjI exI [of _ t]) simp_all
qed

text \<open>C16: the raw client and the blocking server understand each other. A worker that gets a connection
  within its twenty attempts makes \<open>n\<close> calls against \<^verbatim>\<open>mini_server\<close>, over a network that cuts both
  directions into any segments. Then the server answers every request and all \<open>n\<close> calls succeed; what
  the client sends is what the server reads, nothing of the answers is left, and the socket is closed.\<close>

theorem real_benchmark_end_to_end:
  assumes msgs: "bench_messages pb up h req resp mini_ok" "SerializeLoginResponse up mini_ok = Some resp"
      "ParseRpcHeader pb h \<noteq> None" "ParseLoginRequest up req \<noteq> None"
    and client: "0 \<le> fd" "\<exists>j<20. attempt j" "rs_room sk = replicate n (Some k)" "8 + length h + length req \<le> k"
      "rs_sent sk = []"
    and server: "uninterrupted evs" "stream_bytes evs = concat (replicate n (legacy_request_frame h req))"
      "length resp \<le> l" "4 \<le> l"
    and answers: "uninterrupted (rs_in sk)"
      "stream_bytes (rs_in sk) = snd (handle_client pb (mini_login up) evs (replicate (2 * n) (Some l)) [])"
  shows "\<exists>sk' t'. Worker pb up clock fd attempt sk (int n) t = Some (sk', t')
    \<and> bt_success t' = bt_success t + int n \<and> bt_fail t' = bt_fail t \<and> bt_closed t' = bt_closed t @ [fd]
    \<and> rs_sent sk' = stream_bytes evs \<and> stream_bytes (rs_in sk') = []"
proof -
  let ?reqs = "replicate n (h, req)"
  have "4 + length h + length req \<le> reactor_max_frame"
    using msgs(1) by (simp add: bench_messages_def del: lit_Cons)
  then have "\<forall>(h, body) \<in> set ?reqs. 4 + length h + length body \<le> reactor_max_frame
      \<and> ParseRpcHeader pb h \<noteq> None \<and> ParseLogin (mini_login up) body"
    using msgs(3,4) by (simp add: mini_login_def)
  moreover have "LoginOk (mini_login up) = Some resp"
    using msgs(2) by (simp add: mini_login_def)
  moreover have "stream_bytes evs = concat (map (\<lambda>(h, body). legacy_request_frame h body) ?reqs)"
    using server(2) by simp
  ultimately have "handle_client pb (mini_login up) evs (replicate (2 * length ?reqs) (Some l)) []
      = (Waiting, [] @ concat (replicate (length ?reqs) (legacy_response_frame resp)))"
    using server by (intro handle_requests)
  then have "stream_bytes (rs_in sk) = concat (replicate n (legacy_response_frame resp))"
    using answers(2) by simp
  from Worker_answered [OF msgs(1) client(4,1-3) answers(1) this, of clock t] show ?thesis
    by (auto simp: server(2) client(5))
qed

section \<open>Witnesses\<close>

theorem connect_loop_terminates_witness:
  "\<exists>a. connect_loop (\<lambda>k. k = 2) 0 0 = (True, Suc a, 50 * (a * Suc a)) \<and> Suc a \<le> 20 \<and> (\<forall>k. k < a \<longrightarrow> k \<noteq> 2)"
  using connect_loop_terminates [of "\<lambda>k. k = 2"] by auto

definition sample_sock :: raw_sock where
  "sample_sock = \<lparr>rs_in = [Data (legacy_response_frame [10, 0] @ take 3 (legacy_response_frame [10, 0])),
      Data (drop 3 (legacy_response_frame [10, 0]))], rs_room = replicate 2 (Some 100), rs_sent = [], rs_ticks = 0\<rparr>"

definition bench_user_pb :: user_pb where
  "bench_user_pb =
     \<lparr>ParseLoginRequest = (\<lambda>_. Some \<lparr>lq_name = lit ''zhangsan'', lq_pwd = lit ''123456''\<rparr>),
      SerializeLoginRequest = (\<lambda>_. Some [10, 1, 97]), ParseLoginResponse = (\<lambda>_. Some mini_ok),
      SerializeLoginResponse = (\<lambda>_. Some [10, 0]), ParseRegisterRequest = (\<lambda>_. None),
      SerializeRegisterResponse = (\<lambda>_. None)\<rparr>"

text \<open>One thread gets no socket, another no connection.\<close>

theorem real_benchmark_accounts_witness:
  "\<exists>r. real_main (sample_legacy_pb [10, 0]) bench_user_pb (\<lambda>_. 0) [lit ''b'', lit ''h'', lit ''8'', lit ''2'', lit ''9'']
       (\<lambda>i. \<lparr>we_socket_fd = (if i = 0 then -1 else 7), we_connects = (\<lambda>_. False), we_sock = sample_sock\<rparr>) 0 1000 = Reported r
     \<and> br_calls r = 18 \<and> br_success r + br_fail r = 18"
proof -
  let ?env = "\<lambda>i :: nat. \<lparr>we_socket_fd = (if i = 0 then -1 else 7 :: int), we_connects = (\<lambda>_ :: nat. False), we_sock = sample_sock\<rparr>"
  let ?argv = "[lit ''b'', lit ''h'', lit ''8'', lit ''2'', lit ''9'']"
  have no: "\<not> fst (connect_loop (\<lambda>_. False) 0 0)"
    using connect_loop_result [of 0 "\<lambda>_. False" 0] by auto
  have args: "real_args ?argv = Some \<lparr>ba_ip = lit ''h'', ba_port = 8, ba_threads = 2, ba_calls_per = 9\<rparr>"
    by code_simp
  have "[0..<nat 2] = [0, 1]"
    by (simp add: upt_conv_Cons)
  then obtain r where r: "real_main (sample_legacy_pb [10, 0]) bench_user_pb (\<lambda>_. 0) ?argv ?env 0 1000 = Reported r"
    by (simp add: real_main_def args Worker_def Let_def no del: lit_Cons)
  from real_benchmark_accounts [OF args _ _ _ r] r show ?thesis
    by (simp del: lit_Cons)
qed

lemma sample_bench_messages: "bench_messages (sample_legacy_pb [10, 0]) bench_user_pb [10, 0] [10, 1, 97] [10, 0] mini_ok"
proof -
  have "\<lparr>rh_service_name = fst login_names, rh_method_name = snd login_names,
      rh_args_size = word_of_nat (length [10 :: byte, 1, 97])\<rparr> = rpc_header ClientContext_init sample_legacy_request"
    by (simp add: rpc_header_def sample_legacy_request_def ProtocolMessage_init_def)
  then have "SerializeRpcHeader (sample_legacy_pb [10, 0]) \<lparr>rh_service_name = fst login_names,
      rh_method_name = snd login_names, rh_args_size = word_of_nat (length [10 :: byte, 1, 97])\<rparr> = Some [10, 0]"
    by (simp only: sample_legacy_simps)
  then show ?thesis
    by (simp add: bench_messages_def bench_user_pb_def reactor_max_frame_def mini_ok_def del: lit_Cons)
qed

theorem real_benchmark_end_to_end_witness:
  "\<exists>sk' t'. Worker (sample_legacy_pb [10, 0]) bench_user_pb (\<lambda>_. 0) 7 (\<lambda>k. k = 2) sample_sock 2
      bench_totals_init = Some (sk', t')
    \<and> bt_success t' = 2 \<and> bt_closed t' = [7]"
proof -
  let ?pb = "sample_legacy_pb [10, 0]" and ?req = "[10, 1, 97] :: bytes"
  let ?evs = "[Data (legacy_request_frame [10, 0] ?req), Data (legacy_request_frame [10, 0] ?req)]"
  have srv: "uninterrupted ?evs" "stream_bytes ?evs = concat (replicate 2 (legacy_request_frame [10, 0] ?req))"
    by (simp_all add: numeral_2_eq_2 flip: length_greater_0_conv)
  have up: "SerializeLoginResponse bench_user_pb mini_ok = Some [10, 0]" "ParseLoginRequest bench_user_pb ?req \<noteq> None"
      "ParseRpcHeader ?pb [10, 0] \<noteq> None"
    by (simp_all add: bench_user_pb_def)
  have "handle_client ?pb (mini_login bench_user_pb) ?evs (replicate (2 * length [([10, 0 :: byte], ?req), ([10, 0], ?req)]) (Some 100)) []
      = (Waiting, [] @ concat (replicate (length [([10, 0 :: byte], ?req), ([10, 0], ?req)]) (legacy_response_frame [10, 0])))"
    by (rule handle_requests) (use srv in \<open>simp_all add: mini_login_def up reactor_max_frame_def numeral_2_eq_2\<close>,
        simp_all add: bench_user_pb_def)
  then have answers: "stream_bytes (rs_in sample_sock) = snd (handle_client ?pb (mini_login bench_user_pb) ?evs (replicate (2 * 2) (Some 100)) [])"
    by (simp add: sample_sock_def numeral_eq_Suc)
  have sock: "uninterrupted (rs_in sample_sock)" "rs_room sample_sock = replicate 2 (Some 100)" "rs_sent sample_sock = []"
    by (simp_all add: sample_sock_def legacy_response_frame_def flip: length_greater_0_conv)
  have "\<exists>j<20. j = (2 :: nat)" by simp
  from real_benchmark_end_to_end [OF sample_bench_messages up(1,3,2) _ this sock(2) _ sock(3) srv _ _ sock(1) answers,
      of 7 "\<lambda>_. 0" bench_totals_init]
  show ?thesis by (auto simp: bench_totals_init_def)
qed

end
