(* ===== verification/Route_Locks.thy ===== *)
theory Route_Locks
  imports Route_Manager Libc
begin

text \<open>
  The three implementations of the route table that \<^verbatim>\<open>tools/rcu_benchmark.cc\<close> compares: read-copy-update
  as in \<open>Route_Manager\<close>, a reader-writer lock and a mutex. Each is a labelled step relation with one
  step per access to a lock or to the shared pointer; the label is the operation whose effect the step
  makes visible. The interface \<open>route_store\<close> is what a client may rely on: every execution is an
  execution of a table with atomic operations.
\<close>

section \<open>An atomic table\<close>

datatype route_event = Put bytes "bytes list" | Get bytes "bytes list"

type_synonym history = "(nat \<times> route_event) list"

fun after :: "RouteTable \<Rightarrow> history \<Rightarrow> RouteTable" where
  "after tb [] = tb"
| "after tb ((t, Put p ns) # es) = after (tb(p \<mapsto> ns)) es"
| "after tb ((t, Get p ns) # es) = after tb es"

fun legal :: "RouteTable \<Rightarrow> history \<Rightarrow> bool" where
  "legal tb [] \<longleftrightarrow> True"
| "legal tb ((t, Put p ns) # es) \<longleftrightarrow> legal (tb(p \<mapsto> ns)) es"
| "legal tb ((t, Get p ns) # es) \<longleftrightarrow> ns = GetRouteNodes tb p \<and> legal tb es"

lemma history_induct [case_names Nil Put Get]:
  assumes "\<And>tb. P tb []" "\<And>tb t p ns es. P (tb(p \<mapsto> ns)) es \<Longrightarrow> P tb ((t, Put p ns) # es)"
    and "\<And>tb t p ns es. P tb es \<Longrightarrow> P tb ((t, Get p ns) # es)"
  shows "P tb es"
proof (induction es arbitrary: tb)
  case (Cons e es)
  obtain t ev where "e = (t, ev)" by fastforce
  with Cons assms(2,3) show ?case by (cases ev) auto
qed (rule assms(1))

lemma after_append [simp]: "after tb (es @ es') = after (after tb es) es'"
  by (induction tb es rule: history_induct) (auto simp del: fun_upd_apply)

lemma legal_append [simp]: "legal tb (es @ es') \<longleftrightarrow> legal tb es \<and> legal (after tb es) es'"
  by (induction tb es rule: history_induct) (auto simp del: fun_upd_apply)

section \<open>The benchmark classes\<close>

text \<open>Where a thread stands in \<^verbatim>\<open>Write\<close> and in \<^verbatim>\<open>Read\<close>.\<close>

datatype pc =
    Ready
  | Write_wait bytes
  | Write_locked bytes
  | Write_copied bytes RouteTable
  | Write_stored
  | Read_wait bytes
  | Read_locked bytes
  | Read_local bytes RouteTable
  | Read_unlocked bytes RouteTable
  | Read_done bytes "bytes list"

record lock_bench =
  lb_table :: RouteTable
  lb_owner :: "nat option"
  lb_readers :: "nat set"
  lb_pc :: "nat \<Rightarrow> pc"

definition bench_init :: "RouteTable \<Rightarrow> lock_bench" where
  "bench_init tb = \<lparr>lb_table = tb, lb_owner = None, lb_readers = {}, lb_pc = (\<lambda>_. Ready)\<rparr>"

definition bench_nodes :: "bytes list" where
  "bench_nodes = [lit ''10.0.0.1:8000'', lit ''10.0.0.2:8000'']"

definition service_path :: "nat \<Rightarrow> bytes" where
  "service_path i = lit ''/Service'' @ dec_nat i @ lit ''/Method''"

definition g_query_paths :: "bytes list" where
  "g_query_paths = map service_path [0..<100]"

definition MakeTestTable :: RouteTable where
  "MakeTestTable = fold (\<lambda>i tb. tb(service_path i \<mapsto> map (\<lambda>j. lit ''10.0.0.'' @ dec_nat j @ lit '':8000'') [0..<10]))
     [0..<100] Map.empty"

text \<open>\<^verbatim>\<open>Write\<close> differs only in the lock: \<open>free\<close> says when it can be taken exclusively. The copy is changed
  before it is published, so loading, copying and changing are one step of the shared state.\<close>

inductive write_step :: "(lock_bench \<Rightarrow> bool) \<Rightarrow> lock_bench \<Rightarrow> (nat \<times> route_event) option \<Rightarrow> lock_bench \<Rightarrow> bool"
  for free where
  w_call: "lb_pc s t = Ready \<Longrightarrow> write_step free s None (s\<lparr>lb_pc := (lb_pc s)(t := Write_wait p)\<rparr>)"
| w_lock: "lb_pc s t = Write_wait p \<Longrightarrow> free s \<Longrightarrow>
    write_step free s None (s\<lparr>lb_owner := Some t, lb_pc := (lb_pc s)(t := Write_locked p)\<rparr>)"
| w_copy: "lb_pc s t = Write_locked p \<Longrightarrow>
    write_step free s None (s\<lparr>lb_pc := (lb_pc s)(t := Write_copied p ((lb_table s)(p \<mapsto> bench_nodes)))\<rparr>)"
| w_store: "lb_pc s t = Write_copied p n \<Longrightarrow>
    write_step free s (Some (t, Put p bench_nodes)) (s\<lparr>lb_table := n, lb_pc := (lb_pc s)(t := Write_stored)\<rparr>)"
| w_unlock: "lb_pc s t = Write_stored \<Longrightarrow>
    write_step free s None (s\<lparr>lb_owner := None, lb_pc := (lb_pc s)(t := Ready)\<rparr>)"

text \<open>\<^verbatim>\<open>RCUBench\<close>: a reader loads the pointer atomically and takes no lock.\<close>

inductive rcu_bench_step :: "lock_bench \<Rightarrow> (nat \<times> route_event) option \<Rightarrow> lock_bench \<Rightarrow> bool" where
  rcu_write: "write_step (\<lambda>s. lb_owner s = None) s l s' \<Longrightarrow> rcu_bench_step s l s'"
| rcu_load: "lb_pc s t = Ready \<Longrightarrow> rcu_bench_step s (Some (t, Get p (GetRouteNodes (lb_table s) p)))
    (s\<lparr>lb_pc := (lb_pc s)(t := Read_unlocked p (lb_table s))\<rparr>)"
| rcu_find: "lb_pc s t = Read_unlocked p tb \<Longrightarrow>
    rcu_bench_step s None (s\<lparr>lb_pc := (lb_pc s)(t := Read_done p (GetRouteNodes tb p))\<rparr>)"
| rcu_return: "lb_pc s t = Read_done p ns \<Longrightarrow> rcu_bench_step s None (s\<lparr>lb_pc := (lb_pc s)(t := Ready)\<rparr>)"

text \<open>\<^verbatim>\<open>RwLockBench\<close>: a reader copies the pointer under the shared lock and searches without it.\<close>

inductive rwlock_step :: "lock_bench \<Rightarrow> (nat \<times> route_event) option \<Rightarrow> lock_bench \<Rightarrow> bool" where
  rw_write: "write_step (\<lambda>s. lb_owner s = None \<and> lb_readers s = {}) s l s' \<Longrightarrow> rwlock_step s l s'"
| rw_call: "lb_pc s t = Ready \<Longrightarrow> rwlock_step s None (s\<lparr>lb_pc := (lb_pc s)(t := Read_wait p)\<rparr>)"
| rw_lock: "lb_pc s t = Read_wait p \<Longrightarrow> lb_owner s = None \<Longrightarrow>
    rwlock_step s None (s\<lparr>lb_readers := insert t (lb_readers s), lb_pc := (lb_pc s)(t := Read_locked p)\<rparr>)"
| rw_copy: "lb_pc s t = Read_locked p \<Longrightarrow> rwlock_step s (Some (t, Get p (GetRouteNodes (lb_table s) p)))
    (s\<lparr>lb_pc := (lb_pc s)(t := Read_local p (lb_table s))\<rparr>)"
| rw_unlock: "lb_pc s t = Read_local p tb \<Longrightarrow>
    rwlock_step s None (s\<lparr>lb_readers := lb_readers s - {t}, lb_pc := (lb_pc s)(t := Read_unlocked p tb)\<rparr>)"
| rw_find: "lb_pc s t = Read_unlocked p tb \<Longrightarrow>
    rwlock_step s None (s\<lparr>lb_pc := (lb_pc s)(t := Read_done p (GetRouteNodes tb p))\<rparr>)"
| rw_return: "lb_pc s t = Read_done p ns \<Longrightarrow> rwlock_step s None (s\<lparr>lb_pc := (lb_pc s)(t := Ready)\<rparr>)"

text \<open>\<^verbatim>\<open>MutexBench\<close>: a reader holds the mutex until it returns.\<close>

inductive mutex_step :: "lock_bench \<Rightarrow> (nat \<times> route_event) option \<Rightarrow> lock_bench \<Rightarrow> bool" where
  mx_write: "write_step (\<lambda>s. lb_owner s = None) s l s' \<Longrightarrow> mutex_step s l s'"
| mx_call: "lb_pc s t = Ready \<Longrightarrow> mutex_step s None (s\<lparr>lb_pc := (lb_pc s)(t := Read_wait p)\<rparr>)"
| mx_lock: "lb_pc s t = Read_wait p \<Longrightarrow> lb_owner s = None \<Longrightarrow>
    mutex_step s None (s\<lparr>lb_owner := Some t, lb_pc := (lb_pc s)(t := Read_locked p)\<rparr>)"
| mx_copy: "lb_pc s t = Read_locked p \<Longrightarrow> mutex_step s (Some (t, Get p (GetRouteNodes (lb_table s) p)))
    (s\<lparr>lb_pc := (lb_pc s)(t := Read_local p (lb_table s))\<rparr>)"
| mx_find: "lb_pc s t = Read_local p tb \<Longrightarrow>
    mutex_step s None (s\<lparr>lb_pc := (lb_pc s)(t := Read_done p (GetRouteNodes tb p))\<rparr>)"
| mx_return: "lb_pc s t = Read_done p ns \<Longrightarrow>
    mutex_step s None (s\<lparr>lb_owner := None, lb_pc := (lb_pc s)(t := Ready)\<rparr>)"

inductive_cases write_stepE: "write_step free s l s'"
inductive_cases rcu_bench_stepE: "rcu_bench_step s l s'"
inductive_cases rwlock_stepE: "rwlock_step s l s'"
inductive_cases mutex_stepE: "mutex_step s l s'"

section \<open>Executions\<close>

inductive execution :: "(lock_bench \<Rightarrow> (nat \<times> route_event) option \<Rightarrow> lock_bench \<Rightarrow> bool)
    \<Rightarrow> lock_bench \<Rightarrow> history \<Rightarrow> lock_bench \<Rightarrow> bool" for step where
  ex_refl: "execution step s [] s"
| ex_silent: "execution step s es s' \<Longrightarrow> step s' None s'' \<Longrightarrow> execution step s es s''"
| ex_event: "execution step s es s' \<Longrightarrow> step s' (Some e) s'' \<Longrightarrow> execution step s (es @ [e]) s''"

text \<open>The answer a reader is going to give, fixed once it has its copy of the pointer.\<close>

fun promised :: "pc \<Rightarrow> route_event option" where
  "promised (Read_local p tb) = Some (Get p (GetRouteNodes tb p))"
| "promised (Read_unlocked p tb) = Some (Get p (GetRouteNodes tb p))"
| "promised (Read_done p ns) = Some (Get p ns)"
| "promised _ = None"

text \<open>What a thread did last, if anything.\<close>

definition last_event :: "nat \<Rightarrow> history \<Rightarrow> route_event option" where
  "last_event t es = map_of (rev es) t"

lemma last_event_simps [simp]:
  "last_event t [] = None" "last_event t (es @ [(u, e)]) = (if t = u then Some e else last_event t es)"
  by (simp_all add: last_event_def)

section \<open>The interface\<close>

locale route_store =
  fixes step :: "lock_bench \<Rightarrow> (nat \<times> route_event) option \<Rightarrow> lock_bench \<Rightarrow> bool"
    and inv :: "lock_bench \<Rightarrow> bool"
  assumes inv_init: "inv (bench_init tb)"
    and inv_step: "step s l s' \<Longrightarrow> inv s \<Longrightarrow> inv s'"
    and visible: "step s l s' \<Longrightarrow> inv s \<Longrightarrow> (case l of None \<Rightarrow> lb_table s' = lb_table s
      | Some e \<Rightarrow> legal (lb_table s) [e] \<and> lb_table s' = after (lb_table s) [e])"
    and promise: "step s l s' \<Longrightarrow> promised (lb_pc s' t) = Some ev \<Longrightarrow>
      l = Some (t, ev) \<or> promised (lb_pc s t) = Some ev \<and> (\<forall>ev'. l \<noteq> Some (t, ev'))"
begin

lemma execution_inv: "execution step (bench_init tb) es s \<Longrightarrow> inv s"
  by (induction "bench_init tb" es s rule: execution.induct) (auto intro: inv_init inv_step)

text \<open>Every execution is one of the atomic table, and readers return what they read there.\<close>

lemma refines:
  "execution step (bench_init tb) es s \<Longrightarrow> legal tb es \<and> lb_table s = after tb es
    \<and> (\<forall>t e. promised (lb_pc s t) = Some e \<longrightarrow> last_event t es = Some e)"
proof (induction "bench_init tb" es s rule: execution.induct)
  case ex_refl
  then show ?case by (simp add: bench_init_def)
next
  case (ex_silent es s' s'')
  note i = execution_inv [OF ex_silent(1)]
  show ?case
    using ex_silent(2) visible [OF ex_silent(3) i] promise [OF ex_silent(3)] by auto
next
  case (ex_event es s' e s'')
  note i = execution_inv [OF ex_event(1)]
  obtain t0 e0 where e: "e = (t0, e0)" by fastforce
  have "last_event t (es @ [e]) = Some e1" if "promised (lb_pc s'' t) = Some e1" for t e1
    using promise [OF ex_event(3) that] ex_event(2) by (auto simp: e)
  with ex_event(2) visible [OF ex_event(3) i] show ?case
    by auto
qed

end

section \<open>The locks\<close>

text \<open>Who holds the exclusive lock (\<open>readers_too\<close> for the mutex) and who the shared one.\<close>

fun holds_lock :: "bool \<Rightarrow> pc \<Rightarrow> bool" where
  "holds_lock readers_too (Write_locked p) = True"
| "holds_lock readers_too (Write_copied p n) = True"
| "holds_lock readers_too Write_stored = True"
| "holds_lock readers_too (Read_locked p) = readers_too"
| "holds_lock readers_too (Read_local p tb) = readers_too"
| "holds_lock readers_too (Read_done p ns) = readers_too"
| "holds_lock readers_too _ = False"

fun holds_shared :: "pc \<Rightarrow> bool" where
  "holds_shared (Read_locked p) = True"
| "holds_shared (Read_local p tb) = True"
| "holds_shared _ = False"

definition lock_inv :: "(pc \<Rightarrow> bool) \<Rightarrow> (pc \<Rightarrow> bool) \<Rightarrow> lock_bench \<Rightarrow> bool" where
  "lock_inv excl shared s \<longleftrightarrow>
     (\<forall>t. lb_owner s = Some t \<longleftrightarrow> excl (lb_pc s t)) \<and> (\<forall>t. t \<in> lb_readers s \<longleftrightarrow> shared (lb_pc s t))
     \<and> (lb_readers s \<noteq> {} \<longrightarrow> lb_owner s = None)
     \<and> (\<forall>t p n. lb_pc s t = Write_copied p n \<longrightarrow> n = (lb_table s)(p \<mapsto> bench_nodes))"

lemma lock_inv_owner: "lock_inv excl shared s \<Longrightarrow> excl (lb_pc s t) \<Longrightarrow> excl (lb_pc s u) \<Longrightarrow> u = t"
  unfolding lock_inv_def by (metis option.inject)

lemma lock_inv_copied: "lock_inv excl shared s \<Longrightarrow> lb_pc s t = Write_copied p n \<Longrightarrow> n = (lb_table s)(p \<mapsto> bench_nodes)"
  unfolding lock_inv_def by blast

text \<open>The part of the protocol that the three classes share.\<close>

locale writer_protocol =
  fixes excl shared :: "pc \<Rightarrow> bool"
    and free :: "lock_bench \<Rightarrow> bool"
  assumes writer_excl: "excl (Write_locked p)" "excl (Write_copied p n)" "excl Write_stored"
      "\<not> excl Ready" "\<not> excl (Write_wait p)"
    and writer_not_shared: "\<not> shared Ready" "\<not> shared (Write_wait p)" "\<not> shared (Write_locked p)"
      "\<not> shared (Write_copied p n)" "\<not> shared Write_stored"
    and free_none: "free s \<Longrightarrow> lock_inv excl shared s \<Longrightarrow> lb_owner s = None \<and> lb_readers s = {}"
begin

lemma write_inv:
  assumes "write_step free s l s'" "lock_inv excl shared s"
  shows "lock_inv excl shared s'"
  using assms(1)
proof cases
  case (w_lock t p)
  have "lb_owner s = None" "lb_readers s = {}"
    using free_none [OF w_lock(4) assms(2)] by simp_all
  with assms(2) have "\<not> excl (lb_pc s u)" for u
    unfolding lock_inv_def by (metis option.distinct(1))
  with w_lock assms(2) \<open>lb_readers s = {}\<close> show ?thesis
    by (auto simp: lock_inv_def writer_excl writer_not_shared)
next
  case (w_store t p n)
  have "\<not> excl (lb_pc s u)" if "u \<noteq> t" for u
    using lock_inv_owner [OF assms(2), of t u] w_store writer_excl that by auto
  then have "lb_pc s u \<noteq> Write_copied q m" if "u \<noteq> t" for u q m
    using that writer_excl(2) by metis
  with w_store assms(2) show ?thesis
    by (auto simp: lock_inv_def writer_excl writer_not_shared)
next
  case (w_unlock t)
  have "\<not> excl (lb_pc s u)" if "u \<noteq> t" for u
    using lock_inv_owner [OF assms(2), of t u] w_unlock writer_excl that by auto
  with w_unlock assms(2) show ?thesis
    by (auto simp: lock_inv_def writer_excl writer_not_shared)
qed (use assms(2) in \<open>auto simp: lock_inv_def writer_excl writer_not_shared\<close>)

lemma write_visible:
  assumes "write_step free s l s'" "lock_inv excl shared s"
  shows "case l of None \<Rightarrow> lb_table s' = lb_table s
    | Some e \<Rightarrow> legal (lb_table s) [e] \<and> lb_table s' = after (lb_table s) [e]"
  using assms(1) by cases (use lock_inv_copied [OF assms(2)] in auto)

end

lemma write_promise:
  "write_step free s l s' \<Longrightarrow> promised (lb_pc s' t) = Some ev \<Longrightarrow>
    l = Some (t, ev) \<or> promised (lb_pc s t) = Some ev \<and> (\<forall>ev'. l \<noteq> Some (t, ev'))"
  by (erule write_stepE) (auto split: if_splits)

lemma init_lock_inv: "\<not> excl Ready \<Longrightarrow> \<not> shared Ready \<Longrightarrow> lock_inv excl shared (bench_init tb)"
  by (simp add: lock_inv_def bench_init_def)

interpretation rcu_writer: writer_protocol "holds_lock False" "\<lambda>_. False" "\<lambda>s. lb_owner s = None"
  by unfold_locales (auto simp: lock_inv_def)

interpretation rw_writer: writer_protocol "holds_lock False" holds_shared "\<lambda>s. lb_owner s = None \<and> lb_readers s = {}"
  by unfold_locales auto

interpretation mutex_writer: writer_protocol "holds_lock True" "\<lambda>_. False" "\<lambda>s. lb_owner s = None"
  by unfold_locales (auto simp: lock_inv_def)

section \<open>The three classes keep the interface\<close>

lemma rcu_bench_inv:
  assumes "rcu_bench_step s l s'" "lock_inv (holds_lock False) (\<lambda>_. False) s"
  shows "lock_inv (holds_lock False) (\<lambda>_. False) s'"
  using assms(1)
proof cases
  case rcu_write
  then show ?thesis using assms(2) by (rule rcu_writer.write_inv)
qed (use assms(2) in \<open>auto simp: lock_inv_def\<close>)

lemma rwlock_inv:
  assumes "rwlock_step s l s'" "lock_inv (holds_lock False) holds_shared s"
  shows "lock_inv (holds_lock False) holds_shared s'"
  using assms(1)
proof cases
  case rw_write
  then show ?thesis using assms(2) by (rule rw_writer.write_inv)
qed (use assms(2) in \<open>auto simp: lock_inv_def\<close>)

lemma mutex_inv:
  assumes "mutex_step s l s'" "lock_inv (holds_lock True) (\<lambda>_. False) s"
  shows "lock_inv (holds_lock True) (\<lambda>_. False) s'"
  using assms(1)
proof cases
  case mx_write
  then show ?thesis using assms(2) by (rule mutex_writer.write_inv)
next
  case (mx_lock t p)
  then have "\<not> holds_lock True (lb_pc s u)" for u
    using assms(2) unfolding lock_inv_def by (metis option.distinct(1))
  with mx_lock assms(2) show ?thesis
    by (auto simp: lock_inv_def)
next
  case (mx_return t p ns)
  have "\<not> holds_lock True (lb_pc s u)" if "u \<noteq> t" for u
    using lock_inv_owner [OF assms(2), of t u] mx_return that by auto
  with mx_return assms(2) show ?thesis
    by (auto simp: lock_inv_def)
qed (use assms(2) in \<open>auto simp: lock_inv_def\<close>)

lemma rcu_bench_visible:
  assumes "rcu_bench_step s l s'" "lock_inv (holds_lock False) (\<lambda>_. False) s"
  shows "case l of None \<Rightarrow> lb_table s' = lb_table s
    | Some e \<Rightarrow> legal (lb_table s) [e] \<and> lb_table s' = after (lb_table s) [e]"
  using assms(1) by cases (use rcu_writer.write_visible [OF _ assms(2)] in auto)

lemma rcu_bench_promise:
  assumes "rcu_bench_step s l s'" "promised (lb_pc s' t) = Some ev"
  shows "l = Some (t, ev) \<or> promised (lb_pc s t) = Some ev \<and> (\<forall>ev'. l \<noteq> Some (t, ev'))"
  using assms(1) by cases (use write_promise [OF _ assms(2)] assms(2) in \<open>auto split: if_splits\<close>)

lemma rwlock_visible:
  assumes "rwlock_step s l s'" "lock_inv (holds_lock False) holds_shared s"
  shows "case l of None \<Rightarrow> lb_table s' = lb_table s
    | Some e \<Rightarrow> legal (lb_table s) [e] \<and> lb_table s' = after (lb_table s) [e]"
  using assms(1) by cases (use rw_writer.write_visible [OF _ assms(2)] in auto)

lemma rwlock_promise:
  assumes "rwlock_step s l s'" "promised (lb_pc s' t) = Some ev"
  shows "l = Some (t, ev) \<or> promised (lb_pc s t) = Some ev \<and> (\<forall>ev'. l \<noteq> Some (t, ev'))"
  using assms(1) by cases (use write_promise [OF _ assms(2)] assms(2) in \<open>auto split: if_splits\<close>)

lemma mutex_visible:
  assumes "mutex_step s l s'" "lock_inv (holds_lock True) (\<lambda>_. False) s"
  shows "case l of None \<Rightarrow> lb_table s' = lb_table s
    | Some e \<Rightarrow> legal (lb_table s) [e] \<and> lb_table s' = after (lb_table s) [e]"
  using assms(1) by cases (use mutex_writer.write_visible [OF _ assms(2)] in auto)

lemma mutex_promise:
  assumes "mutex_step s l s'" "promised (lb_pc s' t) = Some ev"
  shows "l = Some (t, ev) \<or> promised (lb_pc s t) = Some ev \<and> (\<forall>ev'. l \<noteq> Some (t, ev'))"
  using assms(1) by cases (use write_promise [OF _ assms(2)] assms(2) in \<open>auto split: if_splits\<close>)

interpretation rcu_store: route_store rcu_bench_step "lock_inv (holds_lock False) (\<lambda>_. False)"
  by unfold_locales (simp add: init_lock_inv, erule (1) rcu_bench_inv, erule (1) rcu_bench_visible, erule (1) rcu_bench_promise)

interpretation rwlock_store: route_store rwlock_step "lock_inv (holds_lock False) holds_shared"
  by unfold_locales (simp add: init_lock_inv, erule (1) rwlock_inv, erule (1) rwlock_visible, erule (1) rwlock_promise)

interpretation mutex_store: route_store mutex_step "lock_inv (holds_lock True) (\<lambda>_. False)"
  by unfold_locales (simp add: init_lock_inv, erule (1) mutex_inv, erule (1) mutex_visible, erule (1) mutex_promise)

section \<open>Properties\<close>

text \<open>C6: all three route tables refine one with atomic operations. Take any execution of the benchmark over any
  of the three classes, with any number of threads interleaved in any way. The operations, in the order
  in which they become visible, are a legal history of an atomic table that starts with the same
  contents and ends with the current one: no update is lost and no lookup sees a table that never
  existed. A reader that has its result returns what its own last operation in that history read.\<close>

theorem route_tables_refine_atomic:
  assumes "step \<in> {rcu_bench_step, rwlock_step, mutex_step}" "execution step (bench_init tb) es s"
  shows "legal tb es \<and> lb_table s = after tb es
    \<and> (\<forall>t p ns. lb_pc s t = Read_done p ns \<longrightarrow> last_event t es = Some (Get p ns))"
proof -
  have "legal tb es \<and> lb_table s = after tb es
      \<and> (\<forall>t e. promised (lb_pc s t) = Some e \<longrightarrow> last_event t es = Some e)"
    using assms rcu_store.refines [of tb es s] rwlock_store.refines [of tb es s] mutex_store.refines [of tb es s]
    by (elim insertE) simp_all
  then show ?thesis by (metis promised.simps(3))
qed

lemma lock_inv_writer:
  assumes "lock_inv excl shared s" "excl (lb_pc s t)"
  shows "lb_owner s = Some t" "\<not> shared (lb_pc s u)" "u \<noteq> t \<Longrightarrow> \<not> excl (lb_pc s u)"
proof -
  show owner: "lb_owner s = Some t"
    using assms unfolding lock_inv_def by blast
  have "lb_readers s = {}"
    using assms(1) owner unfolding lock_inv_def by (metis option.distinct(1))
  then show "\<not> shared (lb_pc s u)"
    using assms(1) unfolding lock_inv_def by (metis empty_iff)
  show "\<not> excl (lb_pc s u)" if "u \<noteq> t"
    using lock_inv_owner [OF assms] that by blast
qed

text \<open>C31: the reader-writer lock and the mutex protect the plain pointer, which is an ordinary variable in
  both classes. From the moment a thread has the lock in \<^verbatim>\<open>Write\<close> until it gives it back, that is while
  it is about to copy the table, about to assign the pointer or about to unlock, it is the owner, no
  other thread is anywhere in that section, and no reader is about to copy the pointer or still holds
  the lock under which it did: there is no data race, and at most one thread is in a write. With the mutex
  no reader is in its whole search. (The class with read-copy-update has no such exclusion of readers
  and accesses the pointer through atomic operations.)\<close>

theorem lock_benchmarks_race_free:
  assumes "step \<in> {rwlock_step, mutex_step}" "execution step (bench_init tb) es s"
    and "lb_pc s t \<in> {Write_locked p, Write_copied p n, Write_stored}" "u \<noteq> t"
  shows "lb_owner s = Some t
    \<and> lb_pc s u \<notin> {Write_locked q, Write_copied q m, Write_stored}
    \<and> lb_pc s u \<notin> {Read_locked q, Read_local q m}
    \<and> (step = mutex_step \<longrightarrow> lb_pc s u \<noteq> Read_done q ns)"
proof (cases "step = mutex_step")
  case True
  then have inv: "lock_inv (holds_lock True) (\<lambda>_. False) s"
    using assms(2) mutex_store.execution_inv by simp
  have "holds_lock True (lb_pc s t)" using assms(3) by auto
  from lock_inv_writer(1) [OF inv this] lock_inv_writer(3) [OF inv this assms(4)] show ?thesis by auto
next
  case False
  then have inv: "lock_inv (holds_lock False) holds_shared s"
    using assms(1,2) rwlock_store.execution_inv by simp
  have "holds_lock False (lb_pc s t)" using assms(3) by auto
  from lock_inv_writer(1) [OF inv this] lock_inv_writer(2) [OF inv this, of u] lock_inv_writer(3) [OF inv this assms(4)] False
  show ?thesis by auto
qed

section \<open>The benchmark never misses\<close>

lemma fold_update:
  "fold (\<lambda>i tb. tb(f i \<mapsto> v)) xs m p = (if p \<in> f ` set xs then Some v else m p)"
  by (induction xs arbitrary: m) auto

lemma MakeTestTable_hit: "p \<in> set g_query_paths \<Longrightarrow> GetRouteNodes MakeTestTable p \<noteq> []"
  by (auto simp: MakeTestTable_def fold_update g_query_paths_def GetRouteNodes_def)

lemma legal_hits:
  "legal tb es \<Longrightarrow> (\<forall>p \<in> P. GetRouteNodes tb p \<noteq> []) \<Longrightarrow> (\<forall>t p ns. (t, Put p ns) \<in> set es \<longrightarrow> ns \<noteq> []) \<Longrightarrow>
    (t, Get p ns) \<in> set es \<Longrightarrow> p \<in> P \<Longrightarrow> ns \<noteq> []"
proof (induction tb es rule: history_induct)
  case (Put tb u q n es)
  have "legal (tb(q \<mapsto> n)) es" "(t, Get p ns) \<in> set es"
    using Put.prems(1,4) by simp_all
  moreover have "\<forall>x \<in> P. GetRouteNodes (tb(q \<mapsto> n)) x \<noteq> []"
    using Put.prems(2,3) by (auto simp: GetRouteNodes_def)
  ultimately show ?case
    using Put.IH Put.prems(3,5) by (meson list.set_intros(2))
next
  case (Get tb u q n es)
  then show ?case by auto
qed simp

lemma put_bench_nodes:
  assumes "step \<in> {rcu_bench_step, rwlock_step, mutex_step}"
  shows "execution step s0 es s \<Longrightarrow> (t, Put p ns) \<in> set es \<Longrightarrow> ns = bench_nodes"
proof (induction s0 es s rule: execution.induct)
  case (ex_event s0 es s' e s'')
  have "ns = bench_nodes" if "e = (t, Put p ns)"
    using assms ex_event(2) unfolding that by (auto elim!: rcu_bench_stepE rwlock_stepE mutex_stepE write_stepE)
  with ex_event show ?case by auto
qed auto

text \<open>Every lookup of the benchmark finds a route.\<close>

lemma benchmark_reads_hit:
  assumes "step \<in> {rcu_bench_step, rwlock_step, mutex_step}" "execution step (bench_init MakeTestTable) es s"
    and "(t, Get p ns) \<in> set es" "p \<in> set g_query_paths"
  shows "ns \<noteq> []"
proof (rule legal_hits [OF _ _ _ assms(3,4)])
  show "legal MakeTestTable es"
    using assms(1,2) rcu_store.refines rwlock_store.refines mutex_store.refines by (elim insertE) simp_all
  show "\<forall>p \<in> set g_query_paths. GetRouteNodes MakeTestTable p \<noteq> []"
    using MakeTestTable_hit by blast
  show "\<forall>t p ns. (t, Put p ns) \<in> set es \<longrightarrow> ns \<noteq> []"
    using put_bench_nodes [OF assms(1,2)] by (metis bench_nodes_def list.distinct(1))
qed

section \<open>Witnesses\<close>

definition copying :: "nat \<Rightarrow> bytes \<Rightarrow> lock_bench" where
  "copying t p = \<lparr>lb_table = MakeTestTable, lb_owner = Some t, lb_readers = {},
     lb_pc = (\<lambda>_. Ready)(t := Write_copied p (MakeTestTable(p \<mapsto> bench_nodes)))\<rparr>"

lemma copying_execution: "execution mutex_step (bench_init MakeTestTable) [] (copying t p)"
proof -
  let ?s0 = "bench_init MakeTestTable"
  let ?s1 = "?s0\<lparr>lb_pc := (lb_pc ?s0)(t := Write_wait p)\<rparr>"
  let ?s2 = "?s1\<lparr>lb_owner := Some t, lb_pc := (lb_pc ?s1)(t := Write_locked p)\<rparr>"
  let ?s3 = "?s2\<lparr>lb_pc := (lb_pc ?s2)(t := Write_copied p ((lb_table ?s2)(p \<mapsto> bench_nodes)))\<rparr>"
  have "mutex_step ?s0 None ?s1" by (rule mx_write, rule w_call) (simp add: bench_init_def)
  moreover have "mutex_step ?s1 None ?s2" by (rule mx_write, rule w_lock) (simp_all add: bench_init_def)
  moreover have "mutex_step ?s2 None ?s3" by (rule mx_write, rule w_copy) simp
  ultimately have "execution mutex_step ?s0 [] ?s3"
    by (meson ex_refl ex_silent)
  moreover have "?s3 = copying t p"
    by (simp add: copying_def bench_init_def del: fun_upd_apply)
  ultimately show ?thesis by simp
qed

theorem lock_benchmarks_race_free_witness:
  "execution mutex_step (bench_init MakeTestTable) [] (copying 0 (service_path 3))
    \<and> lb_owner (copying 0 (service_path 3)) = Some 0
    \<and> lb_pc (copying 0 (service_path 3)) 1 \<noteq> Write_stored
    \<and> lb_pc (copying 0 (service_path 3)) 1 \<noteq> Read_locked (service_path 3)"
proof -
  have pc: "lb_pc (copying 0 (service_path 3)) 0 \<in> {Write_locked (service_path 3),
      Write_copied (service_path 3) (MakeTestTable(service_path 3 \<mapsto> bench_nodes)), Write_stored}"
    by (simp add: copying_def)
  have "mutex_step \<in> {rwlock_step, mutex_step}" "1 \<noteq> (0 :: nat)"
    by simp_all
  from lock_benchmarks_race_free [OF this(1) copying_execution pc this(2)] copying_execution show ?thesis
    by blast
qed

theorem route_tables_refine_atomic_witness:
  "\<exists>es s ns. execution rcu_bench_step (bench_init MakeTestTable) es s \<and> legal MakeTestTable es
    \<and> lb_pc s 4 = Read_done (lit ''/x'') ns \<and> last_event 4 es = Some (Get (lit ''/x'') ns)"
proof -
  let ?s0 = "bench_init MakeTestTable" and ?p = "lit ''/x''"
  let ?ns = "GetRouteNodes (lb_table ?s0) ?p"
  let ?s1 = "?s0\<lparr>lb_pc := (lb_pc ?s0)(4 := Read_unlocked ?p (lb_table ?s0))\<rparr>"
  let ?s2 = "?s1\<lparr>lb_pc := (lb_pc ?s1)(4 := Read_done ?p ?ns)\<rparr>"
  have "rcu_bench_step ?s0 (Some (4, Get ?p ?ns)) ?s1"
    by (rule rcu_load) (simp add: bench_init_def)
  moreover have "rcu_bench_step ?s1 None ?s2"
    by (rule rcu_find) simp
  ultimately have ex: "execution rcu_bench_step ?s0 ([] @ [(4, Get ?p ?ns)]) ?s2"
    by (meson ex_refl ex_silent ex_event)
  have done_pc: "lb_pc ?s2 4 = Read_done ?p ?ns"
    by simp
  have "rcu_bench_step \<in> {rcu_bench_step, rwlock_step, mutex_step}"
    by simp
  from route_tables_refine_atomic [OF this ex] ex done_pc show ?thesis
    by blast
qed

end
