(* ===== verification/Rcu_Benchmark.thy ===== *)
theory Rcu_Benchmark
  imports Route_Locks Latency_Stats
begin

text \<open>
  The measurement around the route tables of \<open>Route_Locks\<close> in \<^verbatim>\<open>tools/rcu_benchmark.cc\<close>: which paths the
  writer and the readers use, which readings are kept, and the conclusion that is printed.
\<close>

section \<open>One run\<close>

definition writer_path :: "nat \<Rightarrow> bytes" where
  "writer_path idx = g_query_paths ! (idx mod 100)"

text \<open>The pause after a write, in microseconds: the rest of its share of a second.\<close>

definition writer_sleep :: "int \<Rightarrow> int \<Rightarrow> int" where
  "writer_sleep writes_per_sec elapsed =
     max 0 (sint (word_of_int (1000000 div writes_per_sec - elapsed) :: 32 word))"

definition reader_path :: "nat \<Rightarrow> nat \<Rightarrow> bytes" where
  "reader_path t k = g_query_paths ! ((t * 13 + k) mod 100)"

text \<open>A reader keeps every thousandth of its readings.\<close>

primrec reader_samples :: "nat \<Rightarrow> int list \<Rightarrow> int list" where
  "reader_samples sample_counter [] = []"
| "reader_samples sample_counter (ns # readings) =
     (if Suc sample_counter mod 1000 = 0 then ns # reader_samples (Suc sample_counter) readings
      else reader_samples (Suc sample_counter) readings)"

definition RunLatencyBench :: "int list list \<Rightarrow> int list" where
  "RunLatencyBench readings = concat (map (reader_samples 0) readings)"

section \<open>The conclusion\<close>

datatype winner = RCU_best | RwLock_best | Mutex_best

definition jitter :: "LatencyStats \<Rightarrow> rat" where
  "jitter s = rnd (ls_p999 s / max (ls_p50 s) 1)"

definition conclude :: "LatencyStats \<Rightarrow> LatencyStats \<Rightarrow> LatencyStats \<Rightarrow> winner" where
  "conclude srcu srwl smtx =
     (let rcu_ratio = jitter srcu; rwl_ratio = jitter srwl; mtx_ratio = jitter smtx
      in if rcu_ratio \<le> rwl_ratio \<and> rcu_ratio \<le> mtx_ratio then RCU_best
         else if rwl_ratio \<le> rcu_ratio \<and> rwl_ratio \<le> mtx_ratio then RwLock_best
         else Mutex_best)"

definition round_result :: "int list list \<Rightarrow> int list list \<Rightarrow> int list list \<Rightarrow> tail_verdict list \<times> winner" where
  "round_result rcu_readings rwl_readings mtx_readings =
     (let srcu = ComputePercentiles_ns (RunLatencyBench rcu_readings);
          srwl = ComputePercentiles_ns (RunLatencyBench rwl_readings);
          smtx = ComputePercentiles_ns (RunLatencyBench mtx_readings)
      in (map rcu_tail [srcu, srwl, smtx], conclude srcu srwl smtx))"

section \<open>Lemmas\<close>

text \<open>Every access is to one of the prepared paths, so by \<open>benchmark_reads_hit\<close> every read finds nodes.\<close>

lemma benchmark_paths: "writer_path idx \<in> set g_query_paths" "reader_path t k \<in> set g_query_paths"
proof -
  have "g_query_paths ! (n mod 100) \<in> set g_query_paths" for n
    by (rule nth_mem) (simp add: g_query_paths_def)
  then show "writer_path idx \<in> set g_query_paths" "reader_path t k \<in> set g_query_paths"
    by (simp_all add: writer_path_def reader_path_def)
qed

lemma reader_samples_length: "length (reader_samples c xs) + c div 1000 = (c + length xs) div 1000"
proof (induction xs arbitrary: c)
  case (Cons x xs)
  have "Suc c div 1000 = (if Suc c mod 1000 = 0 then Suc (c div 1000) else c div 1000)"
    by (simp add: div_Suc)
  then show ?case
    using Cons.IH [of "Suc c"] by (simp split: if_splits)
qed simp

text \<open>The printed winner has the smallest ratio.\<close>

lemma conclude_smallest:
  "(case conclude a b c of RCU_best \<Rightarrow> jitter a | RwLock_best \<Rightarrow> jitter b | Mutex_best \<Rightarrow> jitter c)
     = min (jitter a) (min (jitter b) (jitter c))"
  by (auto simp: conclude_def Let_def min_def)

lemma writer_sleep_bounds:
  assumes "0 < w" "w \<le> 1000000" "0 \<le> elapsed" "elapsed < 2 ^ 31"
  shows "0 \<le> writer_sleep w elapsed \<and> writer_sleep w elapsed \<le> 1000000 div w"
proof -
  have "0 \<le> 1000000 div w" "1000000 div w \<le> 1000000"
    using assms(1) zdiv_mono2 [of 1000000 1 w] by (simp_all add: pos_imp_zdiv_nonneg_iff)
  moreover have "sint (word_of_int x :: 32 word) = x" if "- (2 ^ 31) \<le> x" "x < 2 ^ 31" for x
    using that by (simp add: sint_sbintrunc' signed_take_bit_int_eq_self)
  ultimately have "sint (word_of_int (1000000 div w - elapsed) :: 32 word) = 1000000 div w - elapsed"
    using assms(3,4) by (simp del: of_int_diff)
  then show ?thesis
    using assms(1,3) by (simp add: writer_sleep_def pos_imp_zdiv_nonneg_iff)
qed

end
