(* ===== verification/Stats_Report.thy ===== *)
theory Stats_Report
  imports Runtime_Stats
begin

text \<open>
  The report of \<^verbatim>\<open>src/monitor/runtime_stats.cc\<close> as data: which rows it has, the analysis of the
  bottlenecks and the warning about the tail; and \<^verbatim>\<open>tools/benchmark_stats.cc\<close>, which fills the statistics
  with simulated calls and prints it. \<open>Stats_Print\<close> has the text.
\<close>

section \<open>PrintDetailedReport\<close>

definition stage_list :: "Stage list" where
  "stage_list = [ZK_QUERY, LOAD_BALANCE, CONNECT, SERIALIZE_REQ, ENCODE_REQ, NET_IO, DECODE_RES, DESERIALIZE_RES, TOTAL]"

definition report_rows :: "RuntimeStats \<Rightarrow> (Stage \<times> PercentileResult) list" where
  "report_rows s = filter (\<lambda>(st, r). pr_count r \<noteq> 0) (map (\<lambda>st. (st, ComputePercentiles s st)) stage_list)"

record StageWeight =
  sw_stage :: Stage
  sw_p50 :: rat
  sw_pct :: rat

definition stage_weight :: "RuntimeStats \<Rightarrow> Stage \<Rightarrow> StageWeight" where
  "stage_weight s st =
     (let total = ComputePercentiles s TOTAL; r = ComputePercentiles s st
      in \<lparr>sw_stage = st, sw_p50 = p50_ms r,
          sw_pct = (if p50_ms total > rnd (1/1000) then rnd (rnd (p50_ms r / p50_ms total) * 100) else 0)\<rparr>)"

text \<open>\<^verbatim>\<open>std::sort\<close> may order equal keys in any way; here they keep their order.\<close>

definition stage_weights :: "RuntimeStats \<Rightarrow> StageWeight list" where
  "stage_weights s = sort_key (\<lambda>w. - sw_p50 w) (map (stage_weight s) (butlast stage_list))"

definition bar_length :: "rat \<Rightarrow> int option" where
  "bar_length pct = map_option (\<lambda>n. min (max n 1) 50) (cast_signed 32 (rnd (pct / 2)))"

definition bottlenecks :: "RuntimeStats \<Rightarrow> (StageWeight \<times> int option) list" where
  "bottlenecks s =
     (if p50_ms (ComputePercentiles s TOTAL) > 0
      then map (\<lambda>w. (w, bar_length (sw_pct w))) (filter (\<lambda>w. sw_p50 w > rnd (1/1000)) (stage_weights s))
      else [])"

definition long_tail :: "RuntimeStats \<Rightarrow> bool" where
  "long_tail s =
     (let total = ComputePercentiles s TOTAL
      in p99_ms total > rnd (p95_ms total * 3) \<and> p99_ms total > 1)"

section \<open>Simulated calls\<close>

text \<open>How long a stage of a simulated call sleeps, from the numbers it draws: that of the stage, of a cache
  hit, and the two of the long tail.\<close>

definition long_tail_ms :: "rat \<Rightarrow> rat \<Rightarrow> rat" where
  "long_tail_ms trigger tail_draw = (if trigger < rnd (3/100) then tail_draw else 0)"

definition simulated_ms :: "bool \<Rightarrow> (Stage \<Rightarrow> rat) \<Rightarrow> rat \<Rightarrow> rat \<Rightarrow> rat \<Rightarrow> Stage \<Rightarrow> rat" where
  "simulated_ms cache_hit draw cache trigger tail_draw st =
     (case st of
        ZK_QUERY \<Rightarrow> \<bar>if cache_hit then cache else draw ZK_QUERY\<bar>
      | NET_IO \<Rightarrow> rnd (\<bar>draw NET_IO\<bar> + long_tail_ms trigger tail_draw)
      | _ \<Rightarrow> \<bar>draw st\<bar>)"

definition sleep_ns :: "rat \<Rightarrow> int" where
  "sleep_ns ms = trunc (rnd (ms * 1000000))"

text \<open>The stages of a simulated call in their order; only the first call of a thread connects. \<open>d\<close> gives the
  time that the timer of each stage measured.\<close>

definition simulated_stages :: "nat \<Rightarrow> Stage list" where
  "simulated_stages call_id =
     (let cache_hit = call_id > 0
      in [ZK_QUERY, LOAD_BALANCE] @ (if \<not> cache_hit then [CONNECT] else [])
         @ [SERIALIZE_REQ, ENCODE_REQ, NET_IO, DECODE_RES, DESERIALIZE_RES])"

definition SimulateRpcCall :: "nat \<Rightarrow> (Stage \<Rightarrow> rat) \<Rightarrow> RuntimeStats \<Rightarrow> RuntimeStats option" where
  "SimulateRpcCall call_id d s = record_all (map (\<lambda>st. (st, d st)) (simulated_stages call_id)) s"

primrec stats_worker :: "nat \<Rightarrow> (Stage \<Rightarrow> rat) list \<Rightarrow> RuntimeStats \<times> nat \<Rightarrow> (RuntimeStats \<times> nat) option" where
  "stats_worker i [] st = Some st"
| "stats_worker i (d # ds) st =
     (case st of (s, total_calls) \<Rightarrow>
        (case SimulateRpcCall i d s of
           None \<Rightarrow> None
         | Some s1 \<Rightarrow>
             (case Record TOTAL (d TOTAL) s1 of
                None \<Rightarrow> None
              | Some s2 \<Rightarrow> stats_worker (Suc i) ds (s2, total_calls + 1))))"

text \<open>\<^verbatim>\<open>main\<close>: one worker per thread on the shared statistics, here one after the other.\<close>

primrec stats_main :: "(Stage \<Rightarrow> rat) list list \<Rightarrow> RuntimeStats \<times> nat \<Rightarrow> (RuntimeStats \<times> nat) option" where
  "stats_main [] st = Some st"
| "stats_main (w # ws) st =
     (case stats_worker 0 w st of None \<Rightarrow> None | Some st' \<Rightarrow> stats_main ws st')"

lemma sleep_nonneg: "0 \<le> tail_draw \<Longrightarrow> 0 \<le> sleep_ns (simulated_ms hit draw cache trigger tail_draw st)"
proof -
  assume "0 \<le> tail_draw"
  then have "0 \<le> simulated_ms hit draw cache trigger tail_draw st"
    by (cases st) (auto simp: simulated_ms_def long_tail_ms_def intro!: rnd_nonneg)
  then have "0 \<le> rnd (simulated_ms hit draw cache trigger tail_draw st * 1000000)"
    by (intro rnd_nonneg) simp
  then show ?thesis
    by (simp add: sleep_ns_def trunc_def)
qed

section \<open>What was recorded\<close>

definition call_records :: "nat \<Rightarrow> (Stage \<Rightarrow> rat) \<Rightarrow> (Stage \<times> rat) list" where
  "call_records i d = map (\<lambda>st. (st, d st)) (simulated_stages i) @ [(TOTAL, d TOTAL)]"

definition thread_records :: "nat \<Rightarrow> (Stage \<Rightarrow> rat) list \<Rightarrow> (Stage \<times> rat) list" where
  "thread_records i ds = concat (map (\<lambda>(j, d). call_records j d) (enumerate i ds))"

lemma record_all_append:
  "record_all (a @ b) s = (case record_all a s of None \<Rightarrow> None | Some s' \<Rightarrow> record_all b s')"
  by (induction a s rule: record_all.induct) (auto split: option.splits)

lemma durations_append [simp]: "durations st (a @ b) = durations st a @ durations st b"
  by (simp add: durations_def)

lemma stats_worker_records:
  "stats_worker i ds (s, n) = Some (s', n') \<longleftrightarrow>
     record_all (thread_records i ds) s = Some s' \<and> n' = n + length ds"
proof (induction ds arbitrary: i s n)
  case Nil
  then show ?case by (auto simp: thread_records_def)
next
  case (Cons d ds)
  show ?case
    using Cons.IH
    by (auto simp: thread_records_def call_records_def SimulateRpcCall_def record_all_append split: option.splits)
qed

lemma stats_main_records:
  "stats_main ws (s, n) = Some (s', n') \<longleftrightarrow>
     record_all (concat (map (thread_records 0) ws)) s = Some s' \<and> n' = n + sum_list (map length ws)"
proof (induction ws arbitrary: s n)
  case (Cons w ws)
  show ?case
  proof (cases "stats_worker 0 w (s, n)")
    case None
    then have "record_all (thread_records 0 w) s = None"
      using stats_worker_records [of 0 w s n] by (cases "record_all (thread_records 0 w) s") auto
    with None show ?thesis by (simp add: record_all_append)
  next
    case (Some st)
    then obtain s1 n1 where "st = (s1, n1)" "record_all (thread_records 0 w) s = Some s1" "n1 = n + length w"
      using stats_worker_records [of 0 w s n] by (cases st) auto
    with Some Cons.IH [of s1 n1] show ?thesis
      by (auto simp: record_all_append)
  qed
qed auto

lemma call_durations: "length (durations st (call_records i d)) = (if st = CONNECT \<and> i \<noteq> 0 then 0 else 1)"
  by (cases st) (simp_all add: call_records_def simulated_stages_def durations_def Let_def)

lemma later_durations: "length (durations st (thread_records (Suc i) ds)) = (if st = CONNECT then 0 else length ds)"
  by (induction ds arbitrary: i) (simp_all add: thread_records_def call_durations)

lemma thread_durations:
  "length (durations st (thread_records 0 ds)) = (if st = CONNECT then if ds = [] then 0 else 1 else length ds)"
proof (cases ds)
  case (Cons d ds')
  have "thread_records 0 (d # ds') = call_records 0 d @ thread_records (Suc 0) ds'"
    by (simp add: thread_records_def)
  then show ?thesis
    by (simp add: Cons call_durations later_durations)
qed (simp add: thread_records_def)

lemma unat_of_nat_less: "n < 2 ^ 53 \<Longrightarrow> unat (word_of_nat n :: 64 word) = n"
  by (simp add: unat_of_nat)

section \<open>The bars\<close>

lemma percentile_loop_p50:
  "P (p50_ms r) \<Longrightarrow> (\<And>j. i \<le> j \<Longrightarrow> j < i + length hist \<Longrightarrow> P (bucket_mid j)) \<Longrightarrow>
    P (p50_ms (percentile_loop t50 t95 t99 i c f50 f95 hist r))"
proof (induction hist arbitrary: i c f50 f95 r)
  case (Cons b hist)
  have "P (bucket_mid i)" "\<And>j. Suc i \<le> j \<Longrightarrow> j < Suc i + length hist \<Longrightarrow> P (bucket_mid j)"
    using Cons.prems(2) by simp_all
  with Cons.prems(1) show ?case
    by (simp add: Let_def Cons.IH)
qed simp

lemma bucket_mid_range:
  assumes "i < 300"
  shows "0 \<le> bucket_mid i \<and> bucket_mid i \<le> 33"
proof -
  have i: "rat_of_nat i + 1/2 \<le> 300"
    using assms of_nat_le_iff [of i 299, where ?'a = rat] by simp
  have w: "0 \<le> kBucketWidthMs" "kBucketWidthMs \<le> 11/100"
    by (simp_all add: width_value)
  have "(rat_of_nat i + 1/2) * kBucketWidthMs \<le> 300 * (11/100)"
    using i w by (intro mult_mono) simp_all
  then have "bucket_mid i \<le> rnd 33"
    unfolding bucket_mid_def half_exact [OF assms] using w by (intro rnd_mono) simp_all
  moreover have "rnd 33 = 33"
    using rnd_of_int [of 33] by simp
  moreover have "0 \<le> bucket_mid i"
    unfolding bucket_mid_def half_exact [OF assms] using w by (intro rnd_nonneg) simp
  ultimately show ?thesis by simp
qed

lemma p50_range:
  assumes "tracks s evs"
  shows "0 \<le> p50_ms (ComputePercentiles s st) \<and> p50_ms (ComputePercentiles s st) \<le> 33"
proof -
  have "length (m_hist s st) = 300"
    using assms by (simp add: tracks_def Let_def kHistBucketCount_def)
  then show ?thesis
    unfolding ComputePercentiles_def Let_def
    by (auto intro!: percentile_loop_p50 [where P = "\<lambda>x. 0 \<le> x \<and> x \<le> 33"] bucket_mid_range simp del: bucket_mid_def)
qed

lemma bar_length_range:
  assumes "tracks s evs"
  shows "\<exists>n. bar_length (sw_pct (stage_weight s st)) = Some n \<and> 1 \<le> n \<and> n \<le> 50"
proof -
  let ?p = "p50_ms (ComputePercentiles s st)" and ?t = "p50_ms (ComputePercentiles s TOTAL)"
  let ?pct = "sw_pct (stage_weight s st)"
  have pct: "0 \<le> ?pct \<and> ?pct \<le> 3379200"
  proof (cases "?t > rnd (1/1000)")
    case True
    have "1/1024 \<le> rnd (1/1000)"
      using rnd_mono [of "2 powi (-10)" "1/1000"] unfolding rnd_pow2 by (simp add: power_int_minus)
    then have t: "1/1024 \<le> ?t"
      using True by linarith
    have p: "0 \<le> ?p" "?p \<le> 33"
      using p50_range [OF assms] by simp_all
    have "?p / ?t \<le> 33 / (1/1024)"
      using p t by (intro frac_le) simp_all
    then have frac: "0 \<le> ?p / ?t" "?p / ?t \<le> of_int 33792"
      using p t by simp_all
    have "0 \<le> rnd (?p / ?t) * 100" "rnd (?p / ?t) * 100 \<le> of_int 3379200"
      using rnd_nonneg [OF frac(1)] rnd_le_int [OF frac(2)] by simp_all
    then have "0 \<le> rnd (rnd (?p / ?t) * 100)" "rnd (rnd (?p / ?t) * 100) \<le> of_int 3379200"
      using rnd_nonneg rnd_le_int [of "rnd (?p / ?t) * 100" 3379200] by simp_all
    with True show ?thesis
      by (simp add: stage_weight_def Let_def)
  qed (simp add: stage_weight_def Let_def)
  have "rnd (?pct / 2) \<le> of_int 1689600" "0 \<le> rnd (?pct / 2)"
    using pct rnd_nonneg [of "?pct / 2"] rnd_le_int [of "?pct / 2" 1689600] by simp_all
  then have "trunc (rnd (?pct / 2)) \<le> 1689600" "0 \<le> trunc (rnd (?pct / 2))"
    by (simp_all add: trunc_def floor_le_iff)
  then show ?thesis
    by (simp add: bar_length_def cast_signed_def)
qed

section \<open>Properties\<close>

text \<open>C35: the report lists what was recorded. After any sequence of records of non-negative times, the rows are
  exactly the stages that were recorded, in their fixed order and with the exact counts; in each row
  the percentiles are in order; the bottlenecks come with falling medians, and every bar has between
  1 and 50 characters, so that none of the conversions behind it is out of range.\<close>

theorem detailed_report:
  assumes "record_all evs RuntimeStats_init = Some s" "\<forall>st. length (durations st evs) < 2 ^ 53"
    and "\<forall>(st, d) \<in> set evs. 0 \<le> d"
  shows "map fst (report_rows s) = filter (\<lambda>st. durations st evs \<noteq> []) stage_list
    \<and> (\<forall>(st, r) \<in> set (report_rows s). unat (pr_count r) = length (durations st evs)
         \<and> p50_ms r \<le> p95_ms r \<and> p95_ms r \<le> p99_ms r)
    \<and> sorted (map (\<lambda>(w, bar). - sw_p50 w) (bottlenecks s))
    \<and> (\<forall>(w, bar) \<in> set (bottlenecks s). \<exists>n. bar = Some n \<and> 1 \<le> n \<and> n \<le> 50)"
proof -
  have tr: "tracks s evs"
    using tracks_record_all [OF tracks_init assms(1)] by simp
  have nonneg: "\<forall>d \<in> set (durations st evs). 0 \<le> d" for st
    using assms(3) by (auto simp: durations_def)
  have cnt: "unat (pr_count (ComputePercentiles s st)) = length (durations st evs)" for st
    using compute_count [OF tr, of st] spec [OF assms(2), of st] unat_of_nat_less by simp
  have rows: "map fst (report_rows s) = filter (\<lambda>st. durations st evs \<noteq> []) stage_list"
  proof -
    have "pr_count (ComputePercentiles s st) \<noteq> 0 \<longleftrightarrow> durations st evs \<noteq> []" for st
      using cnt [of st] by (metis length_0_conv unat_eq_zero)
    then show ?thesis
      by (simp add: report_rows_def filter_map comp_def)
  qed
  moreover have "\<forall>(st, r) \<in> set (report_rows s). unat (pr_count r) = length (durations st evs)
      \<and> p50_ms r \<le> p95_ms r \<and> p95_ms r \<le> p99_ms r"
  proof (clarify)
    fix st r
    assume mem: "(st, r) \<in> set (report_rows s)"
    then have r: "r = ComputePercentiles s st"
      by (auto simp: report_rows_def)
    have "st \<in> set (map fst (report_rows s))"
      using mem by force
    then have "durations st evs \<noteq> []"
      by (simp add: rows)
    with percentile_order [OF tr refl _ _ nonneg, of st] assms(2) cnt
    show "unat (pr_count r) = length (durations st evs) \<and> p50_ms r \<le> p95_ms r \<and> p95_ms r \<le> p99_ms r"
      by (simp add: r)
  qed
  moreover have "sorted (map (\<lambda>(w, bar). - sw_p50 w) (bottlenecks s))"
    by (auto simp: bottlenecks_def stage_weights_def comp_def sorted_filter)
  moreover have "\<forall>(w, bar) \<in> set (bottlenecks s). \<exists>n. bar = Some n \<and> 1 \<le> n \<and> n \<le> 50"
    using bar_length_range [OF tr] by (auto simp: bottlenecks_def stage_weights_def)
  ultimately show ?thesis by blast
qed

text \<open>The simulation records every stage of every call. After a run of \<^verbatim>\<open>benchmark_stats\<close> with any number of
  threads and calls per thread whose measured times can be recorded, the number of calls is right and
  the report counts each call once in every stage, except that connecting is counted once per thread
  that made a call.\<close>

lemma simulated_stage_counts:
  assumes "stats_main ws (RuntimeStats_init, 0) = Some (s, total_calls)" "sum_list (map length ws) < 2 ^ 53"
  shows "total_calls = sum_list (map length ws)
    \<and> (\<forall>st. unat (pr_count (ComputePercentiles s st)) =
         (if st = CONNECT then length (filter (\<lambda>w. w \<noteq> []) ws) else sum_list (map length ws)))"
proof -
  let ?evs = "concat (map (thread_records 0) ws)"
  have rec: "record_all ?evs RuntimeStats_init = Some s" "total_calls = sum_list (map length ws)"
    using assms(1) stats_main_records [of ws RuntimeStats_init 0 s total_calls] by simp_all
  have tr: "tracks s ?evs"
    using tracks_record_all [OF tracks_init rec(1)] by simp
  have len: "length (durations st ?evs) =
      (if st = CONNECT then length (filter (\<lambda>w. w \<noteq> []) ws) else sum_list (map length ws))" for st
    by (induction ws) (simp_all add: thread_durations)
  have "length (filter (\<lambda>w. w \<noteq> []) ws) \<le> sum_list (map length ws)"
    by (induction ws) (auto simp: neq_Nil_conv)
  then have "length (durations st ?evs) < 2 ^ 53" for st
    using assms(2) len [of st] by (simp split: if_splits)
  then have "unat (pr_count (ComputePercentiles s st)) = length (durations st ?evs)" for st
    using compute_count [OF tr, of st] unat_of_nat_less [of "length (durations st ?evs)"] by simp
  with len rec(2) show ?thesis by simp
qed

section \<open>Witnesses\<close>

theorem detailed_report_witness:
  "\<exists>s. record_all sample_times RuntimeStats_init = Some s \<and> map fst (report_rows s) = [NET_IO, TOTAL]"
proof -
  obtain s where s: "record_all sample_times RuntimeStats_init = Some s"
    using sample_recorded by blast
  have d: "length (durations st sample_times) < 2 ^ 53" for st
    by (cases st) (simp_all add: durations_def sample_times_def)
  have "\<forall>(st, d) \<in> set sample_times. 0 \<le> d"
    by (simp add: sample_times_def)
  from detailed_report [OF s _ this] d have "map fst (report_rows s) = filter (\<lambda>st. durations st sample_times \<noteq> []) stage_list"
    by blast
  also have "\<dots> = [NET_IO, TOTAL]"
    by (simp add: stage_list_def durations_def sample_times_def)
  finally show ?thesis
    by (intro exI [of _ s] conjI s)
qed

lemma record_all_defined:
  assumes "\<forall>(st, d) \<in> set evs. cast_signed 64 (rnd (d * 1000000)) \<noteq> None \<and> cast_signed 32 (rnd (d / kBucketWidthMs)) \<noteq> None"
  shows "\<exists>s'. record_all evs s = Some s'"
  using assms
proof (induction evs arbitrary: s)
  case (Cons ev evs)
  obtain st d where ev: "ev = (st, d)" by fastforce
  obtain s1 where "Record st d s = Some s1"
    using Cons.prems by (auto simp: ev Record_def Let_def)
  with Cons show ?case by (simp add: ev)
qed simp

lemma sample_casts:
  "cast_signed 64 (rnd (1 * 1000000)) \<noteq> None" "cast_signed 32 (rnd (1 / kBucketWidthMs)) \<noteq> None"
  by code_simp+

end
