(* ===== verification/Thread_Lists.thy ===== *)
theory Thread_Lists
  imports Main "HOL-Library.Multiset"
begin

text \<open>
  What the models of several threads share: the threads are a list, a step replaces one of them, and
  the invariants speak about everything the threads hold together.
\<close>

lemma mset_concat_update:
  assumes "i < length xs"
  shows "mset (concat (map f (xs[i := x]))) + mset (f (xs ! i)) = mset (concat (map f xs)) + mset (f x)"
proof -
  have "mset (concat (map f xs)) = mset (concat (map f (take i xs @ xs ! i # drop (Suc i) xs)))"
    using assms by (simp add: id_take_nth_drop [symmetric])
  then show ?thesis
    using assms by (simp add: upd_conv_take_nth_drop)
qed

text \<open>If the new thread holds \<open>A\<close> in addition to the old one, so do all threads together.\<close>

lemma mset_concat_grow:
  assumes "i < length xs" "mset (f x) = mset (f (xs ! i)) + A"
  shows "mset (concat (map f (xs[i := x]))) = mset (concat (map f xs)) + A"
  using mset_concat_update [OF assms(1), of f x] assms(2) by simp

lemma sum_list_update_less:
  fixes f :: "'a \<Rightarrow> nat"
  assumes "i < length xs" "f x < f (xs ! i)"
  shows "sum_list (map f (xs[i := x])) < sum_list (map f xs)"
proof -
  have "f (xs ! i) \<le> sum_list (map f xs)"
    using assms(1) by (intro member_le_sum_list) simp_all
  with assms show ?thesis
    by (simp add: map_update sum_list_update)
qed

end
