(* ===== verification/Concurrent_Stats.thy ===== *)
theory Concurrent_Stats
  imports Stats_Report Thread_Lists
begin

text \<open>
  \<^verbatim>\<open>RuntimeStats::Record\<close> of \<^verbatim>\<open>src/monitor/runtime_stats.cc\<close> as many threads run it on the one instance.
  Each of its accesses to an atomic is a step of its own, so that a report may see a call that is
  counted but not yet in the histogram. The result is that, once all threads are done, the statistics
  are those of the calls made one after the other, in any order.
\<close>

section \<open>Threads that record\<close>

text \<open>Where a thread stands in \<^verbatim>\<open>Record(stage, duration_ms)\<close>. The last value of \<open>Loaded\<close> is \<^verbatim>\<open>old_max\<close>.\<close>

datatype record_pc =
    Outside
  | Counted Stage rat
  | Totalled Stage rat int
  | Loaded Stage rat int "64 word"
  | Maximised Stage rat

text \<open>A thread has the calls it will still make; \<open>th_done\<close> remembers the ones it has finished.\<close>

record stats_thread =
  th_pc :: record_pc
  th_todo :: "(Stage \<times> rat) list"
  th_done :: "(Stage \<times> rat) list"

record stats_system =
  shared :: RuntimeStats
  threads :: "stats_thread list"

definition stats_init :: "RuntimeStats \<Rightarrow> (Stage \<times> rat) list list \<Rightarrow> stats_system" where
  "stats_init s0 progs = \<lparr>shared = s0, threads = map (\<lambda>p. \<lparr>th_pc = Outside, th_todo = p, th_done = []\<rparr>) progs\<rparr>"

definition move :: "nat \<Rightarrow> record_pc \<Rightarrow> stats_system \<Rightarrow> stats_system" where
  "move t p s = s\<lparr>threads := (threads s)[t := (threads s ! t)\<lparr>th_pc := p\<rparr>]\<rparr>"

text \<open>A thread whose conversion of a \<^verbatim>\<open>double\<close> is undefined has no further step.\<close>

inductive stats_step :: "stats_system \<Rightarrow> stats_system \<Rightarrow> bool" where
  st_count: "t < length (threads s) \<Longrightarrow> th_pc (threads s ! t) = Outside \<Longrightarrow> th_todo (threads s ! t) = (st, d) # todo \<Longrightarrow>
     stats_step s (s\<lparr>shared := (shared s)\<lparr>m_counts := (m_counts (shared s))(st := m_counts (shared s) st + 1)\<rparr>,
       threads := (threads s)[t := (threads s ! t)\<lparr>th_pc := Counted st d, th_todo := todo\<rparr>]\<rparr>)"
| st_total: "t < length (threads s) \<Longrightarrow> th_pc (threads s ! t) = Counted st d \<Longrightarrow>
     cast_signed 64 (rnd (d * 1000000)) = Some ns \<Longrightarrow>
     stats_step s (move t (Totalled st d ns)
       (s\<lparr>shared := (shared s)\<lparr>m_total_times := (m_total_times (shared s))(st := m_total_times (shared s) st + word_of_int ns)\<rparr>\<rparr>))"
| st_load: "t < length (threads s) \<Longrightarrow> th_pc (threads s ! t) = Totalled st d ns \<Longrightarrow>
     stats_step s (move t (Loaded st d ns (m_max_times (shared s) st)) s)"
| st_not_larger: "t < length (threads s) \<Longrightarrow> th_pc (threads s ! t) = Loaded st d ns old_max \<Longrightarrow> \<not> ns > sint old_max \<Longrightarrow>
     stats_step s (move t (Maximised st d) s)"
| st_swapped: "t < length (threads s) \<Longrightarrow> th_pc (threads s ! t) = Loaded st d ns old_max \<Longrightarrow> ns > sint old_max \<Longrightarrow>
     m_max_times (shared s) st = old_max \<Longrightarrow>
     stats_step s (move t (Maximised st d)
       (s\<lparr>shared := (shared s)\<lparr>m_max_times := (m_max_times (shared s))(st := word_of_int ns)\<rparr>\<rparr>))"
| st_not_swapped: "t < length (threads s) \<Longrightarrow> th_pc (threads s ! t) = Loaded st d ns old_max \<Longrightarrow> ns > sint old_max \<Longrightarrow>
     stats_step s (move t (Loaded st d ns (m_max_times (shared s) st)) s)"
| st_bucket: "t < length (threads s) \<Longrightarrow> th_pc (threads s ! t) = Maximised st d \<Longrightarrow>
     cast_signed 32 (rnd (d / kBucketWidthMs)) = Some bucket \<Longrightarrow> b = bucket_of bucket \<Longrightarrow>
     stats_step s (s\<lparr>shared := (shared s)\<lparr>m_hist := (m_hist (shared s))(st :=
         (m_hist (shared s) st)[b := m_hist (shared s) st ! b + 1])\<rparr>,
       threads := (threads s)[t := (threads s ! t)\<lparr>th_pc := Outside, th_done := th_done (threads s ! t) @ [(st, d)]\<rparr>]\<rparr>)"

definition finished :: "stats_system \<Rightarrow> bool" where
  "finished s \<longleftrightarrow> (\<forall>th \<in> set (threads s). th_pc th = Outside \<and> th_todo th = [])"

text \<open>The calls of a thread that have reached each of the four atomics.\<close>

fun in_counts :: "record_pc \<Rightarrow> (Stage \<times> rat) list" where
  "in_counts Outside = []"
| "in_counts (Counted st d) = [(st, d)]"
| "in_counts (Totalled st d ns) = [(st, d)]"
| "in_counts (Loaded st d ns old) = [(st, d)]"
| "in_counts (Maximised st d) = [(st, d)]"

fun in_totals :: "record_pc \<Rightarrow> (Stage \<times> rat) list" where
  "in_totals (Totalled st d ns) = [(st, d)]"
| "in_totals (Loaded st d ns old) = [(st, d)]"
| "in_totals (Maximised st d) = [(st, d)]"
| "in_totals _ = []"

fun in_max :: "record_pc \<Rightarrow> (Stage \<times> rat) list" where
  "in_max (Maximised st d) = [(st, d)]"
| "in_max _ = []"

definition reached :: "(record_pc \<Rightarrow> (Stage \<times> rat) list) \<Rightarrow> stats_system \<Rightarrow> (Stage \<times> rat) multiset" where
  "reached f s = mset (concat (map (\<lambda>th. th_done th @ f (th_pc th)) (threads s)))"

section \<open>What a collection of calls does to the statistics\<close>

text \<open>The four atomics of each stage after the calls \<open>C\<close>, \<open>T\<close>, \<open>M\<close> and \<open>B\<close> have reached them.\<close>

definition of_stage :: "Stage \<Rightarrow> (Stage \<times> rat) multiset \<Rightarrow> rat multiset" where
  "of_stage st E = image_mset snd (filter_mset (\<lambda>e. fst e = st) E)"

lemma of_stage_simps [simp]:
  "of_stage st {#} = {#}" "of_stage st (E + F) = of_stage st E + of_stage st F"
  "of_stage st (add_mset (st', d) E) = (if st' = st then add_mset d (of_stage st E) else of_stage st E)"
  by (simp_all add: of_stage_def)

definition effect :: "RuntimeStats \<Rightarrow> (Stage \<times> rat) multiset \<Rightarrow> (Stage \<times> rat) multiset \<Rightarrow> (Stage \<times> rat) multiset
    \<Rightarrow> (Stage \<times> rat) multiset \<Rightarrow> RuntimeStats \<Rightarrow> bool" where
  "effect s0 C T M B s \<longleftrightarrow> (\<forall>st.
     m_counts s st = m_counts s0 st + word_of_nat (size (of_stage st C))
     \<and> m_total_times s st = m_total_times s0 st + word_of_int (sum_mset (image_mset ns_of (of_stage st T)))
     \<and> sint (m_max_times s st) = Max (insert (sint (m_max_times s0 st)) (ns_of ` set_mset (of_stage st M)))
     \<and> length (m_hist s st) = length (m_hist s0 st)
     \<and> (\<forall>j < length (m_hist s0 st). m_hist s st ! j =
          m_hist s0 st ! j + word_of_nat (size (filter_mset (\<lambda>d. bucket_index d = j) (of_stage st B)))))"

lemma effect_refl: "effect s0 {#} {#} {#} {#} s0"
  by (simp add: effect_def)

lemma effect_unique:
  assumes "effect s0 C T M B s" "effect s0 C T M B s'"
  shows "s = s'"
proof -
  have "m_counts s st = m_counts s' st" "m_total_times s st = m_total_times s' st"
      "m_max_times s st = m_max_times s' st" "m_hist s st = m_hist s' st" for st
    using assms unfolding effect_def by (metis, metis, metis signed_word_eqI, metis nth_equalityI)
  then have "m_counts s = m_counts s'" "m_total_times s = m_total_times s'" "m_max_times s = m_max_times s'"
      "m_hist s = m_hist s'"
    by blast+
  then show ?thesis by simp
qed

text \<open>One access at a time.\<close>

lemma cast_ns: "cast_signed 64 (rnd (d * 1000000)) = Some ns \<longleftrightarrow> ns = ns_of d \<and> - (2 ^ 63) \<le> ns_of d \<and> ns_of d < 2 ^ 63"
  by (auto simp: cast_signed_def ns_of_def)

lemma cast_bucket: "cast_signed 32 (rnd (d / kBucketWidthMs)) = Some b \<Longrightarrow> bucket_of b = bucket_index d"
  by (auto simp: cast_signed_def bucket_index_def split: if_splits)

lemma effect_count:
  "effect s0 C T M B s \<Longrightarrow>
    effect s0 (add_mset (st, d) C) T M B (s\<lparr>m_counts := (m_counts s)(st := m_counts s st + 1)\<rparr>)"
  by (simp add: effect_def)

lemma effect_total:
  "effect s0 C T M B s \<Longrightarrow> effect s0 C (add_mset (st, d) T) M B
    (s\<lparr>m_total_times := (m_total_times s)(st := m_total_times s st + word_of_int (ns_of d))\<rparr>)"
  by (simp add: effect_def)

lemma Max_insert_image:
  "Max (insert m (f ` set_mset (add_mset d E))) = max (f d) (Max (insert m (f ` set_mset E)))" for m :: int
  by (simp add: insert_commute [of m] Max_insert)

lemma effect_swap:
  assumes "effect s0 C T M B s" "ns_of d > sint (m_max_times s st)" "ns_of d < 2 ^ 63"
  shows "effect s0 C T (add_mset (st, d) M) B (s\<lparr>m_max_times := (m_max_times s)(st := word_of_int (ns_of d))\<rparr>)"
proof -
  have "- (2 ^ 63) \<le> sint (m_max_times s st)"
    using sint_range_size [of "m_max_times s st"] by (simp add: word_size)
  then have "sint (word_of_int (ns_of d) :: 64 word) = ns_of d"
    using assms(2,3) by (intro sint_word_of_int) simp_all
  with assms show ?thesis
    unfolding effect_def of_stage_simps by (auto simp: Max_insert_image simp del: set_mset_add_mset_insert)
qed

lemma effect_below:
  "effect s0 C T M B s \<Longrightarrow> ns_of d \<le> sint (m_max_times s st) \<Longrightarrow> effect s0 C T (add_mset (st, d) M) B s"
  unfolding effect_def of_stage_simps by (auto simp: Max_insert_image simp del: set_mset_add_mset_insert)

lemma effect_bucket:
  "effect s0 C T M B s \<Longrightarrow> b = bucket_index d \<Longrightarrow> effect s0 C T M (add_mset (st, d) B)
    (s\<lparr>m_hist := (m_hist s)(st := (m_hist s st)[b := m_hist s st ! b + 1])\<rparr>)"
  by (auto simp: effect_def nth_list_update)

section \<open>Calls one after the other\<close>

definition representable :: "Stage \<times> rat \<Rightarrow> bool" where
  "representable e \<longleftrightarrow> cast_signed 64 (rnd (snd e * 1000000)) \<noteq> None \<and> cast_signed 32 (rnd (snd e / kBucketWidthMs)) \<noteq> None"

lemma Record_defined: "Record st d s \<noteq> None \<longleftrightarrow> representable (st, d)"
  by (auto simp: Record_def representable_def Let_def split: option.splits)

lemma record_all_representable: "record_all evs s \<noteq> None \<longleftrightarrow> (\<forall>e \<in> set evs. representable e)"
proof (induction evs s rule: record_all.induct)
  case (2 st d evs s)
  show ?case
  proof (cases "Record st d s")
    case None
    then have "\<not> representable (st, d)"
      using Record_defined by blast
    with None show ?thesis by simp
  next
    case (Some s1)
    then have "representable (st, d)"
      by (metis Record_defined option.distinct(1))
    with "2.IH" [OF Some] Some show ?thesis by simp
  qed
qed simp

lemma effect_Record:
  assumes "effect s0 C T M B s" "Record st d s = Some s'"
  shows "effect s0 (add_mset (st, d) C) (add_mset (st, d) T) (add_mset (st, d) M) (add_mset (st, d) B) s'"
proof -
  obtain b where ns: "cast_signed 64 (rnd (d * 1000000)) = Some (ns_of d)"
    and b: "cast_signed 32 (rnd (d / kBucketWidthMs)) = Some b"
    using assms(2) by (auto simp: Record_def cast_ns split: option.splits)
  let ?s1 = "s\<lparr>m_counts := (m_counts s)(st := m_counts s st + 1)\<rparr>"
  let ?s2 = "?s1\<lparr>m_total_times := (m_total_times ?s1)(st := m_total_times ?s1 st + word_of_int (ns_of d))\<rparr>"
  let ?s3 = "if ns_of d > sint (m_max_times ?s2 st)
      then ?s2\<lparr>m_max_times := (m_max_times ?s2)(st := word_of_int (ns_of d))\<rparr> else ?s2"
  have small: "ns_of d < 2 ^ 63"
    using ns by (simp add: cast_ns)
  have "effect s0 (add_mset (st, d) C) (add_mset (st, d) T) M B ?s2"
    using assms(1) by (intro effect_total effect_count)
  then have "effect s0 (add_mset (st, d) C) (add_mset (st, d) T) (add_mset (st, d) M) B ?s3"
    using effect_swap [where s = ?s2, OF _ _ small] effect_below [where s = ?s2] by auto
  from effect_bucket [OF this cast_bucket [OF b]]
  have "effect s0 (add_mset (st, d) C) (add_mset (st, d) T) (add_mset (st, d) M) (add_mset (st, d) B)
      (?s3\<lparr>m_hist := (m_hist ?s3)(st := (m_hist ?s3 st)[bucket_of b := m_hist ?s3 st ! bucket_of b + 1])\<rparr>)" .
  moreover have "s' = ?s3\<lparr>m_hist := (m_hist ?s3)(st := (m_hist ?s3 st)[bucket_of b := m_hist ?s3 st ! bucket_of b + 1])\<rparr>"
    using assms(2) by (cases s) (auto simp: Record_def ns b Let_def)
  ultimately show ?thesis by simp
qed

lemma effect_record_all:
  "effect s0 C T M B s \<Longrightarrow> record_all evs s = Some s' \<Longrightarrow>
    effect s0 (C + mset evs) (T + mset evs) (M + mset evs) (B + mset evs) s'"
proof (induction evs arbitrary: s C T M B)
  case (Cons e evs)
  obtain st d s1 where e: "e = (st, d)" "Record st d s = Some s1" "record_all evs s1 = Some s'"
    using Cons.prems(2) by (cases e) (auto split: option.splits)
  from Cons.IH [OF effect_Record [OF Cons.prems(1) e(2)] e(3)] show ?case
    by (simp add: e(1))
qed simp

section \<open>The invariant of the interleaved calls\<close>

fun pc_ok :: "RuntimeStats \<Rightarrow> record_pc \<Rightarrow> bool" where
  "pc_ok s (Totalled st d ns) \<longleftrightarrow> cast_signed 64 (rnd (d * 1000000)) = Some ns"
| "pc_ok s (Loaded st d ns old) \<longleftrightarrow> cast_signed 64 (rnd (d * 1000000)) = Some ns \<and> sint old \<le> sint (m_max_times s st)"
| "pc_ok s (Maximised st d) \<longleftrightarrow> cast_signed 64 (rnd (d * 1000000)) = Some (ns_of d)"
| "pc_ok s _ \<longleftrightarrow> True"

definition thread_of :: "(Stage \<times> rat) list \<Rightarrow> stats_thread \<Rightarrow> bool" where
  "thread_of p th \<longleftrightarrow> p = th_done th @ in_counts (th_pc th) @ th_todo th"

definition stats_inv :: "RuntimeStats \<Rightarrow> (Stage \<times> rat) list list \<Rightarrow> stats_system \<Rightarrow> bool" where
  "stats_inv s0 progs s \<longleftrightarrow>
     effect s0 (reached in_counts s) (reached in_totals s) (reached in_max s) (reached (\<lambda>_. []) s) (shared s)
     \<and> list_all2 thread_of progs (threads s) \<and> (\<forall>th \<in> set (threads s). pc_ok (shared s) (th_pc th))
     \<and> (\<forall>th \<in> set (threads s). \<forall>e \<in> set (th_done th). representable e)"

lemma reached_update:
  assumes "t < length (threads s)"
    and "mset (th_done th @ f (th_pc th)) = mset (th_done (threads s ! t) @ f (th_pc (threads s ! t))) + A"
  shows "reached f (s\<lparr>shared := x, threads := (threads s)[t := th]\<rparr>) = reached f s + A"
  using mset_concat_grow [of t "threads s" "\<lambda>th. th_done th @ f (th_pc th)" th A] assms by (simp add: reached_def)

lemma pc_ok_mono: "pc_ok s p \<Longrightarrow> (\<And>st. sint (m_max_times s st) \<le> sint (m_max_times s' st)) \<Longrightarrow> pc_ok s' p"
  by (cases p) (auto intro: order_trans)

text \<open>A step of thread \<open>t\<close> keeps the invariant if it extends what its calls have reached as the shared
  statistics change.\<close>

lemma stats_inv_update:
  assumes inv: "stats_inv s0 progs s" and t: "t < length (threads s)"
    and fin: "mset (th_done th) = mset (th_done (threads s ! t)) + B"
    and parts: "mset (th_done th @ in_counts (th_pc th)) = mset (th_done (threads s ! t) @ in_counts (th_pc (threads s ! t))) + C"
      "mset (th_done th @ in_totals (th_pc th)) = mset (th_done (threads s ! t) @ in_totals (th_pc (threads s ! t))) + T"
      "mset (th_done th @ in_max (th_pc th)) = mset (th_done (threads s ! t) @ in_max (th_pc (threads s ! t))) + M"
    and eff: "effect s0 (reached in_counts s + C) (reached in_totals s + T) (reached in_max s + M) (reached (\<lambda>_. []) s + B) x"
    and prog: "th_done th @ in_counts (th_pc th) @ th_todo th
        = th_done (threads s ! t) @ in_counts (th_pc (threads s ! t)) @ th_todo (threads s ! t)"
    and grows: "\<And>st. sint (m_max_times (shared s) st) \<le> sint (m_max_times x st)" and ok: "pc_ok x (th_pc th)"
    and rep: "\<forall>e \<in> set (th_done th) - set (th_done (threads s ! t)). representable e"
  shows "stats_inv s0 progs (s\<lparr>shared := x, threads := (threads s)[t := th]\<rparr>)"
proof -
  have all: "list_all2 thread_of progs (threads s)" "\<forall>th \<in> set (threads s). pc_ok (shared s) (th_pc th)"
      "\<forall>th \<in> set (threads s). \<forall>e \<in> set (th_done th). representable e"
    using inv by (simp_all add: stats_inv_def)
  have "list_all2 thread_of progs ((threads s)[t := th])"
    using all(1) t prog by (auto simp: list_all2_conv_all_nth nth_list_update thread_of_def)
  moreover have "\<forall>th \<in> set ((threads s)[t := th]). pc_ok x (th_pc th)"
    using all(2) ok pc_ok_mono [OF _ grows] set_update_subset_insert [of "threads s" t th] by blast
  moreover have "\<forall>th \<in> set ((threads s)[t := th]). \<forall>e \<in> set (th_done th). representable e"
    using all(3) rep nth_mem [OF t] set_update_subset_insert [of "threads s" t th] by blast
  ultimately show ?thesis
    using eff reached_update [where f = in_counts, OF t parts(1)] reached_update [where f = in_totals, OF t parts(2)]
      reached_update [where f = in_max, OF t parts(3)] reached_update [where f = "\<lambda>_. []", OF t] fin
    by (simp add: stats_inv_def)
qed

lemma stats_inv_pc: "stats_inv s0 progs s \<Longrightarrow> t < length (threads s) \<Longrightarrow> pc_ok (shared s) (th_pc (threads s ! t))"
  by (simp add: stats_inv_def)

lemma stats_inv_effect: "stats_inv s0 progs s \<Longrightarrow>
    effect s0 (reached in_counts s) (reached in_totals s) (reached in_max s) (reached (\<lambda>_. []) s) (shared s)"
  by (simp add: stats_inv_def)

lemma stats_inv_loaded:
  assumes "stats_inv s0 progs s" "t < length (threads s)"
    and "th_pc (threads s ! t) \<in> {Totalled st d ns, Loaded st d ns old}"
  shows "stats_inv s0 progs (move t (Loaded st d ns (m_max_times (shared s) st)) s)"
proof -
  let ?th = "(threads s ! t)\<lparr>th_pc := Loaded st d ns (m_max_times (shared s) st)\<rparr>"
  have "stats_inv s0 progs (s\<lparr>shared := shared s, threads := (threads s)[t := ?th]\<rparr>)"
    by (rule stats_inv_update [OF assms(1,2), where C = "{#}" and T = "{#}" and M = "{#}" and B = "{#}"])
      (use assms(3) stats_inv_effect [OF assms(1)] stats_inv_pc [OF assms(1,2)] in auto)
  then show ?thesis by (simp add: move_def)
qed

lemma sint_max_swap:
  assumes "ns > sint (m_max_times s st)" "ns < 2 ^ 63"
  shows "sint (m_max_times s st') \<le> sint (m_max_times (s\<lparr>m_max_times := (m_max_times s)(st := word_of_int ns)\<rparr>) st')"
proof -
  have "- (2 ^ 63) \<le> sint (m_max_times s st)"
    using sint_range_size [of "m_max_times s st"] by (simp add: word_size)
  then have "sint (word_of_int ns :: 64 word) = ns"
    using assms by (intro sint_word_of_int) simp_all
  with assms(1) show ?thesis by simp
qed

lemma stats_inv_step: "stats_step s s' \<Longrightarrow> stats_inv s0 progs s \<Longrightarrow> stats_inv s0 progs s'"
proof (induction rule: stats_step.induct)
  case (st_count t s st d todo)
  show ?case
    by (rule stats_inv_update [OF st_count.prems st_count.hyps(1), where C = "{#(st, d)#}" and T = "{#}" and M = "{#}" and B = "{#}"])
      (use st_count stats_inv_effect [OF st_count.prems] in \<open>simp_all add: effect_count\<close>)
next
  case (st_total t s st d ns)
  let ?x = "(shared s)\<lparr>m_total_times := (m_total_times (shared s))(st := m_total_times (shared s) st + word_of_int ns)\<rparr>"
  have "stats_inv s0 progs (s\<lparr>shared := ?x, threads := (threads s)[t := (threads s ! t)\<lparr>th_pc := Totalled st d ns\<rparr>]\<rparr>)"
    by (rule stats_inv_update [OF st_total.prems st_total.hyps(1), where C = "{#}" and T = "{#(st, d)#}" and M = "{#}" and B = "{#}"])
      (use st_total stats_inv_effect [OF st_total.prems] in \<open>simp_all add: cast_ns effect_total\<close>)
  then show ?case by (simp add: move_def)
next
  case (st_load t s st d ns)
  then show ?case by (intro stats_inv_loaded) auto
next
  case (st_not_larger t s st d ns old_max)
  have "stats_inv s0 progs (s\<lparr>shared := shared s, threads := (threads s)[t := (threads s ! t)\<lparr>th_pc := Maximised st d\<rparr>]\<rparr>)"
    by (rule stats_inv_update [OF st_not_larger.prems st_not_larger.hyps(1), where C = "{#}" and T = "{#}" and M = "{#(st, d)#}" and B = "{#}"])
      (use st_not_larger stats_inv_effect [OF st_not_larger.prems] stats_inv_pc [OF st_not_larger.prems st_not_larger.hyps(1)]
        in \<open>simp_all add: effect_below cast_ns\<close>)
  then show ?case by (simp add: move_def)
next
  case (st_swapped t s st d ns old_max)
  let ?x = "(shared s)\<lparr>m_max_times := (m_max_times (shared s))(st := word_of_int ns)\<rparr>"
  have ns: "ns = ns_of d" "ns_of d < 2 ^ 63" "ns_of d > sint (m_max_times (shared s) st)"
    using st_swapped stats_inv_pc [OF st_swapped.prems st_swapped.hyps(1)] by (simp_all add: cast_ns)
  note eff = effect_swap [OF stats_inv_effect [OF st_swapped.prems] ns(3,2)]
  have grows: "sint (m_max_times (shared s) st') \<le> sint (m_max_times ?x st')" for st'
    unfolding ns(1) by (rule sint_max_swap [OF ns(3,2)])
  have "stats_inv s0 progs (s\<lparr>shared := ?x, threads := (threads s)[t := (threads s ! t)\<lparr>th_pc := Maximised st d\<rparr>]\<rparr>)"
    by (rule stats_inv_update [OF st_swapped.prems st_swapped.hyps(1) _ _ _ _ _ _ grows, where C = "{#}" and T = "{#}" and M = "{#(st, d)#}" and B = "{#}"])
      (use st_swapped.hyps eff stats_inv_pc [OF st_swapped.prems st_swapped.hyps(1)] in \<open>simp_all add: ns(1)\<close>)
  then show ?case by (simp add: move_def)
next
  case (st_not_swapped t s st d ns old_max)
  then show ?case by (intro stats_inv_loaded) auto
next
  case (st_bucket t s st d bucket b)
  show ?case
    by (rule stats_inv_update [OF st_bucket.prems st_bucket.hyps(1), where C = "{#}" and T = "{#}" and M = "{#}" and B = "{#(st, d)#}"])
      (use st_bucket stats_inv_effect [OF st_bucket.prems] cast_bucket [OF st_bucket.hyps(3)]
          stats_inv_pc [OF st_bucket.prems st_bucket.hyps(1)] in \<open>auto simp: effect_bucket representable_def\<close>)
qed


lemma stats_inv_reachable: "stats_step\<^sup>*\<^sup>* (stats_init s0 progs) s \<Longrightarrow> stats_inv s0 progs s"
proof (induction rule: rtranclp_induct)
  case base
  have "reached f (stats_init s0 progs) = {#}" if "f Outside = []" for f
    using that by (simp add: reached_def stats_init_def comp_def)
  then show ?case
    by (simp add: stats_inv_def) (simp add: stats_init_def list_all2_conv_all_nth thread_of_def effect_refl)
qed (rule stats_inv_step)

lemma stats_inv_finished:
  assumes "stats_inv s0 progs s" "finished s"
  shows "effect s0 (mset (concat progs)) (mset (concat progs)) (mset (concat progs)) (mset (concat progs)) (shared s)"
proof -
  have "map (\<lambda>th. th_done th @ f (th_pc th)) (threads s) = progs" if "f Outside = []" for f
    using assms that by (intro nth_equalityI) (auto simp: stats_inv_def finished_def list_all2_conv_all_nth thread_of_def)
  then have "reached f s = mset (concat progs)" if "f Outside = []" for f
    using that by (simp add: reached_def)
  then show ?thesis
    using stats_inv_effect [OF assms(1)] by simp
qed

lemma stats_inv_representable:
  assumes "stats_inv s0 progs s" "finished s"
  shows "\<forall>e \<in> set (concat progs). representable e"
proof -
  have "map th_done (threads s) = progs"
    using assms by (intro nth_equalityI) (auto simp: stats_inv_def finished_def list_all2_conv_all_nth thread_of_def)
  then show ?thesis
    using assms(1) unfolding stats_inv_def by auto
qed

section \<open>Progress\<close>

fun pc_work :: "record_pc \<Rightarrow> nat" where
  "pc_work Outside = 0"
| "pc_work (Counted st d) = 4"
| "pc_work (Totalled st d ns) = 3"
| "pc_work (Loaded st d ns old) = 2"
| "pc_work (Maximised st d) = 1"

definition thread_work :: "stats_thread \<Rightarrow> nat" where
  "thread_work th = 5 * length (th_todo th) + pc_work (th_pc th)"

definition work :: "stats_system \<Rightarrow> nat" where
  "work s = sum_list (map thread_work (threads s))"

lemma work_less:
  assumes "t < length (threads s)" "thread_work th < thread_work (threads s ! t)"
  shows "work (s\<lparr>shared := x, threads := (threads s)[t := th]\<rparr>) < work s"
  using sum_list_update_less [OF assms] by (simp add: work_def)

text \<open>Whatever the others do, a thread that gets to run finishes its call: a stale maximum is reloaded once.\<close>

lemma loaded_progress:
  assumes "t < length (threads s)" "th_pc (threads s ! t) = Loaded st d ns old"
  shows "\<exists>x. stats_step\<^sup>+\<^sup>+ s (move t (Maximised st d) (s\<lparr>shared := x\<rparr>))"
proof (cases "ns > sint old")
  case False
  from st_not_larger [OF assms False] have "stats_step s (move t (Maximised st d) (s\<lparr>shared := shared s\<rparr>))" by simp
  then show ?thesis by blast
next
  case True
  let ?s = "move t (Loaded st d ns (m_max_times (shared s) st)) s"
  have at: "t < length (threads ?s)" "th_pc (threads ?s ! t) = Loaded st d ns (m_max_times (shared s) st)"
      "m_max_times (shared ?s) st = m_max_times (shared s) st"
    using assms(1) by (simp_all add: move_def)
  have "\<exists>x. stats_step ?s (move t (Maximised st d) (s\<lparr>shared := x\<rparr>))"
  proof (cases "ns > sint (m_max_times (shared s) st)")
    case True
    from st_swapped [OF at(1,2) True at(3)] show ?thesis
      by (auto simp: move_def assms(1))
  next
    case False
    from st_not_larger [OF at(1,2) False] show ?thesis
      by (intro exI [of _ "shared s"]) (simp add: move_def assms(1))
  qed
  then show ?thesis
    using st_not_swapped [OF assms True] by (blast intro: tranclp_into_tranclp2 tranclp.r_into_trancl)
qed

lemma stats_progress:
  assumes inv: "stats_inv s0 progs s" and ok: "\<forall>e \<in> set (concat progs). representable e" and busy: "\<not> finished s"
  shows "\<exists>s'. stats_step\<^sup>+\<^sup>+ s s' \<and> work s' < work s"
proof -
  obtain t where t: "t < length (threads s)" "th_pc (threads s ! t) \<noteq> Outside \<or> th_todo (threads s ! t) \<noteq> []"
    using busy by (auto simp: finished_def in_set_conv_nth)
  let ?th = "threads s ! t"
  have "length progs = length (threads s)" and "progs ! t = th_done ?th @ in_counts (th_pc ?th) @ th_todo ?th"
    using inv t(1) by (auto simp: stats_inv_def list_all2_conv_all_nth thread_of_def)
  moreover from this(1) have "progs ! t \<in> set progs"
    using t(1) by simp
  ultimately have rep: "\<forall>e \<in> set (in_counts (th_pc ?th)). representable e"
    using ok by auto
  show ?thesis
  proof (cases "th_pc ?th")
    case Outside
    with t(2) obtain st d todo where todo: "th_todo ?th = (st, d) # todo"
      by (metis list.exhaust surj_pair)
    show ?thesis
      using st_count [OF t(1) Outside todo] work_less [OF t(1), of "?th\<lparr>th_pc := Counted st d, th_todo := todo\<rparr>"]
      by (auto simp: thread_work_def todo Outside)
  next
    case (Counted st d)
    with rep obtain ns where ns: "cast_signed 64 (rnd (d * 1000000)) = Some ns"
      by (auto simp: representable_def)
    show ?thesis
      using st_total [OF t(1) Counted ns] work_less [OF t(1), of "?th\<lparr>th_pc := Totalled st d ns\<rparr>"]
      by (auto simp: move_def thread_work_def Counted)
  next
    case (Totalled st d ns)
    show ?thesis
      using st_load [OF t(1) Totalled] work_less [OF t(1), of "?th\<lparr>th_pc := Loaded st d ns (m_max_times (shared s) st)\<rparr>" "shared s"]
      by (auto simp: move_def thread_work_def Totalled)
  next
    case (Loaded st d ns old)
    show ?thesis
      using loaded_progress [OF t(1) Loaded] work_less [OF t(1), of "?th\<lparr>th_pc := Maximised st d\<rparr>"]
      by (auto simp: move_def thread_work_def Loaded)
  next
    case (Maximised st d)
    with rep obtain b where b: "cast_signed 32 (rnd (d / kBucketWidthMs)) = Some b"
      by (auto simp: representable_def)
    show ?thesis
      using st_bucket [OF t(1) Maximised b refl] work_less [OF t(1), of "?th\<lparr>th_pc := Outside, th_done := th_done ?th @ [(st, d)]\<rparr>"]
      by (auto simp: thread_work_def Maximised)
  qed
qed

lemma stats_finishes:
  assumes "stats_inv s0 progs s" "\<forall>e \<in> set (concat progs). representable e"
  shows "\<exists>s'. stats_step\<^sup>*\<^sup>* s s' \<and> finished s'"
  using assms(1)
proof (induction "work s" arbitrary: s rule: less_induct)
  case less
  show ?case
  proof (cases "finished s")
    case False
    then obtain s1 where s1: "stats_step\<^sup>*\<^sup>* s s1" "work s1 < work s"
      using stats_progress [OF less.prems assms(2)] tranclp_into_rtranclp by metis
    have "stats_inv s0 progs s1"
      using s1(1) less.prems by (induction rule: rtranclp_induct) (auto intro: stats_inv_step)
    from less.hyps [OF s1(2) this] s1(1) show ?thesis
      by (meson rtranclp_trans)
  qed blast
qed

section \<open>Any order is as good as any other\<close>

lemma record_interleaved:
  assumes "stats_step\<^sup>*\<^sup>* (stats_init s0 progs) s" "finished s" "mset evs = mset (concat progs)"
  shows "record_all evs s0 = Some (shared s)"
proof -
  note inv = stats_inv_reachable [OF assms(1)]
  have "\<forall>e \<in> set evs. representable e"
    using stats_inv_representable [OF inv assms(2)] mset_eq_setD [OF assms(3)] by simp
  then obtain s' where s': "record_all evs s0 = Some s'"
    using record_all_representable by blast
  have "effect s0 (mset evs) (mset evs) (mset evs) (mset evs) s'"
    using effect_record_all [OF effect_refl s'] by simp
  with stats_inv_finished [OF inv assms(2)] have "shared s = s'"
    unfolding assms(3) by (intro effect_unique)
  with s' show ?thesis by simp
qed

text \<open>The benchmark of \<open>Stats_Report\<close> may run its threads one after the other.\<close>

lemma stats_main_interleaved:
  assumes "stats_step\<^sup>*\<^sup>* (stats_init s0 (map (thread_records 0) ws)) s" "finished s"
  shows "stats_main ws (s0, n) = Some (shared s, n + sum_list (map length ws))"
  using record_interleaved [OF assms refl] by (simp add: stats_main_records)

section \<open>Property\<close>

text \<open>C24: concurrent calls of \<^verbatim>\<open>Record\<close> amount to sequential ones. Any number of threads record any calls on the
  one instance, every access to an atomic interleaved with those of the others and the weak swaps
  failing as often as they like. When all threads are done, counts, totals, maxima and histograms are
  exactly what the same calls leave when they are made one after the other, in any order; and as long
  as no time is out of range, the threads can always finish.\<close>

theorem concurrent_record:
  assumes "stats_step\<^sup>*\<^sup>* (stats_init s0 progs) s"
  shows "(finished s \<and> mset evs = mset (concat progs) \<longrightarrow> record_all evs s0 = Some (shared s))
    \<and> ((\<forall>e \<in> set (concat progs). representable e) \<longrightarrow> (\<exists>s'. stats_step\<^sup>*\<^sup>* s s' \<and> finished s'))"
  using record_interleaved [OF assms, of evs] stats_finishes [OF stats_inv_reachable [OF assms]] by blast

section \<open>Witness\<close>

text \<open>Two threads that record one call each.\<close>

theorem concurrent_record_witness:
  "\<exists>s. stats_step\<^sup>*\<^sup>* (stats_init RuntimeStats_init [[(TOTAL, 2)], [(TOTAL, 1)]]) s
     \<and> record_all [(TOTAL, 1), (TOTAL, 2)] RuntimeStats_init = Some (shared s)"
proof -
  let ?progs = "[[(TOTAL, 2)], [(TOTAL, 1)]] :: (Stage \<times> rat) list list"
  let ?init = "stats_init RuntimeStats_init ?progs"
  have "representable (TOTAL, 2)" "representable (TOTAL, 1)"
    by code_simp+
  then have rep: "\<forall>e \<in> set (concat ?progs). representable e"
    by simp
  obtain s where s: "stats_step\<^sup>*\<^sup>* ?init s" "finished s"
    using concurrent_record [OF rtranclp.rtrancl_refl [of stats_step ?init]] rep by blast
  have "mset [(TOTAL, 1), (TOTAL, 2 :: rat)] = mset (concat ?progs)"
    by (simp add: add_mset_commute)
  with concurrent_record [OF s(1)] s show ?thesis by blast
qed

end
