(* ===== verification/Qps_Monitor.thy ===== *)
theory Qps_Monitor
  imports Latency_Stats
begin

text \<open>
  The throughput monitors of \<^verbatim>\<open>example/caller/client.cc\<close>, \<^verbatim>\<open>example/caller/bench_client.cc\<close> and
  \<^verbatim>\<open>tools/qps_benchmark.cc\<close>, the figures and the segments they are reduced to at the end, and the simulated
  calls of the last. A tick is what a monitor sees when it wakes up: the clock in nanoseconds and the
  two counters. \<open>Throughput_Report\<close> has the standard deviation and the text of the reports.
\<close>

section \<open>The monitors\<close>

definition seconds :: "int \<Rightarrow> rat" where
  "seconds ns = rnd (rnd (of_int ns) / 1000000000)"

definition interval_qps :: "int \<Rightarrow> int \<Rightarrow> rat" where
  "interval_qps calls ns = rnd (rnd (of_int calls) / seconds ns)"

record qps_monitor =
  qm_prev_time :: int
  qm_prev_success :: int
  qm_prev_fail :: int
  qm_qps :: "rat list"
  qm_rate :: "rat list"

definition qps_monitor_init :: "int \<Rightarrow> qps_monitor" where
  "qps_monitor_init start = \<lparr>qm_prev_time = start, qm_prev_success = 0, qm_prev_fail = 0, qm_qps = [], qm_rate = []\<rparr>"

text \<open>\<^verbatim>\<open>client.cc\<close> also keeps running figures.\<close>

record client_monitor = qps_monitor +
  cm_peak :: rat
  cm_min :: rat
  cm_sum :: rat
  cm_samples :: nat

definition client_monitor_init :: "int \<Rightarrow> client_monitor" where
  "client_monitor_init start = qps_monitor.extend (qps_monitor_init start)
     \<lparr>cm_peak = 0, cm_min = 1000000000000000000, cm_sum = 0, cm_samples = 0\<rparr>"

type_synonym tick = "int \<times> int \<times> int"

fun client_tick :: "tick \<Rightarrow> client_monitor \<Rightarrow> client_monitor" where
  "client_tick (now, cur_success, cur_fail) m =
     (let interval_elapsed = now - qm_prev_time m;
          interval_success = cur_success - qm_prev_success m;
          interval_fail = cur_fail - qm_prev_fail m;
          interval_total = interval_success + interval_fail;
          q = interval_qps interval_total interval_elapsed;
          m1 = (if interval_total > 0
                then m\<lparr>qm_qps := qm_qps m @ [q], qm_rate := qm_rate m @ [success_rate interval_success interval_total],
                       cm_peak := max (cm_peak m) q, cm_min := min (cm_min m) q,
                       cm_sum := rnd (cm_sum m + q), cm_samples := Suc (cm_samples m)\<rparr>
                else m)
      in m1\<lparr>qm_prev_time := now, qm_prev_success := cur_success, qm_prev_fail := cur_fail\<rparr>)"

text \<open>\<^verbatim>\<open>bench_client.cc\<close> skips a tick that comes too early.\<close>

fun bench_tick :: "tick \<Rightarrow> qps_monitor \<Rightarrow> qps_monitor" where
  "bench_tick (now, cur_s, cur_f) m =
     (let interval = now - qm_prev_time m
      in if seconds interval < rnd (1/1000) then m
         else
           let d_s = cur_s - qm_prev_success m; d_f = cur_f - qm_prev_fail m; d_t = d_s + d_f;
               m1 = (if d_t > 0
                     then m\<lparr>qm_qps := qm_qps m @ [interval_qps d_t interval],
                            qm_rate := qm_rate m @ [success_rate d_s d_t]\<rparr>
                     else m)
           in m1\<lparr>qm_prev_time := now, qm_prev_success := cur_s, qm_prev_fail := cur_f\<rparr>)"

text \<open>\<^verbatim>\<open>qps_benchmark.cc\<close> keeps in addition the average latency so far, from a counter in microseconds.\<close>

record qps_bench_monitor = qps_monitor +
  qb_latency :: "rat list"

definition average_latency :: "int \<Rightarrow> int \<Rightarrow> rat" where
  "average_latency lat_us success =
     (if success > 0 then rnd (rnd (rnd (of_int lat_us) / 1000) / rnd (of_int success)) else 0)"

fun qps_tick :: "tick \<times> int \<Rightarrow> qps_bench_monitor \<Rightarrow> qps_bench_monitor" where
  "qps_tick ((now, cur_success, cur_fail), lat_us) m =
     (let interval = now - qm_prev_time m
      in if seconds interval < rnd (1/1000) then m
         else
           let delta_success = cur_success - qm_prev_success m;
               delta_fail = cur_fail - qm_prev_fail m;
               delta_total = delta_success + delta_fail;
               m1 = (if delta_total > 0
                     then m\<lparr>qm_qps := qm_qps m @ [interval_qps delta_total interval],
                            qm_rate := qm_rate m @ [success_rate delta_success delta_total],
                            qb_latency := qb_latency m @ [average_latency lat_us cur_success]\<rparr>
                     else m)
           in m1\<lparr>qm_prev_time := now, qm_prev_success := cur_success, qm_prev_fail := cur_fail\<rparr>)"

section \<open>The figures at the end\<close>

definition peak_qps :: "rat list \<Rightarrow> rat" where
  "peak_qps hist = fold (\<lambda>q acc. max acc q) hist 0"

definition min_qps :: "rat list \<Rightarrow> rat" where
  "min_qps hist = fold (\<lambda>q acc. min acc q) hist 1000000000000000000"

definition shown_min :: "rat list \<Rightarrow> rat" where
  "shown_min hist = (if min_qps hist < 100000000000000000 then min_qps hist else 0)"

definition avg_interval_qps :: "rat list \<Rightarrow> rat" where
  "avg_interval_qps hist = (if hist \<noteq> [] then rnd (double_sum hist / rnd (of_nat (length hist))) else 0)"

definition squares :: "rat \<Rightarrow> rat list \<Rightarrow> rat" where
  "squares avg hist = foldl (\<lambda>acc q. rnd (acc + rnd (rnd (q - avg) * rnd (q - avg)))) 0 hist"

text \<open>The variance of \<^verbatim>\<open>client.cc\<close> is that of the population, the other two divide by one less.\<close>

definition client_variance :: "rat list \<Rightarrow> rat" where
  "client_variance hist = rnd (squares (avg_interval_qps hist) hist / rnd (of_nat (length hist)))"

definition bench_variance :: "rat list \<Rightarrow> rat" where
  "bench_variance hist =
     (let v = squares (avg_interval_qps hist) hist
      in if length hist > 1 then rnd (v / rnd (of_nat (length hist - 1))) else v)"

text \<open>The figures over the whole run; \<open>ns\<close> is its length.\<close>

record final_report =
  fr_total :: int
  fr_overall_qps :: rat
  fr_success_qps :: rat
  fr_fail_qps :: rat
  fr_success_rate :: rat

definition final_report_of :: "int \<Rightarrow> int \<Rightarrow> int \<Rightarrow> final_report" where
  "final_report_of ns final_success final_fail =
     \<lparr>fr_total = final_success + final_fail,
      fr_overall_qps = interval_qps (final_success + final_fail) ns,
      fr_success_qps = interval_qps final_success ns, fr_fail_qps = interval_qps final_fail ns,
      fr_success_rate = success_rate final_success (final_success + final_fail)\<rparr>"

text \<open>The concurrency figures of \<^verbatim>\<open>qps_benchmark.cc\<close>.\<close>

definition theoretical_max :: "int \<Rightarrow> rat \<Rightarrow> rat" where
  "theoretical_max thread_count avg_latency_ms =
     rnd (rnd (rnd (of_int thread_count) * 1000) / max (rnd (1/100)) avg_latency_ms)"

definition efficiency :: "rat \<Rightarrow> rat \<Rightarrow> int \<Rightarrow> rat" where
  "efficiency overall_qps avg_latency_ms thread_count =
     (if avg_latency_ms > rnd (1/100)
      then rnd (rnd (rnd (rnd (overall_qps * avg_latency_ms) / rnd (of_int thread_count)) / 1000) * 100) else 0)"

section \<open>Segments\<close>

text \<open>Start and end of each segment, for a number of samples.\<close>

definition client_segments :: "nat \<Rightarrow> (nat \<times> nat) list" where
  "client_segments n =
     (let per = max 1 (n div 5)
      in map (\<lambda>seg. (seg * per, min (seg * per + per) n)) (takeWhile (\<lambda>seg. seg * per < n) [0..<5]))"

definition qps_segments :: "nat \<Rightarrow> (nat \<times> nat) list" where
  "qps_segments n =
     (if n \<ge> 5
      then let seg_count = min 5 n; seg_size = n div seg_count
           in map (\<lambda>seg. let start = seg * seg_size in (start, if seg = seg_count - 1 then n else start + seg_size))
                [0..<seg_count]
      else [])"

definition segment_of :: "'a list \<Rightarrow> nat \<times> nat \<Rightarrow> 'a list" where
  "segment_of xs seg = take (snd seg - fst seg) (drop (fst seg) xs)"

definition segment_average :: "rat list \<Rightarrow> nat \<times> nat \<Rightarrow> rat" where
  "segment_average hist seg =
     (let n = snd seg - fst seg in if n > 0 then rnd (double_sum (segment_of hist seg) / rnd (of_nat n)) else 0)"

text \<open>The bar of a segment. The two programs divide in a different order; the conversion drops the fraction.\<close>

definition clamp20 :: "int \<Rightarrow> int" where
  "clamp20 n = min (max n 1) 20"

definition client_bar :: "rat \<Rightarrow> rat \<Rightarrow> int" where
  "client_bar seg_avg peak = clamp20 (trunc (rnd (seg_avg / rnd (max (rnd (1/10)) peak / 20))))"

definition qps_bar :: "rat \<Rightarrow> rat \<Rightarrow> int" where
  "qps_bar seg_avg peak = clamp20 (trunc (rnd (rnd (seg_avg / max (rnd (1/10)) peak) * 20)))"

section \<open>Simulated calls\<close>

text \<open>The numbers that one call draws from its distributions.\<close>

record sim_draws =
  dr_zk :: rat
  dr_cache :: rat
  dr_lb :: rat
  dr_conn :: rat
  dr_ser :: rat
  dr_enc :: rat
  dr_net :: rat
  dr_dec :: rat
  dr_des :: rat
  dr_trigger :: rat
  dr_tail :: rat

definition SimulateCall :: "bool \<Rightarrow> sim_draws \<Rightarrow> rat \<times> bool" where
  "SimulateCall zk_hit d =
     (let add = (\<lambda>x total. rnd (total + x));
          total = add \<bar>if zk_hit then dr_cache d else dr_zk d\<bar> 0;
          total = add \<bar>dr_lb d\<bar> total;
          total = (if \<not> zk_hit then add \<bar>dr_conn d\<bar> total else total);
          total = add \<bar>dr_ser d\<bar> total;
          total = add \<bar>dr_enc d\<bar> total;
          total = add \<bar>dr_net d\<bar> total;
          total = add \<bar>dr_dec d\<bar> total;
          total = add \<bar>dr_des d\<bar> total;
          total = (if dr_trigger d < rnd (3/100) then add (dr_tail d) total else total)
      in (total, True))"

record sim_totals =
  st_success :: int
  st_fail :: int
  st_latency_us :: int

text \<open>A worker; with each call comes the number that decides whether it fails.\<close>

primrec sim_worker :: "bool \<Rightarrow> (sim_draws \<times> rat) list \<Rightarrow> sim_totals \<Rightarrow> sim_totals" where
  "sim_worker zk_hit [] t = t"
| "sim_worker zk_hit (c # calls) t =
     (case SimulateCall zk_hit (fst c) of (latency_ms, zk_hit') \<Rightarrow>
        sim_worker zk_hit' calls
          (if snd c < rnd (5/1000) then t\<lparr>st_fail := st_fail t + 1\<rparr>
           else t\<lparr>st_success := st_success t + 1, st_latency_us := st_latency_us t + trunc (rnd (latency_ms * 1000))\<rparr>))"

datatype reliability = Highly_reliable | Acceptable | Needs_investigation

definition judge_rate :: "rat \<Rightarrow> reliability" where
  "judge_rate r = (if r > rnd (999/10) then Highly_reliable else if r > 99 then Acceptable else Needs_investigation)"

section \<open>What a monitor has seen\<close>

text \<open>The common part of a tick.\<close>

fun count_interval :: "tick \<Rightarrow> qps_monitor \<Rightarrow> qps_monitor" where
  "count_interval (now, s, f) m =
     (let ds = s - qm_prev_success m; n = ds + (f - qm_prev_fail m)
      in (if n > 0 then m\<lparr>qm_qps := qm_qps m @ [interval_qps n (now - qm_prev_time m)], qm_rate := qm_rate m @ [success_rate ds n]\<rparr>
          else m)\<lparr>qm_prev_time := now, qm_prev_success := s, qm_prev_fail := f\<rparr>)"

text \<open>The intervals behind a state: their lengths add up to the time that has passed, their calls to the
  counters, and the histories have one entry for each interval with calls.\<close>

definition busy :: "(int \<times> int \<times> int) list \<Rightarrow> (int \<times> int \<times> int) list" where
  "busy ivs = filter (\<lambda>(dt, a, b). a + b > 0) ivs"

definition splits :: "int \<Rightarrow> (int \<times> int \<times> int) list \<Rightarrow> qps_monitor \<Rightarrow> bool" where
  "splits start ivs m \<longleftrightarrow>
     qm_prev_time m = start + sum_list (map (\<lambda>(dt, a, b). dt) ivs)
     \<and> qm_prev_success m = sum_list (map (\<lambda>(dt, a, b). a) ivs)
     \<and> qm_prev_fail m = sum_list (map (\<lambda>(dt, a, b). b) ivs)
     \<and> qm_qps m = map (\<lambda>(dt, a, b). interval_qps (a + b) dt) (busy ivs)
     \<and> qm_rate m = map (\<lambda>(dt, a, b). success_rate a (a + b)) (busy ivs)"

lemma splits_init: "splits start [] (qps_monitor_init start)"
  by (simp add: splits_def qps_monitor_init_def busy_def)

lemma splits_interval:
  "splits start ivs m \<Longrightarrow>
    splits start (ivs @ [(now - qm_prev_time m, s - qm_prev_success m, f - qm_prev_fail m)]) (count_interval (now, s, f) m)"
  by (simp add: splits_def busy_def Let_def)

text \<open>A monitor whose ticks either count an interval or change nothing.\<close>

locale interval_counter =
  fixes tick :: "'t \<Rightarrow> 'm \<Rightarrow> 'm"
    and view :: "'m \<Rightarrow> qps_monitor"
    and reading :: "'t \<Rightarrow> tick"
  assumes view_tick: "view (tick t m) = view m \<or> view (tick t m) = count_interval (reading t) (view m)"
begin

lemma run_splits: "splits start ivs (view m) \<Longrightarrow> \<exists>ivs'. splits start ivs' (view (fold tick ts m))"
proof (induction ts arbitrary: ivs m)
  case (Cons t ts)
  obtain now s f where r: "reading t = (now, s, f)" by (cases "reading t")
  have "\<exists>ivs'. splits start ivs' (view (tick t m))"
    using view_tick [of t m] splits_interval [OF Cons.prems, of now s f] Cons.prems by (auto simp: r)
  with Cons.IH show ?case by auto
qed auto

end

interpretation client_counter: interval_counter client_tick qps_monitor.truncate "\<lambda>t. t"
proof unfold_locales
  show "qps_monitor.truncate (client_tick t m) = qps_monitor.truncate m
      \<or> qps_monitor.truncate (client_tick t m) = count_interval t (qps_monitor.truncate m)" for t m
    by (cases t) (simp add: Let_def qps_monitor.defs)
qed

interpretation bench_counter: interval_counter bench_tick "\<lambda>m. m" "\<lambda>t. t"
proof unfold_locales
  show "bench_tick t m = m \<or> bench_tick t m = count_interval t m" for t m
    by (cases t) (simp add: Let_def)
qed

interpretation qps_counter: interval_counter qps_tick qps_monitor.truncate fst
proof unfold_locales
  show "qps_monitor.truncate (qps_tick t m) = qps_monitor.truncate m
      \<or> qps_monitor.truncate (qps_tick t m) = count_interval (fst t) (qps_monitor.truncate m)" for t m
    by (cases "fst t"; cases t) (simp add: Let_def qps_monitor.defs)
qed

lemma bench_monitor_splits: "\<exists>ivs. splits start ivs (fold bench_tick ts (qps_monitor_init start))"
  using bench_counter.run_splits [OF splits_init] .

text \<open>The running figures of \<^verbatim>\<open>client.cc\<close> agree with the history.\<close>

definition figures_ok :: "client_monitor \<Rightarrow> bool" where
  "figures_ok m \<longleftrightarrow> cm_samples m = length (qm_qps m) \<and> length (qm_rate m) = length (qm_qps m)
     \<and> cm_peak m = peak_qps (qm_qps m) \<and> cm_min m = min_qps (qm_qps m) \<and> cm_sum m = double_sum (qm_qps m)"

lemma figures_ok_tick: "figures_ok m \<Longrightarrow> figures_ok (client_tick t m)"
  by (cases t) (simp add: figures_ok_def Let_def peak_qps_def min_qps_def double_sum_def)

lemma figures_ok_run: "figures_ok m \<Longrightarrow> figures_ok (fold client_tick ts m)"
  by (induction ts arbitrary: m) (simp_all add: figures_ok_tick)

lemma figures_ok_init: "figures_ok (client_monitor_init start)"
  by (simp add: figures_ok_def client_monitor_init_def qps_monitor_init_def qps_monitor.defs peak_qps_def min_qps_def double_sum_def)

text \<open>Peak and minimum are those of the history, as long as the rates lie between the initial values.\<close>

lemma extremes:
  assumes "hist \<noteq> []" "\<forall>q \<in> set hist. 0 \<le> q \<and> q \<le> 1000000000000000000"
  shows "peak_qps hist = Max (set hist)" "min_qps hist = Min (set hist)"
proof -
  have "peak_qps hist = Max (set (0 # hist))"
    unfolding Max.set_eq_fold by (simp add: peak_qps_def max.commute)
  moreover have "Max (set hist) \<ge> 0"
    using assms by (metis List.finite_set Max_in set_empty)
  ultimately show "peak_qps hist = Max (set hist)"
    using assms(1) by simp
  have "min_qps hist = Min (set (1000000000000000000 # hist))"
    unfolding Min.set_eq_fold by (simp add: min_qps_def min.commute)
  moreover have "Min (set hist) \<le> 1000000000000000000"
    using assms by (metis List.finite_set Min_in set_empty)
  ultimately show "min_qps hist = Min (set hist)"
    using assms(1) by simp
qed

section \<open>Segments\<close>

lemma segment_join: "a \<le> b \<Longrightarrow> b \<le> c \<Longrightarrow> segment_of xs (a, b) @ segment_of xs (b, c) = segment_of xs (a, c)"
proof -
  assume "a \<le> b" "b \<le> c"
  then have "c - a = (b - a) + (c - b)" "drop b xs = drop (b - a) (drop a xs)"
    by (simp_all add: add.commute)
  then show ?thesis
    by (simp add: segment_of_def take_add)
qed

lemma segment_whole: "segment_of xs (0, c) = take c xs"
  by (simp add: segment_of_def)

lemma upt_five: "[0..<5] = [0, 1, 2, 3, 4 :: nat]"
  by (simp add: upt_rec)

section \<open>The simulation\<close>

lemma sim_worker_counts:
  "st_success (sim_worker z calls t) + st_fail (sim_worker z calls t) = st_success t + st_fail t + int (length calls)"
  by (induction calls arbitrary: z t) (simp_all split: prod.splits)

section \<open>Properties\<close>

text \<open>The monitor of \<^verbatim>\<open>client.cc\<close> splits the run without gaps. Whatever it sees at its ticks, the intervals
  behind its histories follow each other without gap or overlap: their lengths add up to the time of
  the last tick and their calls to the counters seen there, so every call counted until then is in
  exactly one interval. The histories have one entry per interval with calls, and the running peak,
  minimum, sum and number of samples are those of the history.\<close>

lemma client_monitor_exact:
  "\<exists>ivs. splits start ivs (qps_monitor.truncate (fold client_tick (ts @ [(now, s, f)]) (client_monitor_init start)))
    \<and> start + sum_list (map (\<lambda>(dt, a, b). dt) ivs) = now
    \<and> sum_list (map (\<lambda>(dt, a, b). a) ivs) = s \<and> sum_list (map (\<lambda>(dt, a, b). b) ivs) = f
    \<and> figures_ok (fold client_tick (ts @ [(now, s, f)]) (client_monitor_init start))"
proof -
  define m where "m = fold client_tick (ts @ [(now, s, f)]) (client_monitor_init start)"
  have "qps_monitor.truncate (client_monitor_init start) = qps_monitor_init start"
    by (simp add: client_monitor_init_def qps_monitor.defs)
  then obtain ivs where ivs: "splits start ivs (qps_monitor.truncate m)"
    using client_counter.run_splits [of start "[]" "client_monitor_init start" "ts @ [(now, s, f)]"] splits_init
    unfolding m_def by auto
  have "qm_prev_time m = now" "qm_prev_success m = s" "qm_prev_fail m = f"
    by (simp_all add: m_def Let_def)
  moreover have "figures_ok m"
    unfolding m_def by (rule figures_ok_run [OF figures_ok_init])
  ultimately show ?thesis
    using ivs unfolding m_def [symmetric] by (intro exI [of _ ivs]) (simp add: splits_def qps_monitor.defs)
qed

text \<open>Which samples the segments cover. \<^verbatim>\<open>qps_benchmark\<close> cuts five or more samples into five segments that
  together are all samples, in order. \<^verbatim>\<open>client.cc\<close> does so only when the number of samples is a multiple
  of five or below five: otherwise its segments leave out the last samples, up to four of them.\<close>

lemma segments_cover:
  "(length hist \<ge> 5 \<longrightarrow> concat (map (segment_of hist) (qps_segments (length hist))) = hist)
    \<and> concat (map (segment_of hist) (client_segments (length hist)))
        = (if length hist < 5 then hist else take (length hist - length hist mod 5) hist)"
proof (cases "length hist \<ge> 5")
  case True
  define n k where "n = length hist" and "k = n div 5"
  have k: "5 * k \<le> n" "1 \<le> k" "n - n mod 5 = 5 * k"
    using True by (auto simp: k_def n_def minus_mod_eq_mult_div)
  have "qps_segments n = [(0, k), (k, 2 * k), (2 * k, 3 * k), (3 * k, 4 * k), (4 * k, n)]"
    using True by (simp add: qps_segments_def upt_five n_def k_def Let_def)
  then have "concat (map (segment_of hist) (qps_segments n)) = segment_of hist (0, n)"
    using k by (simp add: segment_join)
  moreover have "client_segments n = [(0, k), (k, 2 * k), (2 * k, 3 * k), (3 * k, 4 * k), (4 * k, 5 * k)]"
    using k by (simp add: client_segments_def upt_five k_def [symmetric] Let_def max_def min_def)
  then have "concat (map (segment_of hist) (client_segments n)) = segment_of hist (0, 5 * k)"
    using k by (simp add: segment_join)
  ultimately show ?thesis
    using True k(3) by (simp add: n_def segment_whole)
next
  case False
  then have "client_segments (length hist) = map (\<lambda>i. (i, Suc i)) [0..<length hist]"
  proof -
    consider "length hist = 0" | "length hist = 1" | "length hist = 2" | "length hist = 3" | "length hist = 4"
      using False by linarith
    then show ?thesis
      by cases (simp_all add: client_segments_def upt_five upt_rec)
  qed
  moreover have "map (segment_of hist) (map (\<lambda>i. (i, Suc i)) [0..<length hist]) = map (\<lambda>i. [hist ! i]) [0..<length hist]"
    by (simp add: segment_of_def take_Suc_conv_app_nth)
  moreover have "concat (map (\<lambda>i. [hist ! i]) [0..<length hist]) = hist"
    by (simp add: map_nth flip: map_concat)
  ultimately have "concat (map (segment_of hist) (client_segments (length hist))) = hist"
    by (simp only:)
  with False show ?thesis by simp
qed

end
