(* ===== verification/Monitored_Run.thy ===== *)
theory Monitored_Run
  imports Qps_Monitor Thread_Lists
begin

text \<open>
  The main programs of \<^verbatim>\<open>example/caller/client.cc\<close>, \<^verbatim>\<open>example/caller/bench_client.cc\<close> and
  \<^verbatim>\<open>tools/qps_benchmark.cc\<close> as their threads run together: workers that add to the shared counters, the
  monitor that samples them, and the main thread that waits for the workers and then clears \<^verbatim>\<open>running\<close>.
  Every access to an atomic is a step; the monitors themselves are those of \<open>Qps_Monitor\<close>. Two things
  are taken for granted here: the steps happen in one order that all threads see, which is more than the
  \<^verbatim>\<open>memory_order_relaxed\<close> of the source promises, and the clock the monitor reads
  (\<^verbatim>\<open>high_resolution_clock\<close>) does not go back.
\<close>

section \<open>Threads\<close>

text \<open>What a worker does to the counters, in order.\<close>

datatype addition = Add_success | Add_fail | Add_latency int

text \<open>Where the monitor stands: at the test of its loop, asleep, or between the readings of the clock and of
  the counters.\<close>

datatype monitor_pc = Mon_test | Mon_sleep | Mon_now int | Mon_success int int | Mon_fail int int int | Mon_exited

record 'm run_state =
  ru_success :: int
  ru_fail :: int
  ru_latency :: int
  ru_running :: bool
  ru_left :: "addition list list"
  ru_clock :: int
  ru_pc :: monitor_pc
  ru_monitor :: 'm

definition run_init :: "'m \<Rightarrow> int \<Rightarrow> addition list list \<Rightarrow> 'm run_state" where
  "run_init m start workers = \<lparr>ru_success = 0, ru_fail = 0, ru_latency = 0, ru_running = True, ru_left = workers,
     ru_clock = start, ru_pc = Mon_test, ru_monitor = m\<rparr>"

fun add_to :: "addition \<Rightarrow> 'm run_state \<Rightarrow> 'm run_state" where
  "add_to Add_success s = s\<lparr>ru_success := ru_success s + 1\<rparr>"
| "add_to Add_fail s = s\<lparr>ru_fail := ru_fail s + 1\<rparr>"
| "add_to (Add_latency us) s = s\<lparr>ru_latency := ru_latency s + us\<rparr>"

text \<open>\<open>recheck\<close> says whether the monitor looks at \<^verbatim>\<open>running\<close> again when it wakes up, as that of
  \<^verbatim>\<open>qps_benchmark.cc\<close> does.\<close>

inductive run_step :: "(tick \<times> int \<Rightarrow> 'm \<Rightarrow> 'm) \<Rightarrow> bool \<Rightarrow> 'm run_state \<Rightarrow> 'm run_state \<Rightarrow> bool"
  for tk recheck where
  worker_adds: "i < length (ru_left s) \<Longrightarrow> ru_left s ! i = a # rest \<Longrightarrow>
    run_step tk recheck s (add_to a (s\<lparr>ru_left := (ru_left s)[i := rest]\<rparr>))"
| workers_joined: "\<forall>w \<in> set (ru_left s). w = [] \<Longrightarrow> run_step tk recheck s (s\<lparr>ru_running := False\<rparr>)"
| time_passes: "0 \<le> dt \<Longrightarrow> run_step tk recheck s (s\<lparr>ru_clock := ru_clock s + dt\<rparr>)"
| mon_loop: "ru_pc s = Mon_test \<Longrightarrow> ru_running s \<Longrightarrow> run_step tk recheck s (s\<lparr>ru_pc := Mon_sleep\<rparr>)"
| mon_end: "ru_pc s = Mon_test \<Longrightarrow> \<not> ru_running s \<Longrightarrow> run_step tk recheck s (s\<lparr>ru_pc := Mon_exited\<rparr>)"
| mon_break: "ru_pc s = Mon_sleep \<Longrightarrow> recheck \<Longrightarrow> \<not> ru_running s \<Longrightarrow> run_step tk recheck s (s\<lparr>ru_pc := Mon_exited\<rparr>)"
| mon_wake: "ru_pc s = Mon_sleep \<Longrightarrow> recheck \<longrightarrow> ru_running s \<Longrightarrow> run_step tk recheck s (s\<lparr>ru_pc := Mon_now (ru_clock s)\<rparr>)"
| mon_load_success: "ru_pc s = Mon_now t \<Longrightarrow> run_step tk recheck s (s\<lparr>ru_pc := Mon_success t (ru_success s)\<rparr>)"
| mon_load_fail: "ru_pc s = Mon_success t n \<Longrightarrow> run_step tk recheck s (s\<lparr>ru_pc := Mon_fail t n (ru_fail s)\<rparr>)"
| mon_tick: "ru_pc s = Mon_fail t n f \<Longrightarrow>
    run_step tk recheck s (s\<lparr>ru_pc := Mon_test, ru_monitor := tk ((t, n, f), ru_latency s) (ru_monitor s)\<rparr>)"

text \<open>The three programs: \<^verbatim>\<open>client.cc\<close>, \<^verbatim>\<open>bench_client.cc\<close> and \<^verbatim>\<open>qps_benchmark.cc\<close>, which has the second look at
  \<^verbatim>\<open>running\<close>.\<close>

definition client_run :: "client_monitor run_state \<Rightarrow> client_monitor run_state \<Rightarrow> bool" where
  "client_run = run_step (\<lambda>t. client_tick (fst t)) False"

definition bench_run :: "qps_monitor run_state \<Rightarrow> qps_monitor run_state \<Rightarrow> bool" where
  "bench_run = run_step (\<lambda>t. bench_tick (fst t)) False"

definition qps_run :: "qps_bench_monitor run_state \<Rightarrow> qps_bench_monitor run_state \<Rightarrow> bool" where
  "qps_run = run_step qps_tick True"

text \<open>The additions of a simulated call and of a worker of \<^verbatim>\<open>qps_benchmark.cc\<close>.\<close>

primrec sim_adds :: "bool \<Rightarrow> (sim_draws \<times> rat) list \<Rightarrow> addition list" where
  "sim_adds zk_hit [] = []"
| "sim_adds zk_hit (c # calls) =
     (case SimulateCall zk_hit (fst c) of (latency_ms, zk_hit') \<Rightarrow>
        (if snd c < rnd (5/1000) then [Add_fail] else [Add_success, Add_latency (trunc (rnd (latency_ms * 1000)))])
        @ sim_adds zk_hit' calls)"

section \<open>Counters\<close>

fun succ_of :: "addition \<Rightarrow> int" where
  "succ_of Add_success = 1" | "succ_of _ = 0"

fun fail_of :: "addition \<Rightarrow> int" where
  "fail_of Add_fail = 1" | "fail_of _ = 0"

fun lat_of :: "addition \<Rightarrow> int" where
  "lat_of (Add_latency us) = us" | "lat_of _ = 0"

definition sum_of :: "(addition \<Rightarrow> int) \<Rightarrow> addition list list \<Rightarrow> int" where
  "sum_of f ws = sum_list (map f (concat ws))"

lemma add_to_counters:
  "ru_success (add_to a s) = ru_success s + succ_of a" "ru_fail (add_to a s) = ru_fail s + fail_of a"
  "ru_latency (add_to a s) = ru_latency s + lat_of a"
  by (cases a; simp)+

lemma add_to_rest [simp]:
  "ru_running (add_to a s) = ru_running s" "ru_left (add_to a s) = ru_left s" "ru_clock (add_to a s) = ru_clock s"
  "ru_pc (add_to a s) = ru_pc s" "ru_monitor (add_to a s) = ru_monitor s"
  by (cases a; simp)+

lemma counters_nonneg: "0 \<le> succ_of a" "0 \<le> fail_of a"
  by (cases a; simp)+

lemma sum_of_update:
  assumes "i < length ws" "ws ! i = a # rest"
  shows "sum_of f (ws[i := rest]) + f a = sum_of f ws"
proof -
  have "sum_of f ws = sum_of f (take i ws @ (a # rest) # drop (Suc i) ws)"
    using assms by (metis id_take_nth_drop)
  then show ?thesis
    using assms(1) by (simp add: sum_of_def upd_conv_take_nth_drop)
qed

lemma sum_of_done: "\<forall>w \<in> set ws. w = [] \<Longrightarrow> sum_of f ws = 0"
  by (induction ws) (simp_all add: sum_of_def)

text \<open>A worker alone adds what the sequential model of the simulation does.\<close>

lemma sim_adds_worker:
  "sim_worker z calls t = \<lparr>st_success = st_success t + sum_of succ_of [sim_adds z calls],
     st_fail = st_fail t + sum_of fail_of [sim_adds z calls], st_latency_us = st_latency_us t + sum_of lat_of [sim_adds z calls]\<rparr>"
  by (induction calls arbitrary: z t) (simp_all add: sum_of_def split: prod.splits)

lemma sim_adds_calls: "sum_of succ_of [sim_adds z calls] + sum_of fail_of [sim_adds z calls] = int (length calls)"
  by (induction calls arbitrary: z) (simp_all add: sum_of_def split: prod.splits)

section \<open>The invariant of a run\<close>

text \<open>What the monitor has read lies between its previous readings and the present values.\<close>

fun reading_ok :: "monitor_pc \<Rightarrow> qps_monitor \<Rightarrow> 'm run_state \<Rightarrow> bool" where
  "reading_ok (Mon_now t) m s \<longleftrightarrow> qm_prev_time m \<le> t \<and> t \<le> ru_clock s"
| "reading_ok (Mon_success t n) m s \<longleftrightarrow> qm_prev_time m \<le> t \<and> t \<le> ru_clock s \<and> qm_prev_success m \<le> n \<and> n \<le> ru_success s"
| "reading_ok (Mon_fail t n f) m s \<longleftrightarrow> qm_prev_time m \<le> t \<and> t \<le> ru_clock s \<and> qm_prev_success m \<le> n \<and> n \<le> ru_success s
     \<and> qm_prev_fail m \<le> f \<and> f \<le> ru_fail s"
| "reading_ok Mon_exited m s \<longleftrightarrow> \<not> ru_running s"
| "reading_ok _ m s \<longleftrightarrow> True"

definition forward :: "(int \<times> int \<times> int) list \<Rightarrow> bool" where
  "forward ivs \<longleftrightarrow> (\<forall>(dt, a, b) \<in> set ivs. 0 \<le> dt \<and> 0 \<le> a \<and> 0 \<le> b)"

definition counts_ok :: "addition list list \<Rightarrow> 'm run_state \<Rightarrow> bool" where
  "counts_ok workers s \<longleftrightarrow> ru_success s + sum_of succ_of (ru_left s) = sum_of succ_of workers
     \<and> ru_fail s + sum_of fail_of (ru_left s) = sum_of fail_of workers
     \<and> ru_latency s + sum_of lat_of (ru_left s) = sum_of lat_of workers
     \<and> (ru_running s \<or> (\<forall>w \<in> set (ru_left s). w = []))"

definition monitor_ok :: "('m \<Rightarrow> qps_monitor) \<Rightarrow> int \<Rightarrow> 'm run_state \<Rightarrow> bool" where
  "monitor_ok view start s \<longleftrightarrow>
     (let m = view (ru_monitor s)
      in (\<exists>ivs. splits start ivs m \<and> forward ivs) \<and> qm_prev_time m \<le> ru_clock s
         \<and> qm_prev_success m \<le> ru_success s \<and> qm_prev_fail m \<le> ru_fail s \<and> reading_ok (ru_pc s) m s)"

lemma reading_ok_mono:
  "reading_ok p m s \<Longrightarrow> ru_clock s \<le> ru_clock s' \<Longrightarrow> ru_success s \<le> ru_success s' \<Longrightarrow> ru_fail s \<le> ru_fail s'
    \<Longrightarrow> (ru_running s' \<longrightarrow> ru_running s) \<Longrightarrow> reading_ok p m s'"
  by (cases p) auto

lemma monitor_ok_mono:
  "monitor_ok view start s \<Longrightarrow> ru_pc s' = ru_pc s \<Longrightarrow> ru_monitor s' = ru_monitor s \<Longrightarrow> ru_clock s \<le> ru_clock s'
    \<Longrightarrow> ru_success s \<le> ru_success s' \<Longrightarrow> ru_fail s \<le> ru_fail s' \<Longrightarrow> (ru_running s' \<longrightarrow> ru_running s) \<Longrightarrow> monitor_ok view start s'"
  by (auto simp: monitor_ok_def Let_def intro: reading_ok_mono)

lemma counts_ok_step: "run_step tk recheck s s' \<Longrightarrow> counts_ok workers s \<Longrightarrow> counts_ok workers s'"
proof (induction rule: run_step.induct)
  case (worker_adds i s a rest)
  have "\<exists>w \<in> set (ru_left s). w \<noteq> []"
    using worker_adds.hyps by (metis list.distinct(1) nth_mem)
  then show ?case
    using worker_adds sum_of_update [OF worker_adds.hyps, of succ_of] sum_of_update [OF worker_adds.hyps, of fail_of]
      sum_of_update [OF worker_adds.hyps, of lat_of]
    by (auto simp: counts_ok_def add_to_counters)
qed (simp_all add: counts_ok_def)

text \<open>A run with any monitor that counts intervals.\<close>

locale monitored_run = interval_counter tk view fst
  for tk :: "tick \<times> int \<Rightarrow> 'm \<Rightarrow> 'm" and view
begin

lemma monitor_ok_tick:
  assumes "monitor_ok view start s" "ru_pc s = Mon_fail t n f"
  shows "monitor_ok view start (s\<lparr>ru_pc := Mon_test, ru_monitor := tk ((t, n, f), l) (ru_monitor s)\<rparr>)"
proof -
  let ?m = "view (ru_monitor s)"
  obtain ivs where ivs: "splits start ivs ?m" "forward ivs"
    using assms(1) by (auto simp: monitor_ok_def Let_def)
  have r: "qm_prev_time ?m \<le> t" "t \<le> ru_clock s" "qm_prev_success ?m \<le> n" "n \<le> ru_success s"
      "qm_prev_fail ?m \<le> f" "f \<le> ru_fail s"
    using assms by (simp_all add: monitor_ok_def Let_def)
  let ?iv = "(t - qm_prev_time ?m, n - qm_prev_success ?m, f - qm_prev_fail ?m)"
  have "forward (ivs @ [?iv])"
    using ivs(2) r by (auto simp: forward_def)
  then have "\<exists>ivs'. splits start ivs' (count_interval (t, n, f) ?m) \<and> forward ivs'"
    using splits_interval [OF ivs(1), of t n f] by blast
  then show ?thesis
    using assms(1) r view_tick [of "((t, n, f), l)" "ru_monitor s"] by (auto simp: monitor_ok_def Let_def)
qed

lemma monitor_ok_step: "run_step tk recheck s s' \<Longrightarrow> monitor_ok view start s \<Longrightarrow> monitor_ok view start s'"
proof (induction rule: run_step.induct)
  case (worker_adds i s a rest)
  show ?case
    by (rule monitor_ok_mono [OF worker_adds.prems]) (simp_all add: add_to_counters counters_nonneg)
next
  case (workers_joined s)
  show ?case
    by (rule monitor_ok_mono [OF workers_joined.prems]) simp_all
next
  case (time_passes dt s)
  then show ?case
    by (intro monitor_ok_mono [OF time_passes.prems]) simp_all
next
  case (mon_tick s t n f)
  then show ?case by (intro monitor_ok_tick)
qed (simp_all add: monitor_ok_def Let_def)

lemma run_ok:
  assumes "(run_step tk recheck)\<^sup>*\<^sup>* (run_init m start workers) s" "view m = qps_monitor_init start"
  shows "counts_ok workers s \<and> monitor_ok view start s"
  using assms(1)
proof (induction rule: rtranclp_induct)
  case base
  have "forward []" by (simp add: forward_def)
  then show ?case
    using splits_init [of start] assms(2)
    by (auto simp: counts_ok_def monitor_ok_def run_init_def Let_def qps_monitor_init_def intro!: exI [of _ "[]"])
next
  case (step s s')
  then show ?case
    using counts_ok_step [OF step.hyps(2)] monitor_ok_step [OF step.hyps(2)] by blast
qed

lemma run_exited:
  assumes "(run_step tk recheck)\<^sup>*\<^sup>* (run_init m start workers) s" "view m = qps_monitor_init start" "ru_pc s = Mon_exited"
  shows "ru_success s = sum_of succ_of workers \<and> ru_fail s = sum_of fail_of workers \<and> ru_latency s = sum_of lat_of workers
    \<and> (\<exists>ivs. splits start ivs (view (ru_monitor s)) \<and> forward ivs
         \<and> sum_list (map (\<lambda>(dt, a, b). a) ivs) \<le> ru_success s \<and> sum_list (map (\<lambda>(dt, a, b). b) ivs) \<le> ru_fail s)"
proof -
  have c: "counts_ok workers s" and m: "monitor_ok view start s"
    using run_ok [OF assms(1,2)] by simp_all
  have "\<forall>w \<in> set (ru_left s). w = []"
    using c m assms(3) by (auto simp: counts_ok_def monitor_ok_def Let_def)
  then have "ru_success s = sum_of succ_of workers" "ru_fail s = sum_of fail_of workers" "ru_latency s = sum_of lat_of workers"
    using c sum_of_done [of "ru_left s"] by (simp_all add: counts_ok_def)
  with m show ?thesis
    by (auto simp: monitor_ok_def Let_def splits_def)
qed

end

interpretation client_main: monitored_run "\<lambda>t. client_tick (fst t)" qps_monitor.truncate
  by unfold_locales (rule client_counter.view_tick)

interpretation bench_main: monitored_run "\<lambda>t. bench_tick (fst t)" "\<lambda>m. m"
  by unfold_locales (rule bench_counter.view_tick)

interpretation qps_main: monitored_run qps_tick qps_monitor.truncate
  by unfold_locales

section \<open>Every run can end\<close>

lemma workers_can_finish:
  "\<exists>s'. (run_step tk recheck)\<^sup>*\<^sup>* s s' \<and> (\<forall>w \<in> set (ru_left s'). w = []) \<and> ru_pc s' = ru_pc s"
proof (induction "sum_list (map length (ru_left s))" arbitrary: s rule: less_induct)
  case less
  show ?case
  proof (cases "\<forall>w \<in> set (ru_left s). w = []")
    case False
    then obtain i a rest where i: "i < length (ru_left s)" "ru_left s ! i = a # rest"
      by (metis in_set_conv_nth list.exhaust)
    let ?s = "add_to a (s\<lparr>ru_left := (ru_left s)[i := rest]\<rparr>)"
    have "sum_list (map length (ru_left ?s)) < sum_list (map length (ru_left s))"
      using sum_list_update_less [OF i(1), of length rest] i(2) by simp
    from less.hyps [OF this] worker_adds [OF i, of tk recheck] show ?thesis
      by (auto intro: converse_rtranclp_into_rtranclp)
  qed blast
qed

lemma can_end_step:
  "run_step tk recheck s s1 \<Longrightarrow> \<exists>s'. (run_step tk recheck)\<^sup>*\<^sup>* s1 s' \<and> ru_pc s' = Mon_exited
    \<Longrightarrow> \<exists>s'. (run_step tk recheck)\<^sup>*\<^sup>* s s' \<and> ru_pc s' = Mon_exited"
  by (meson converse_rtranclp_into_rtranclp)

text \<open>When \<^verbatim>\<open>running\<close> is cleared the monitor gets from each of its positions to the next and out.\<close>

lemma monitor_can_end:
  assumes "\<not> ru_running s"
  shows "\<exists>s'. (run_step tk recheck)\<^sup>*\<^sup>* s s' \<and> ru_pc s' = Mon_exited"
proof -
  have out: "\<exists>s'. (run_step tk recheck)\<^sup>*\<^sup>* s s' \<and> ru_pc s' = Mon_exited" if "ru_pc s = Mon_exited" for s :: "'a run_state"
    using that by blast
  have test: "\<exists>s'. (run_step tk recheck)\<^sup>*\<^sup>* s s' \<and> ru_pc s' = Mon_exited"
    if "ru_pc s = Mon_test" "\<not> ru_running s" for s :: "'a run_state"
    by (rule can_end_step [OF mon_end [OF that] out]) simp
  have failed: "\<exists>s'. (run_step tk recheck)\<^sup>*\<^sup>* s s' \<and> ru_pc s' = Mon_exited"
    if "ru_pc s = Mon_fail t n f" "\<not> ru_running s" for s :: "'a run_state" and t n f
    by (rule can_end_step [OF mon_tick [OF that(1)] test]) (simp_all add: that)
  have success: "\<exists>s'. (run_step tk recheck)\<^sup>*\<^sup>* s s' \<and> ru_pc s' = Mon_exited"
    if "ru_pc s = Mon_success t n" "\<not> ru_running s" for s :: "'a run_state" and t n
    by (rule can_end_step [OF mon_load_fail [OF that(1)] failed]) (simp_all add: that)
  have now: "\<exists>s'. (run_step tk recheck)\<^sup>*\<^sup>* s s' \<and> ru_pc s' = Mon_exited"
    if "ru_pc s = Mon_now t" "\<not> ru_running s" for s :: "'a run_state" and t
    by (rule can_end_step [OF mon_load_success [OF that(1)] success]) (simp_all add: that)
  have sleep: "\<exists>s'. (run_step tk recheck)\<^sup>*\<^sup>* s s' \<and> ru_pc s' = Mon_exited"
    if "ru_pc s = Mon_sleep" "\<not> ru_running s" for s :: "'a run_state"
  proof (cases recheck)
    case True
    show ?thesis by (rule can_end_step [OF mon_break [OF that(1) True that(2)] out]) simp
  next
    case False
    then show ?thesis by (intro can_end_step [OF mon_wake [OF that(1)] now]) (simp_all add: that)
  qed
  show ?thesis
    using assms test failed success now sleep out by (cases "ru_pc s") blast+
qed

lemma run_can_end: "\<exists>s'. (run_step tk recheck)\<^sup>*\<^sup>* s s' \<and> ru_pc s' = Mon_exited"
proof -
  obtain s1 where s1: "(run_step tk recheck)\<^sup>*\<^sup>* s s1" "\<forall>w \<in> set (ru_left s1). w = []"
    using workers_can_finish by blast
  let ?s = "s1\<lparr>ru_running := False\<rparr>"
  have "\<exists>s'. (run_step tk recheck)\<^sup>*\<^sup>* ?s s' \<and> ru_pc s' = Mon_exited"
    by (rule monitor_can_end) simp
  with s1 workers_joined [OF s1(2), of tk recheck] show ?thesis
    by (meson converse_rtranclp_into_rtranclp rtranclp_trans)
qed

section \<open>The last interval\<close>

text \<open>After the workers have ended the counters stand still.\<close>

fun seen_all :: "monitor_pc \<Rightarrow> client_monitor run_state \<Rightarrow> bool" where
  "seen_all (Mon_success t n) s \<longleftrightarrow> n = ru_success s"
| "seen_all (Mon_fail t n f) s \<longleftrightarrow> n = ru_success s \<and> f = ru_fail s"
| "seen_all Mon_test s \<longleftrightarrow> qm_prev_success (ru_monitor s) = ru_success s \<and> qm_prev_fail (ru_monitor s) = ru_fail s"
| "seen_all Mon_exited s \<longleftrightarrow> qm_prev_success (ru_monitor s) = ru_success s \<and> qm_prev_fail (ru_monitor s) = ru_fail s"
| "seen_all _ s \<longleftrightarrow> True"

definition stopped :: "'m run_state \<Rightarrow> bool" where
  "stopped s \<longleftrightarrow> \<not> ru_running s \<and> (\<forall>w \<in> set (ru_left s). w = [])"

lemma stopped_step: "run_step tk recheck s s' \<Longrightarrow> stopped s \<Longrightarrow> stopped s' \<and> ru_success s' = ru_success s \<and> ru_fail s' = ru_fail s"
proof (induction rule: run_step.induct)
  case (worker_adds i s a rest)
  then have "a # rest \<in> set (ru_left s)" by (metis nth_mem)
  with worker_adds show ?case by (auto simp: stopped_def)
qed (simp_all add: stopped_def)

lemma seen_all_step: "client_run s s' \<Longrightarrow> stopped s \<Longrightarrow> seen_all (ru_pc s) s \<Longrightarrow> seen_all (ru_pc s') s'"
  unfolding client_run_def
proof (induction rule: run_step.induct)
  case (worker_adds i s a rest)
  then have "a # rest \<in> set (ru_left s)" by (metis nth_mem)
  with worker_adds show ?case by (auto simp: stopped_def)
next
  case (workers_joined s)
  then show ?case by (cases "ru_pc s") auto
next
  case (time_passes dt s)
  then show ?case by (cases "ru_pc s") auto
qed (simp_all add: stopped_def Let_def)

lemma client_sees_all:
  assumes "client_run\<^sup>*\<^sup>* s s'" "stopped s" "seen_all (ru_pc s) s"
  shows "stopped s' \<and> seen_all (ru_pc s') s'"
  using assms(1)
proof (induction rule: rtranclp_induct)
  case (step s1 s2)
  then show ?case
    using stopped_step [OF step.hyps(2) [unfolded client_run_def]] seen_all_step [OF step.hyps(2)] by blast
qed (use assms(2,3) in simp)

text \<open>The monitor of \<^verbatim>\<open>qps_benchmark.cc\<close> that sleeps at the end takes no further sample: what was counted since its
  last one is in no interval.\<close>

lemma qps_drops_last_interval:
  assumes "qps_run\<^sup>*\<^sup>* s s'" "stopped s" "ru_pc s = Mon_sleep"
  shows "stopped s' \<and> ru_pc s' \<in> {Mon_sleep, Mon_exited} \<and> ru_monitor s' = ru_monitor s"
  using assms(1)
proof (induction rule: rtranclp_induct)
  case (step s1 s2)
  have "ru_pc s2 \<in> {Mon_sleep, Mon_exited} \<and> ru_monitor s2 = ru_monitor s1"
    using step.hyps(2) [unfolded qps_run_def] step.IH by cases (auto simp: stopped_def)
  then show ?case
    using step.IH stopped_step [OF step.hyps(2) [unfolded qps_run_def]] by simp
qed (use assms(2,3) in simp)

lemma figures_ok_reachable:
  assumes "client_run\<^sup>*\<^sup>* s s'" "figures_ok (ru_monitor s)"
  shows "figures_ok (ru_monitor s')"
  using assms(1)
proof (induction rule: rtranclp_induct)
  case (step s1 s2)
  from step.hyps(2) [unfolded client_run_def] step.IH show ?case
    by cases (auto simp: figures_ok_tick simp del: client_tick.simps)
qed (rule assms(2))

section \<open>Properties\<close>

lemma sum_of_calls:
  assumes "\<forall>w \<in> set workers. length w = n \<and> set w \<subseteq> {Add_success, Add_fail}"
  shows "sum_of succ_of workers + sum_of fail_of workers = int (length workers * n)"
proof -
  have one: "sum_list (map succ_of w) + sum_list (map fail_of w) = int (length w)" if "set w \<subseteq> {Add_success, Add_fail}" for w
    using that by (induction w) auto
  show ?thesis
    using assms
  proof (induction workers)
    case (Cons w ws)
    then show ?case
      using one [of w] by (simp add: sum_of_def algebra_simps)
  qed (simp add: sum_of_def)
qed

lemma sum_of_sim:
  assumes "\<forall>calls \<in> set draws. length calls = n"
  shows "sum_of succ_of (map (sim_adds False) draws) + sum_of fail_of (map (sim_adds False) draws) = int (length draws * n)"
  using assms
proof (induction draws)
  case (Cons calls draws)
  then show ?case
    using sim_adds_calls [of False calls] by (simp add: sum_of_def algebra_simps)
qed (simp add: sum_of_def)

text \<open>C28: a run of \<^verbatim>\<open>client.cc\<close> accounts for every request. However the worker threads, the monitor and the main
  thread interleave, from every state the program can end, and when it has ended the two counters add
  up to the number of threads times the requests per thread; the samples of the monitor belong to
  intervals that follow each other without gap, none of them negative, and count no request that was
  not made; its running figures are those of the history; and if the monitor was asleep when the main
  thread cleared \<^verbatim>\<open>running\<close>, every request is in one of the intervals.\<close>

theorem client_run_accounts:
  assumes workers: "\<forall>w \<in> set workers. length w = requests_per_thread \<and> set w \<subseteq> {Add_success, Add_fail}"
    and run: "client_run\<^sup>*\<^sup>* (run_init (client_monitor_init start) start workers) s1" "client_run\<^sup>*\<^sup>* s1 s"
  shows "(\<exists>s'. client_run\<^sup>*\<^sup>* s s' \<and> ru_pc s' = Mon_exited)
    \<and> (ru_pc s = Mon_exited \<longrightarrow>
         ru_success s + ru_fail s = int (length workers * requests_per_thread) \<and> figures_ok (ru_monitor s)
         \<and> (\<exists>ivs. splits start ivs (qps_monitor.truncate (ru_monitor s)) \<and> forward ivs
              \<and> sum_list (map (\<lambda>(dt, a, b). a) ivs) \<le> ru_success s \<and> sum_list (map (\<lambda>(dt, a, b). b) ivs) \<le> ru_fail s
              \<and> (\<not> ru_running s1 \<and> ru_pc s1 = Mon_sleep \<longrightarrow>
                   sum_list (map (\<lambda>(dt, a, b). a + b) ivs) = int (length workers * requests_per_thread))))"
proof (intro conjI impI)
  let ?m = "client_monitor_init start" and ?n = "int (length workers * requests_per_thread)"
  have all: "client_run\<^sup>*\<^sup>* (run_init ?m start workers) s"
    using run by (rule rtranclp_trans)
  have view: "qps_monitor.truncate ?m = qps_monitor_init start"
    by (simp add: client_monitor_init_def qps_monitor.defs)
  show "\<exists>s'. client_run\<^sup>*\<^sup>* s s' \<and> ru_pc s' = Mon_exited"
    unfolding client_run_def by (rule run_can_end)
  assume exited: "ru_pc s = Mon_exited"
  note e = client_main.run_exited [OF all [unfolded client_run_def] view exited]
  from e sum_of_calls [OF workers] show total: "ru_success s + ru_fail s = ?n" by simp
  show "figures_ok (ru_monitor s)"
    by (rule figures_ok_reachable [OF all]) (simp add: run_init_def figures_ok_init)
  from e obtain ivs where ivs: "splits start ivs (qps_monitor.truncate (ru_monitor s))" "forward ivs"
      "sum_list (map (\<lambda>(dt, a, b). a) ivs) \<le> ru_success s" "sum_list (map (\<lambda>(dt, a, b). b) ivs) \<le> ru_fail s"
    by blast
  have "sum_list (map (\<lambda>(dt, a, b). a + b) ivs) = ?n" if "\<not> ru_running s1" "ru_pc s1 = Mon_sleep"
  proof -
    have "stopped s1"
      using client_main.run_ok [OF run(1) [unfolded client_run_def] view] that by (simp add: counts_ok_def stopped_def)
    then have "seen_all Mon_exited s"
      using client_sees_all [OF run(2)] that exited by simp
    then have "sum_list (map (\<lambda>(dt, a, b). a) ivs) + sum_list (map (\<lambda>(dt, a, b). b) ivs) = ?n"
      using ivs(1) total by (simp add: splits_def qps_monitor.defs)
    moreover have "sum_list (map (\<lambda>(dt, a, b). a + b) ivs) = sum_list (map (\<lambda>(dt, a, b). a) ivs) + sum_list (map (\<lambda>(dt, a, b). b) ivs)"
      by (induction ivs) auto
    ultimately show ?thesis by simp
  qed
  with ivs show "\<exists>ivs. splits start ivs (qps_monitor.truncate (ru_monitor s)) \<and> forward ivs
      \<and> sum_list (map (\<lambda>(dt, a, b). a) ivs) \<le> ru_success s \<and> sum_list (map (\<lambda>(dt, a, b). b) ivs) \<le> ru_fail s
      \<and> (\<not> ru_running s1 \<and> ru_pc s1 = Mon_sleep \<longrightarrow> sum_list (map (\<lambda>(dt, a, b). a + b) ivs) = ?n)"
    by blast
qed

text \<open>The same for \<^verbatim>\<open>bench_client.cc\<close>, whose monitor keeps no running figures.\<close>

lemma bench_run_accounts:
  assumes workers: "\<forall>w \<in> set workers. length w = calls_per_thread \<and> set w \<subseteq> {Add_success, Add_fail}"
    and run: "bench_run\<^sup>*\<^sup>* (run_init (qps_monitor_init start) start workers) s" "ru_pc s = Mon_exited"
  shows "ru_success s + ru_fail s = int (length workers * calls_per_thread)
    \<and> (\<exists>ivs. splits start ivs (ru_monitor s) \<and> forward ivs
         \<and> sum_list (map (\<lambda>(dt, a, b). a) ivs) \<le> ru_success s \<and> sum_list (map (\<lambda>(dt, a, b). b) ivs) \<le> ru_fail s)"
  using bench_main.run_exited [OF run(1) [unfolded bench_run_def] refl run(2)] sum_of_calls [OF workers] by metis

text \<open>C29: a run of \<^verbatim>\<open>qps_benchmark.cc\<close> counts every simulated call, in its two counters and in the latency total,
  exactly as the workers one after the other would. Its monitor, which looks at \<^verbatim>\<open>running\<close> again when it
  wakes up, is different from that of \<^verbatim>\<open>client.cc\<close>: if it is asleep when \<^verbatim>\<open>running\<close> is cleared, its
  history stays as it is, so that the calls since its last sample are in no interval.\<close>

theorem qps_run_accounts:
  assumes draws: "\<forall>calls \<in> set draws. length calls = calls_per_thread"
    and run: "qps_run\<^sup>*\<^sup>* (run_init (qps_monitor.extend (qps_monitor_init start) \<lparr>qb_latency = []\<rparr>) start
        (map (sim_adds False) draws)) s1" "qps_run\<^sup>*\<^sup>* s1 s" "ru_pc s = Mon_exited"
  shows "ru_success s + ru_fail s = int (length draws * calls_per_thread)
    \<and> \<lparr>st_success = ru_success s, st_fail = ru_fail s, st_latency_us = ru_latency s\<rparr>
        = fold (sim_worker False) draws \<lparr>st_success = 0, st_fail = 0, st_latency_us = 0\<rparr>
    \<and> (\<exists>ivs. splits start ivs (qps_monitor.truncate (ru_monitor s)) \<and> forward ivs
         \<and> sum_list (map (\<lambda>(dt, a, b). a) ivs) \<le> ru_success s \<and> sum_list (map (\<lambda>(dt, a, b). b) ivs) \<le> ru_fail s)
    \<and> (\<not> ru_running s1 \<and> ru_pc s1 = Mon_sleep \<longrightarrow> ru_monitor s = ru_monitor s1)"
proof -
  let ?m = "qps_monitor.extend (qps_monitor_init start) \<lparr>qb_latency = []\<rparr>" and ?ws = "map (sim_adds False) draws"
  have all: "qps_run\<^sup>*\<^sup>* (run_init ?m start ?ws) s"
    using run(1,2) by (rule rtranclp_trans)
  have view: "qps_monitor.truncate ?m = qps_monitor_init start"
    by (simp add: qps_monitor.defs)
  note e = qps_main.run_exited [OF all [unfolded qps_run_def] view run(3)]
  have "fold (sim_worker False) draws t = \<lparr>st_success = st_success t + sum_of succ_of ?ws,
      st_fail = st_fail t + sum_of fail_of ?ws, st_latency_us = st_latency_us t + sum_of lat_of ?ws\<rparr>" for t
    by (induction draws arbitrary: t) (simp_all add: sum_of_def sim_adds_worker)
  then have totals: "\<lparr>st_success = ru_success s, st_fail = ru_fail s, st_latency_us = ru_latency s\<rparr>
      = fold (sim_worker False) draws \<lparr>st_success = 0, st_fail = 0, st_latency_us = 0\<rparr>"
    using e by simp
  have "ru_monitor s = ru_monitor s1" if "\<not> ru_running s1" "ru_pc s1 = Mon_sleep"
  proof -
    have "stopped s1"
      using qps_main.run_ok [OF run(1) [unfolded qps_run_def] view] that by (simp add: counts_ok_def stopped_def)
    with qps_drops_last_interval [OF run(2)] that show ?thesis by simp
  qed
  moreover have "ru_success s + ru_fail s = int (length draws * calls_per_thread)"
    using e sum_of_sim [OF draws] by simp
  ultimately show ?thesis
    using e totals by blast
qed

section \<open>Witnesses\<close>

theorem client_run_accounts_witness:
  "\<exists>s. client_run\<^sup>*\<^sup>* (run_init (client_monitor_init 0) 0 [[Add_success, Add_fail], [Add_success, Add_success]]) s
     \<and> ru_success s + ru_fail s = 4"
proof -
  let ?ws = "[[Add_success, Add_fail], [Add_success, Add_success]]"
  have ws: "\<forall>w \<in> set ?ws. length w = 2 \<and> set w \<subseteq> {Add_success, Add_fail}" by simp
  let ?init = "run_init (client_monitor_init 0) 0 ?ws"
  note th = client_run_accounts [OF ws]
  obtain s where s: "client_run\<^sup>*\<^sup>* ?init s" "ru_pc s = Mon_exited"
    using th [OF rtranclp.rtrancl_refl rtranclp.rtrancl_refl] by blast
  from th [OF rtranclp.rtrancl_refl s(1)] s show ?thesis by auto
qed

definition sample_draws :: sim_draws where
  "sample_draws = \<lparr>dr_zk = 2, dr_cache = 0, dr_lb = 0, dr_conn = 1, dr_ser = 0, dr_enc = 0, dr_net = 0, dr_dec = 0,
     dr_des = 0, dr_trigger = 1, dr_tail = 0\<rparr>"

theorem qps_run_accounts_witness:
  "\<exists>s. qps_run\<^sup>*\<^sup>* (run_init (qps_monitor.extend (qps_monitor_init 0) \<lparr>qb_latency = []\<rparr>) 0
        (map (sim_adds False) [[(sample_draws, 1)], [(sample_draws, 0)]])) s
     \<and> ru_success s + ru_fail s = 2"
proof -
  let ?draws = "[[(sample_draws, 1)], [(sample_draws, 0)]] :: (sim_draws \<times> rat) list list"
  let ?init = "run_init (qps_monitor.extend (qps_monitor_init 0) \<lparr>qb_latency = []\<rparr>) 0 (map (sim_adds False) ?draws)"
  have d: "\<forall>calls \<in> set ?draws. length calls = 1" by simp
  obtain s where s: "qps_run\<^sup>*\<^sup>* ?init s" "ru_pc s = Mon_exited"
    unfolding qps_run_def using run_can_end by blast
  from qps_run_accounts [OF d s(1) rtranclp.rtrancl_refl s(2)] s show ?thesis by auto
qed

end
