(* ===== verification/Server_Programs.thy ===== *)
theory Server_Programs
  imports Mini_Server Thread_Lists
begin

text \<open>
  The \<^verbatim>\<open>main\<close> functions of \<^verbatim>\<open>tools/mini_server.cc\<close> and \<^verbatim>\<open>tools/mini_server_reactor.cc\<close>: arguments, set-up
  of the listening socket, and the life of the server until it is stopped. The reactor is modelled
  with its threads: the main thread that accepts and deals out connections, the workers of \<open>Reactor\<close>,
  the queues between them and \<^verbatim>\<open>g_running\<close>, which a signal may clear at any time.
\<close>

section \<open>Start\<close>

text \<open>The port and, for the reactor, the number of workers; what the system says to \<^verbatim>\<open>socket\<close>, \<^verbatim>\<open>bind\<close> and
  \<^verbatim>\<open>listen\<close>. Setting options has no effect that is modelled.\<close>

definition server_port :: "bytes list \<Rightarrow> 32 word" where
  "server_port argv = (if length argv > 1 then atoi (c_str (argv ! 1)) else 9000)"

definition reactor_workers :: "bytes list \<Rightarrow> int" where
  "reactor_workers argv = (if length argv > 2 then sint (atoi (c_str (argv ! 2))) else 4)"

record listen_results =
  lr_socket :: int
  lr_bind :: int
  lr_listen :: int

definition open_listener :: "listen_results \<Rightarrow> int option" where
  "open_listener r =
     (if lr_socket r < 0 then None else if lr_bind r < 0 then None else if lr_listen r < 0 then None
      else Some (lr_socket r))"

section \<open>The blocking server\<close>

text \<open>The accept loop: the clients that get a thread. The socket blocks, so every error but an interrupt ends
  the loop; the script ends when \<^verbatim>\<open>g_running\<close> is cleared.\<close>

fun mini_accept :: "accept_event list \<Rightarrow> int list" where
  "mini_accept [] = []"
| "mini_accept (Accepted client_fd # evs) = client_fd # mini_accept evs"
| "mini_accept (Accept_eintr # evs) = mini_accept evs"
| "mini_accept (_ # evs) = []"

text \<open>The exit code 1, or the served clients with how each connection ended. A thread whose client waits
  keeps the program from ending.\<close>

datatype mini_exit = Start_failed | Threads_wait | Shut_down int "int list"

definition mini_main :: "protobuf \<Rightarrow> login_pb \<Rightarrow> listen_results \<Rightarrow> accept_event list
    \<Rightarrow> (int \<Rightarrow> recv_event list \<times> nat option list) \<Rightarrow> mini_exit" where
  "mini_main pb lg r evs net =
     (case open_listener r of
        None \<Rightarrow> Start_failed
      | Some listen_fd \<Rightarrow>
          let clients = mini_accept evs;
              ends = map (\<lambda>fd. fst (handle_client pb lg (fst (net fd)) (snd (net fd)) [])) clients
          in if Waiting \<in> set ends then Threads_wait else Shut_down listen_fd clients)"

section \<open>The reactor\<close>

datatype main_pc = Main_test | Main_accept | Main_deal int | Main_left | Main_joining | Main_done

datatype worker_pc = W_test | W_poll | W_done

record 'w reactor_worker =
  rw_pc :: worker_pc
  rw_fds :: "pollfd list"
  rw_state :: "'w worker"

record 'w reactor =
  rx_running :: bool
  rx_listening :: bool
  rx_main :: main_pc
  rx_rr :: nat
  rx_queues :: "int list list"
  rx_workers :: "'w reactor_worker list"
  rx_accepted :: "int list"

definition reactor_init :: "'w list \<Rightarrow> 'w reactor" where
  "reactor_init ws = \<lparr>rx_running = True, rx_listening = True, rx_main = Main_test, rx_rr = 0,
     rx_queues = map (\<lambda>_. []) ws,
     rx_workers = map (\<lambda>w. \<lparr>rw_pc = W_test, rw_fds = [], rw_state = \<lparr>w_closed = [], counter = 0, conns = w\<rparr>\<rparr>) ws,
     rx_accepted = []\<rparr>"

definition cleanup :: "'w reactor_worker \<Rightarrow> 'w reactor_worker" where
  "cleanup w = w\<lparr>rw_pc := W_done, rw_fds := [],
     rw_state := (rw_state w)\<lparr>w_closed := w_closed (rw_state w) @ map pf_fd (rw_fds w)\<rparr>\<rparr>"

definition take_over :: "int list \<Rightarrow> 'w reactor_worker \<Rightarrow> 'w reactor_worker" where
  "take_over new w = (case adopt new (rw_fds w) (rw_state w) of (fds, st) \<Rightarrow>
     w\<lparr>rw_pc := W_poll, rw_fds := fds, rw_state := st\<rparr>)"

abbreviation set_worker :: "nat \<Rightarrow> 'w reactor_worker \<Rightarrow> 'w reactor \<Rightarrow> 'w reactor" where
  "set_worker i w s \<equiv> s\<lparr>rx_workers := (rx_workers s)[i := w]\<rparr>"

inductive reactor_step :: "(int \<Rightarrow> 'w \<Rightarrow> (bool \<times> 'w) option) \<Rightarrow> 'w reactor \<Rightarrow> 'w reactor \<Rightarrow> bool" for process where
  sigint: "reactor_step process s (s\<lparr>rx_running := False\<rparr>)"
| main_enter: "rx_main s = Main_test \<Longrightarrow> rx_running s \<Longrightarrow> reactor_step process s (s\<lparr>rx_main := Main_accept\<rparr>)"
| main_leave: "rx_main s = Main_test \<Longrightarrow> \<not> rx_running s \<Longrightarrow> reactor_step process s (s\<lparr>rx_main := Main_left\<rparr>)"
| main_accepted: "rx_main s = Main_accept \<Longrightarrow>
    reactor_step process s (s\<lparr>rx_main := Main_deal fd, rx_accepted := rx_accepted s @ [fd]\<rparr>)"
| main_again: "rx_main s = Main_accept \<Longrightarrow> reactor_step process s (s\<lparr>rx_main := Main_test\<rparr>)"
| main_error: "rx_main s = Main_accept \<Longrightarrow> reactor_step process s (s\<lparr>rx_main := Main_left\<rparr>)"
| main_deal: "rx_main s = Main_deal fd \<Longrightarrow> rx_queues s \<noteq> [] \<Longrightarrow> rx_rr s + 1 < 2 ^ 31 \<Longrightarrow>
    idx = rx_rr s mod length (rx_queues s) \<Longrightarrow>
    reactor_step process s (s\<lparr>rx_main := Main_test, rx_rr := rx_rr s + 1,
      rx_queues := (rx_queues s)[idx := rx_queues s ! idx @ [fd]]\<rparr>)"
| main_stop: "rx_main s = Main_left \<Longrightarrow>
    reactor_step process s (s\<lparr>rx_main := Main_joining, rx_running := False, rx_listening := False\<rparr>)"
| main_join: "rx_main s = Main_joining \<Longrightarrow> \<forall>w \<in> set (rx_workers s). rw_pc w = W_done \<Longrightarrow>
    reactor_step process s (s\<lparr>rx_main := Main_done\<rparr>)"
| worker_adopts: "i < length (rx_workers s) \<Longrightarrow> rw_pc (rx_workers s ! i) = W_test \<Longrightarrow> rx_running s \<Longrightarrow>
    reactor_step process s (set_worker i (take_over (rx_queues s ! i) (rx_workers s ! i)) (s\<lparr>rx_queues := (rx_queues s)[i := []]\<rparr>))"
| worker_stops: "i < length (rx_workers s) \<Longrightarrow> rw_pc (rx_workers s ! i) = W_test \<Longrightarrow> \<not> rx_running s \<Longrightarrow>
    reactor_step process s (set_worker i (cleanup (rx_workers s ! i)) s)"
| worker_idle: "i < length (rx_workers s) \<Longrightarrow> rw_pc (rx_workers s ! i) = W_poll \<Longrightarrow>
    reactor_step process s (set_worker i ((rx_workers s ! i)\<lparr>rw_pc := W_test\<rparr>) s)"
| worker_poll_error: "i < length (rx_workers s) \<Longrightarrow> rw_pc (rx_workers s ! i) = W_poll \<Longrightarrow>
    reactor_step process s (set_worker i (cleanup (rx_workers s ! i)) s)"
| worker_serves: "i < length (rx_workers s) \<Longrightarrow> w = rx_workers s ! i \<Longrightarrow> rw_pc w = W_poll \<Longrightarrow>
    fds = set_revents revents (rw_fds w) \<Longrightarrow>
    ready_loop process 0 (length (filter is_ready fds)) fds (rw_state w) = Some (fds', st') \<Longrightarrow>
    reactor_step process s (set_worker i (w\<lparr>rw_pc := W_test, rw_fds := fds', rw_state := st'\<rparr>) s)"

section \<open>Who owns a descriptor\<close>

definition worker_owns :: "'w reactor_worker \<Rightarrow> int list" where
  "worker_owns w = w_closed (rw_state w) @ map pf_fd (rw_fds w)"

fun in_hand :: "main_pc \<Rightarrow> int list" where
  "in_hand (Main_deal fd) = [fd]"
| "in_hand _ = []"

definition worker_ok :: "'w reactor_worker \<Rightarrow> bool" where
  "worker_ok w \<longleftrightarrow> length (rw_fds w) \<le> kMaxFds \<and> (rw_pc w = W_done \<longrightarrow> rw_fds w = [])"

definition reactor_inv :: "'w reactor \<Rightarrow> bool" where
  "reactor_inv s \<longleftrightarrow>
     mset (rx_accepted s) = mset (concat (map worker_owns (rx_workers s))) + mset (concat (rx_queues s)) + mset (in_hand (rx_main s))
     \<and> length (rx_queues s) = length (rx_workers s) \<and> (\<forall>w \<in> set (rx_workers s). worker_ok w)
     \<and> (rx_main s \<in> {Main_joining, Main_done} \<longrightarrow> \<not> rx_listening s \<and> \<not> rx_running s)
     \<and> (rx_main s = Main_done \<longrightarrow> (\<forall>w \<in> set (rx_workers s). rw_pc w = W_done))"

lemma cleanup_owns [simp]: "worker_owns (cleanup w) = worker_owns w" "worker_ok (cleanup w)" "rw_pc (cleanup w) = W_done"
  by (simp_all add: cleanup_def worker_owns_def worker_ok_def)

lemma take_over_owns:
  "mset (worker_owns (take_over new w)) = mset (worker_owns w) + mset new"
  "worker_ok w \<Longrightarrow> worker_ok (take_over new w)"
proof -
  obtain fds st where ad: "adopt new (rw_fds w) (rw_state w) = (fds, st)" by fastforce
  from adopt_conserves [OF ad] show "mset (worker_owns (take_over new w)) = mset (worker_owns w) + mset new"
    by (simp add: take_over_def ad worker_owns_def ac_simps)
  from adopt_bound [OF ad] show "worker_ok w \<Longrightarrow> worker_ok (take_over new w)"
    by (simp add: take_over_def ad worker_ok_def)
qed

lemma reactor_inv_worker:
  assumes "reactor_inv s" "i < length (rx_workers s)" "worker_ok w"
    and "mset (worker_owns w) = mset (worker_owns (rx_workers s ! i))" "rw_pc (rx_workers s ! i) \<noteq> W_done"
  shows "reactor_inv (set_worker i w s)"
proof -
  have "rx_main s \<noteq> Main_done"
    using assms(1,2,5) by (auto simp: reactor_inv_def)
  then show ?thesis
    using assms(1,3) mset_concat_grow [OF assms(2), of worker_owns w "{#}"] assms(4) set_update_subset_insert [of "rx_workers s" i w]
    by (auto simp: reactor_inv_def)
qed

lemma ready_loop_length:
  "ready_loop process i ready fds st = Some (fds', st') \<Longrightarrow> length fds' \<le> length fds"
proof (induction process i ready fds st rule: ready_loop.induct)
  case (1 process i ready fds st)
  show ?case
  proof (cases "i < length fds \<and> 0 < ready")
    case False
    with "1.prems" show ?thesis by (subst (asm) ready_loop.simps) auto
  next
    case True
    with "1.prems" "1.IH" show ?thesis
      by (fastforce simp: ready_loop_step Let_def split: if_splits option.splits)
  qed
qed

lemma reactor_inv_step: "reactor_step process s s' \<Longrightarrow> reactor_inv s \<Longrightarrow> reactor_inv s'"
proof (induction rule: reactor_step.induct)
  case (main_deal s fd idx)
  then have "idx < length (rx_queues s)"
    by simp
  from mset_concat_grow [OF this, of "\<lambda>q. q" "rx_queues s ! idx @ [fd]" "{#fd#}"] main_deal show ?case
    by (auto simp: reactor_inv_def)
next
  case (worker_adopts i s)
  have q: "i < length (rx_queues s)"
    using worker_adopts by (simp add: reactor_inv_def)
  have "mset (concat (rx_queues s)) = mset (rx_queues s ! i) + mset (concat ((rx_queues s)[i := []]))"
    using mset_concat_update [OF q, of "\<lambda>q. q" "[]"] by (simp add: add.commute)
  moreover have "rx_main s \<noteq> Main_done"
    using worker_adopts by (auto simp: reactor_inv_def)
  moreover have "worker_ok (take_over (rx_queues s ! i) (rx_workers s ! i))"
    using worker_adopts by (intro take_over_owns) (simp add: reactor_inv_def)
  ultimately show ?case
    using worker_adopts mset_concat_grow [where f = worker_owns, OF worker_adopts.hyps(1) take_over_owns(1)]
      set_update_subset_insert [of "rx_workers s" i "take_over (rx_queues s ! i) (rx_workers s ! i)"]
    by (auto simp: reactor_inv_def)
next
  case (worker_stops i s)
  then show ?case by (intro reactor_inv_worker) simp_all
next
  case (worker_idle i s)
  then show ?case
    by (intro reactor_inv_worker) (auto simp: reactor_inv_def worker_ok_def worker_owns_def)
next
  case (worker_poll_error i s)
  then show ?case by (intro reactor_inv_worker) simp_all
next
  case (worker_serves i s w fds revents fds' st')
  have "worker_ok w"
    using worker_serves by (simp add: reactor_inv_def)
  then have "length fds' \<le> kMaxFds"
    using ready_loop_length [OF worker_serves.hyps(5)] worker_serves.hyps(4) by (simp add: worker_ok_def set_revents_def)
  with worker_serves ready_loop_conserves [OF worker_serves.hyps(5)] show ?case
    by (intro reactor_inv_worker) (auto simp: worker_ok_def worker_owns_def ac_simps)
qed (auto simp: reactor_inv_def)

lemma reactor_inv_reachable: "(reactor_step process)\<^sup>*\<^sup>* (reactor_init ws) s \<Longrightarrow> reactor_inv s"
proof (induction rule: rtranclp_induct)
  case base
  show ?case
    by (auto simp: reactor_inv_def reactor_init_def worker_ok_def worker_owns_def comp_def)
qed (rule reactor_inv_step)

section \<open>The blocking server ends\<close>

lemma mini_main_served:
  assumes "mini_main pb lg r evs net = Shut_down fd clients"
  shows "lr_socket r = fd \<and> 0 \<le> fd \<and> clients = mini_accept evs
    \<and> (\<forall>c \<in> set clients. fst (handle_client pb lg (fst (net c)) (snd (net c)) []) \<noteq> Waiting)"
  using assms by (auto simp: mini_main_def open_listener_def Let_def image_iff split: option.splits if_splits)

section \<open>A descriptor that is dealt out too late\<close>

text \<open>The main thread is between \<^verbatim>\<open>accept\<close> and the queue when the signal arrives; the worker ends before the
  connection is queued.\<close>

lemma reactor_leaks:
  "\<exists>s. (reactor_step process)\<^sup>*\<^sup>* (reactor_init [w]) s \<and> rx_main s = Main_done \<and> rx_accepted s = [fd] \<and> rx_queues s = [[fd]]"
proof -
  let ?s0 = "reactor_init [w]"
  let ?s1 = "?s0\<lparr>rx_main := Main_accept\<rparr>"
  let ?s2 = "?s1\<lparr>rx_main := Main_deal fd, rx_accepted := rx_accepted ?s1 @ [fd]\<rparr>"
  let ?s3 = "?s2\<lparr>rx_running := False\<rparr>"
  let ?s4 = "set_worker 0 (cleanup (rx_workers ?s3 ! 0)) ?s3"
  let ?s5 = "?s4\<lparr>rx_main := Main_test, rx_rr := rx_rr ?s4 + 1, rx_queues := (rx_queues ?s4)[0 := rx_queues ?s4 ! 0 @ [fd]]\<rparr>"
  let ?s6 = "?s5\<lparr>rx_main := Main_left\<rparr>"
  let ?s7 = "?s6\<lparr>rx_main := Main_joining, rx_running := False, rx_listening := False\<rparr>"
  let ?s8 = "?s7\<lparr>rx_main := Main_done\<rparr>"
  have a1: "reactor_step process ?s0 ?s1" by (rule main_enter) (simp_all add: reactor_init_def)
  have a2: "reactor_step process ?s1 ?s2" by (rule main_accepted) simp
  have a3: "reactor_step process ?s2 ?s3" by (rule sigint)
  have a4: "reactor_step process ?s3 ?s4" by (rule worker_stops) (simp_all add: reactor_init_def)
  have a5: "reactor_step process ?s4 ?s5" by (rule main_deal) (simp_all add: reactor_init_def)
  have a6: "reactor_step process ?s5 ?s6" by (rule main_leave) simp_all
  have a7: "reactor_step process ?s6 ?s7" by (rule main_stop) simp
  have a8: "reactor_step process ?s7 ?s8" by (rule main_join) (simp_all add: reactor_init_def)
  have "(reactor_step process)\<^sup>*\<^sup>* ?s0 ?s8"
    by (rule converse_rtranclp_into_rtranclp, rule a1, rule converse_rtranclp_into_rtranclp, rule a2, rule converse_rtranclp_into_rtranclp, rule a3, rule converse_rtranclp_into_rtranclp, rule a4,
        rule converse_rtranclp_into_rtranclp, rule a5, rule converse_rtranclp_into_rtranclp, rule a6, rule converse_rtranclp_into_rtranclp, rule a7, rule converse_rtranclp_into_rtranclp, rule a8, rule rtranclp.rtrancl_refl)
  then show ?thesis
    by (intro exI [of _ ?s8]) (simp add: reactor_init_def)
qed

section \<open>Property\<close>

text \<open>C27: every connection of the reactor has one owner. However the main thread, the workers and a signal
  interleave, whatever the handler does and \<^verbatim>\<open>poll\<close> reports, each accepted descriptor is at any time in
  exactly one place: in the hand of the main thread, in one queue, in the array of one worker, or
  closed, and then closed once. No array overflows. When the program ends, the listening socket is
  closed and so is every connection that a worker took over; those still queued are never closed.\<close>

theorem reactor_shutdown:
  assumes "(reactor_step process)\<^sup>*\<^sup>* (reactor_init ws) s"
  shows "mset (rx_accepted s) = mset (in_hand (rx_main s)) + mset (concat (rx_queues s))
      + mset (concat (map (\<lambda>w. w_closed (rw_state w) @ map pf_fd (rw_fds w)) (rx_workers s)))
    \<and> (\<forall>w \<in> set (rx_workers s). length (rw_fds w) \<le> kMaxFds)
    \<and> (rx_main s = Main_done \<longrightarrow> \<not> rx_listening s
         \<and> mset (rx_accepted s) = mset (concat (map (\<lambda>w. w_closed (rw_state w)) (rx_workers s))) + mset (concat (rx_queues s)))"
proof -
  note inv = reactor_inv_reachable [OF assms]
  have "map worker_owns (rx_workers s) = map (\<lambda>w. w_closed (rw_state w)) (rx_workers s)" if "rx_main s = Main_done"
    using inv that by (auto simp: reactor_inv_def worker_owns_def worker_ok_def)
  moreover have owns: "map (\<lambda>w. w_closed (rw_state w) @ map pf_fd (rw_fds w)) (rx_workers s) = map worker_owns (rx_workers s)"
    by (simp add: worker_owns_def)
  moreover have "mset (rx_accepted s) = mset (in_hand (rx_main s)) + mset (concat (rx_queues s)) + mset (concat (map worker_owns (rx_workers s)))"
      "\<forall>w \<in> set (rx_workers s). length (rw_fds w) \<le> kMaxFds" "rx_main s = Main_done \<longrightarrow> \<not> rx_listening s"
    using inv by (auto simp: reactor_inv_def worker_ok_def)
  ultimately show ?thesis
    unfolding owns by (simp add: add.commute del: map_eq_conv)
qed

section \<open>Witness\<close>

theorem reactor_shutdown_witness:
  "\<exists>s. (reactor_step (\<lambda>fd w. Some (True, w)))\<^sup>*\<^sup>* (reactor_init [()]) s \<and> rx_main s = Main_done
     \<and> concat (map (\<lambda>w. w_closed (rw_state w)) (rx_workers s)) = []"
proof -
  obtain s where s: "(reactor_step (\<lambda>fd w. Some (True, w)))\<^sup>*\<^sup>* (reactor_init [()]) s" "rx_main s = Main_done"
      "rx_accepted s = [5]" "rx_queues s = [[5]]"
    using reactor_leaks [of "\<lambda>fd w. Some (True, w)" "()" 5] by (elim exE conjE)
  from reactor_shutdown [OF s(1)] s(2-4) have "mset (concat (map (\<lambda>w. w_closed (rw_state w)) (rx_workers s))) = {#}"
    by simp
  with s(1,2) show ?thesis by (metis mset_zero_iff)
qed

end
