(* ===== verification/Server_Connections.thy ===== *)
theory Server_Connections
  imports Service_Table
begin

text \<open>
  The callbacks of \<^verbatim>\<open>src/rpc/server.cc\<close> on several connections at once. \<^verbatim>\<open>Run\<close> gives the network library
  four threads, and the callbacks of different connections interleave. They share \<^verbatim>\<open>_serverCodec\<close>, which
  the first callback creates without a lock. The codec objects are on a heap here, because assigning the
  pointer destroys the object it held.
\<close>

section \<open>Callbacks\<close>

definition OnConnection :: "bool \<Rightarrow> conn_event list" where
  "OnConnection is_connected = (if \<not> is_connected then [Shutdown] else [])"

text \<open>Where the message callback of a connection is: not running; at the test of the pointer; after the test,
  with no codec found; with a new codec made; at the head of the loop over the frames; with the pointer
  loaded for a frame.\<close>

datatype callback_pc = Idle | At_test | No_codec | Made nat | In_loop | In_frame nat

record io_state =
  io_ptr :: "nat option"
  io_heap :: "nat \<Rightarrow> ServerCodec option"
  io_next :: nat
  io_segs :: "nat \<Rightarrow> bytes list"
  io_input :: "nat \<Rightarrow> bytes"
  io_pc :: "nat \<Rightarrow> callback_pc"
  io_out :: "nat \<Rightarrow> conn_event list"

definition io_init :: "ServerCodec option \<Rightarrow> io_state" where
  "io_init codec = \<lparr>io_ptr = map_option (\<lambda>_. 0) codec, io_heap = (\<lambda>_. None)(0 := codec), io_next = 1,
     io_segs = (\<lambda>_. []), io_input = (\<lambda>_. []), io_pc = (\<lambda>_. Idle), io_out = (\<lambda>_. [])\<rparr>"

text \<open>One round of the loop: the rest of the buffer, what is done to the connection, and whether the loop
  goes on.\<close>

definition frame_round :: "('req, 'resp) RpcServer \<Rightarrow> ServerCodec \<Rightarrow> bytes \<Rightarrow> bytes \<times> conn_event list \<times> bool" where
  "frame_round s codec buf =
     (let nbuf = NoncontiguousBuffer_from buf;
          frame_size = CheckAndPick codec nbuf
      in if frame_size = 0 then (buf, [], False)
         else if frame_size < 0 then (buf, [Shutdown], False)
         else case ZeroCopyDecode codec nbuf ProtocolMessage_init of (decode_ret, nbuf', msg) \<Rightarrow>
           if decode_ret \<noteq> kCodecOk then (buf, [Shutdown], False)
           else (drop (nat frame_size) buf, dispatch s codec msg, True))"

text \<open>Bytes arrive on a connection only when its callback is not running: a connection belongs to one thread.\<close>

inductive io_step :: "protobuf \<Rightarrow> ('req, 'resp) RpcServer \<Rightarrow> io_state \<Rightarrow> io_state \<Rightarrow> bool"
  for pb :: protobuf and s :: "('req, 'resp) RpcServer" where
  io_arrives: "io_pc t c = Idle \<Longrightarrow>
     io_step pb s t (t\<lparr>io_segs := (io_segs t)(c := io_segs t c @ [seg]),
       io_input := (io_input t)(c := io_input t c @ seg), io_pc := (io_pc t)(c := At_test)\<rparr>)"
| io_has_codec: "io_pc t c = At_test \<Longrightarrow> io_ptr t \<noteq> None \<Longrightarrow> io_step pb s t (t\<lparr>io_pc := (io_pc t)(c := In_loop)\<rparr>)"
| io_no_codec: "io_pc t c = At_test \<Longrightarrow> io_ptr t = None \<Longrightarrow> io_step pb s t (t\<lparr>io_pc := (io_pc t)(c := No_codec)\<rparr>)"
| io_makes: "io_pc t c = No_codec \<Longrightarrow>
     io_step pb s t (t\<lparr>io_heap := (io_heap t)(io_next t \<mapsto> CreateServerCodec_auto pb (NoncontiguousBuffer_from (io_input t c))),
       io_next := Suc (io_next t), io_pc := (io_pc t)(c := Made (io_next t))\<rparr>)"
| io_assigns: "io_pc t c = Made k \<Longrightarrow>
     io_step pb s t (t\<lparr>io_ptr := Some k,
       io_heap := (case io_ptr t of None \<Rightarrow> io_heap t | Some old \<Rightarrow> (io_heap t)(old := None)),
       io_pc := (io_pc t)(c := In_loop)\<rparr>)"
| io_empty: "io_pc t c = In_loop \<Longrightarrow> io_input t c = [] \<Longrightarrow> io_step pb s t (t\<lparr>io_pc := (io_pc t)(c := Idle)\<rparr>)"
| io_loads: "io_pc t c = In_loop \<Longrightarrow> io_input t c \<noteq> [] \<Longrightarrow> io_ptr t = Some k \<Longrightarrow>
     io_step pb s t (t\<lparr>io_pc := (io_pc t)(c := In_frame k)\<rparr>)"
| io_frame: "io_pc t c = In_frame k \<Longrightarrow> io_heap t k = Some codec \<Longrightarrow>
     frame_round s codec (io_input t c) = (rest, evs, go_on) \<Longrightarrow>
     io_step pb s t (t\<lparr>io_input := (io_input t)(c := rest), io_out := (io_out t)(c := io_out t c @ evs),
       io_pc := (io_pc t)(c := if go_on then In_loop else Idle)\<rparr>)"

section \<open>One codec for all connections\<close>

lemma message_loop_round:
  "message_loop s codec buf = (if buf = [] then ([], []) else
     case frame_round s codec buf of (rest, evs, go_on) \<Rightarrow>
       if go_on then (case message_loop s codec rest of (r, evs') \<Rightarrow> (r, evs @ evs')) else (rest, evs))"
  by (subst message_loop.simps) (auto simp: frame_round_def Let_def split: prod.splits)

lemma frame_round_shrinks: "frame_round s codec buf = (rest, evs, True) \<Longrightarrow> buf \<noteq> [] \<Longrightarrow> length rest < length buf"
  by (auto simp: frame_round_def Let_def split: prod.splits if_splits)

lemma receive_snoc:
  "receive pb s buf (segs @ [seg]) =
     (case receive pb s buf segs of (s1, buf1, evs1) \<Rightarrow>
        case OnMessage pb s1 (buf1 @ seg) of (s2, buf2, evs2) \<Rightarrow> (s2, buf2, evs1 @ evs2))"
  by (induction segs arbitrary: s buf) (auto simp: Let_def split: prod.splits)

text \<open>The state of one connection against the callbacks run one after the other: an idle connection is
  where \<open>receive\<close> ends, a running callback still has its loop to do.\<close>

fun conn_ok :: "protobuf \<Rightarrow> ('req, 'resp) RpcServer \<Rightarrow> ServerCodec \<Rightarrow> callback_pc \<Rightarrow> bytes list \<Rightarrow> bytes \<Rightarrow> conn_event list
    \<Rightarrow> bool" where
  "conn_ok pb s codec Idle segs buf out \<longleftrightarrow> receive pb s [] segs = (s, buf, out)"
| "conn_ok pb s codec No_codec segs buf out \<longleftrightarrow> False"
| "conn_ok pb s codec (Made k) segs buf out \<longleftrightarrow> False"
| "conn_ok pb s codec (In_frame k) segs buf out \<longleftrightarrow> k = 0 \<and> buf \<noteq> []
     \<and> receive pb s [] segs = (s, fst (message_loop s codec buf), out @ snd (message_loop s codec buf))"
| "conn_ok pb s codec pc segs buf out \<longleftrightarrow>
     receive pb s [] segs = (s, fst (message_loop s codec buf), out @ snd (message_loop s codec buf))"

definition io_inv :: "protobuf \<Rightarrow> ('req, 'resp) RpcServer \<Rightarrow> ServerCodec \<Rightarrow> io_state \<Rightarrow> bool" where
  "io_inv pb s codec t \<longleftrightarrow> io_ptr t = Some 0 \<and> io_heap t 0 = Some codec
     \<and> (\<forall>c. conn_ok pb s codec (io_pc t c) (io_segs t c) (io_input t c) (io_out t c))"

lemma io_inv_init: "io_inv pb s codec (io_init (Some codec))"
  by (simp add: io_inv_def io_init_def)

lemma io_inv_conn: "io_inv pb s codec t \<Longrightarrow> conn_ok pb s codec (io_pc t c) (io_segs t c) (io_input t c) (io_out t c)"
  by (simp add: io_inv_def)

lemma io_inv_step:
  assumes s: "serverCodec s = Some codec"
  shows "io_step pb s t t' \<Longrightarrow> io_inv pb s codec t \<Longrightarrow> io_inv pb s codec t'"
proof (induction rule: io_step.induct)
  case (io_arrives t c seg)
  with io_inv_conn [of pb s codec t c] show ?case
    by (auto simp: io_inv_def receive_snoc OnMessage_codec [OF s] split: prod.splits)
next
  case (io_frame t c k codec' rest evs go_on)
  with io_inv_conn [of pb s codec t c] have "codec' = codec"
    by (auto simp: io_inv_def)
  with io_frame io_inv_conn [of pb s codec t c] show ?case
    by (auto simp: io_inv_def message_loop_round [of s codec "io_input t c"] split: prod.splits if_splits)
next
  case (io_empty t c)
  with io_inv_conn [of pb s codec t c] show ?case
    by (auto simp: io_inv_def message_loop_round [of s codec "[]"])
next
  case (io_has_codec t c)
  with io_inv_conn [of pb s codec t c] show ?case
    by (auto simp: io_inv_def)
next
  case (io_no_codec t c)
  then show ?case
    by (simp add: io_inv_def)
next
  case (io_makes t c)
  with io_inv_conn [of pb s codec t c] show ?case
    by simp
next
  case (io_assigns t c k)
  with io_inv_conn [of pb s codec t c] show ?case
    by simp
next
  case (io_loads t c k)
  with io_inv_conn [of pb s codec t c] show ?case
    by (auto simp: io_inv_def)
qed

lemma io_inv_reach:
  assumes s: "serverCodec s = Some codec"
  shows "(io_step pb s)\<^sup>*\<^sup>* t t' \<Longrightarrow> io_inv pb s codec t \<Longrightarrow> io_inv pb s codec t'"
  by (induction rule: rtranclp_induct) (auto intro: io_inv_step [OF s])

section \<open>A callback ends by itself\<close>

text \<open>A running callback needs no other connection to go on, and takes in no further bytes.\<close>

lemma loop_ends:
  assumes "io_ptr t = Some k" "io_heap t k = Some codec" "io_pc t c = In_loop"
  shows "\<exists>t'. (io_step pb s)\<^sup>*\<^sup>* t t' \<and> io_pc t' c = Idle \<and> io_segs t' = io_segs t"
  using assms
proof (induction "length (io_input t c)" arbitrary: t rule: less_induct)
  case less
  show ?case
  proof (cases "io_input t c = []")
    case True
    with less.prems(3) io_empty [of t c pb s] show ?thesis
      by (intro exI [of _ "t\<lparr>io_pc := (io_pc t)(c := Idle)\<rparr>"]) auto
  next
    case False
    let ?t = "t\<lparr>io_pc := (io_pc t)(c := In_frame k)\<rparr>"
    obtain rest evs go_on where r: "frame_round s codec (io_input t c) = (rest, evs, go_on)"
      by (cases "frame_round s codec (io_input t c)")
    let ?u = "?t\<lparr>io_input := (io_input ?t)(c := rest), io_out := (io_out ?t)(c := io_out ?t c @ evs),
       io_pc := (io_pc ?t)(c := if go_on then In_loop else Idle)\<rparr>"
    have step: "io_step pb s t ?t"
      by (rule io_loads [OF less.prems(3) False less.prems(1)])
    moreover have "io_step pb s ?t ?u"
      by (rule io_frame [of ?t c k codec]) (simp_all add: less.prems(2) r)
    ultimately have two: "(io_step pb s)\<^sup>*\<^sup>* t ?u"
      by (meson converse_rtranclp_into_rtranclp rtranclp.rtrancl_refl)
    show ?thesis
    proof (cases go_on)
      case True
      then have "length (io_input ?u c) < length (io_input t c)"
        using frame_round_shrinks [of s codec "io_input t c" rest evs] r False by simp
      from less.hyps [OF this] less.prems True obtain t' where "(io_step pb s)\<^sup>*\<^sup>* ?u t'" "io_pc t' c = Idle" "io_segs t' = io_segs t"
        by auto
      with two show ?thesis
        by (meson rtranclp_trans)
    next
      case False
      with two show ?thesis
        by (intro exI [of _ ?u]) simp
    qed
  qed
qed

lemma callback_ends:
  assumes inv: "io_inv pb s codec t"
  shows "\<exists>t'. (io_step pb s)\<^sup>*\<^sup>* t t' \<and> io_pc t' c = Idle \<and> io_segs t' = io_segs t"
proof -
  have ptr: "io_ptr t = Some 0" "io_heap t 0 = Some codec"
    using inv by (simp_all add: io_inv_def)
  have more: "\<exists>t'. (io_step pb s)\<^sup>*\<^sup>* t t' \<and> io_pc t' c = Idle \<and> io_segs t' = io_segs t"
    if u: "io_step pb s t u" "io_pc u c = In_loop \<or> io_pc u c = Idle" "io_ptr u = Some 0" "io_heap u 0 = Some codec" "io_segs u = io_segs t" for u
  proof -
    obtain t' where "(io_step pb s)\<^sup>*\<^sup>* u t'" "io_pc t' c = Idle" "io_segs t' = io_segs u"
      using u(2) loop_ends [OF u(3,4), of c pb s] by blast
    with u(1,5) show ?thesis
      by (metis converse_rtranclp_into_rtranclp)
  qed
  show ?thesis
  proof (cases "io_pc t c")
    case Idle
    then show ?thesis by blast
  next
    case At_test
    with ptr show ?thesis
      by (intro more [OF io_has_codec [of t c]]) simp_all
  next
    case In_loop
    then show ?thesis by (rule loop_ends [OF ptr])
  next
    case (In_frame k)
    obtain rest evs go_on where r: "frame_round s codec (io_input t c) = (rest, evs, go_on)"
      by (cases "frame_round s codec (io_input t c)")
    have "io_heap t k = Some codec"
      using io_inv_conn [OF inv, of c] In_frame ptr by simp
    from In_frame ptr show ?thesis
      by (intro more [OF io_frame [OF In_frame \<open>io_heap t k = Some codec\<close> r]]) simp_all
  qed (use io_inv_conn [OF inv, of c] in simp_all)
qed

section \<open>What the clients see\<close>

text \<open>C25: connections do not disturb each other once the codec is there. However the callbacks of any number
  of connections interleave, a connection at rest has been sent, and has left in its buffer, exactly what
  it would if it were alone; no callback uses a codec that has been destroyed; and the callback of a
  connection can always come to its end, whatever the other connections do.\<close>

theorem connections_isolated:
  assumes s: "serverCodec s = Some codec" and run: "(io_step pb s)\<^sup>*\<^sup>* (io_init (Some codec)) t"
  shows "(\<forall>c. io_pc t c = Idle \<longrightarrow> receive pb s [] (io_segs t c) = (s, io_input t c, io_out t c))
    \<and> (\<forall>c k. io_pc t c = In_frame k \<longrightarrow> io_heap t k \<noteq> None)
    \<and> (\<forall>c. \<exists>t'. (io_step pb s)\<^sup>*\<^sup>* t t' \<and> io_pc t' c = Idle \<and> io_segs t' = io_segs t
         \<and> io_out t' c = snd (snd (receive pb s [] (io_segs t c))))"
proof (intro conjI allI impI)
  have inv: "io_inv pb s codec t"
    by (rule io_inv_reach [OF s run io_inv_init])
  fix c k
  show "io_pc t c = Idle \<Longrightarrow> receive pb s [] (io_segs t c) = (s, io_input t c, io_out t c)"
    using io_inv_conn [OF inv, of c] by simp
  show "io_pc t c = In_frame k \<Longrightarrow> io_heap t k \<noteq> None"
    using io_inv_conn [OF inv, of c] inv by (simp add: io_inv_def)
  obtain t' where t': "(io_step pb s)\<^sup>*\<^sup>* t t'" "io_pc t' c = Idle" "io_segs t' = io_segs t"
    using callback_ends [OF inv, of c] by blast
  then have "receive pb s [] (io_segs t c) = (s, io_input t' c, io_out t' c)"
    using io_inv_conn [OF io_inv_reach [OF s t'(1) inv], of c] by simp
  with t' show "\<exists>t'. (io_step pb s)\<^sup>*\<^sup>* t t' \<and> io_pc t' c = Idle \<and> io_segs t' = io_segs t
         \<and> io_out t' c = snd (snd (receive pb s [] (io_segs t c)))"
    by (intro exI [of _ t']) simp
qed

text \<open>In particular every legacy client gets the answers to its own requests, in its own order.\<close>

lemma clients_answered:
  assumes s: "serverCodec s = Some (LegacyServerCodec pb)"
    and run: "(io_step pb s)\<^sup>*\<^sup>* (io_init (Some (LegacyServerCodec pb))) t" "io_pc t c = Idle"
    and reqs: "concat (io_segs t c) = concat (map (\<lambda>(h, body, rh). legacy_request_frame h body) reqs)" "reqs \<noteq> []"
      "\<forall>(h, body, rh) \<in> set reqs. 4 + length h + length body \<le> kMaxFrameSize \<and> ParseRpcHeader pb h = Some rh"
  shows "io_out t c = concat (map (\<lambda>(h, body, rh). dispatch s (LegacyServerCodec pb) (legacy_message rh body)) reqs)"
proof -
  have "receive pb s [] (io_segs t c) = (s, io_input t c, io_out t c)"
    using io_inv_conn [OF io_inv_reach [OF s run(1) io_inv_init], of c] run(2) by simp
  moreover have "length (legacy_request_frame h body) \<noteq> 0" for h body
    by (simp add: legacy_request_frame_def byte_simps)
  then have "io_segs t c \<noteq> []"
    using reqs(1,2) by (cases reqs) (auto simp only: length_0_conv list.map concat.simps append_is_Nil_conv prod.case)
  ultimately show ?thesis
    using receive_requests [of s pb reqs "io_segs t c"] s reqs by simp
qed

text \<open>Without a codec two callbacks can both find none. The second assignment destroys the codec of the first
  while that is in use.\<close>

lemma codec_race:
  fixes b :: bytes
  assumes "b \<noteq> []"
  shows "\<exists>t. (io_step pb s)\<^sup>*\<^sup>* (io_init None) t \<and> io_pc t 0 = In_frame 1 \<and> io_heap t 1 = None"
proof -
  define t0 where "t0 = io_init None"
  define t1 where "t1 = t0\<lparr>io_segs := (io_segs t0)(0 := io_segs t0 0 @ [b]), io_input := (io_input t0)(0 := io_input t0 0 @ b),
    io_pc := (io_pc t0)(0 := At_test)\<rparr>"
  define t2 where "t2 = t1\<lparr>io_segs := (io_segs t1)(1 := io_segs t1 1 @ [b]), io_input := (io_input t1)(1 := io_input t1 1 @ b),
    io_pc := (io_pc t1)(1 := At_test)\<rparr>"
  define t3 where "t3 = t2\<lparr>io_pc := (io_pc t2)(0 := No_codec)\<rparr>"
  define t4 where "t4 = t3\<lparr>io_pc := (io_pc t3)(1 := No_codec)\<rparr>"
  define made where "made t c = t\<lparr>io_heap := (io_heap t)(io_next t \<mapsto>
      CreateServerCodec_auto pb (NoncontiguousBuffer_from (io_input t c))),
      io_next := Suc (io_next t), io_pc := (io_pc t)(c := Made (io_next t))\<rparr>" for t :: io_state and c
  define t5 where "t5 = made t4 0"
  define t6 where "t6 = made t5 1"
  define assigned where "assigned t c k = t\<lparr>io_ptr := Some k,
      io_heap := (case io_ptr t of None \<Rightarrow> io_heap t | Some old \<Rightarrow> (io_heap t)(old := None)),
      io_pc := (io_pc t)(c := In_loop)\<rparr>" for t :: io_state and c k
  define t7 where "t7 = assigned t6 0 1"
  define t8 where "t8 = t7\<lparr>io_pc := (io_pc t7)(0 := In_frame 1)\<rparr>"
  define t9 where "t9 = assigned t8 1 2"
  note defs = t0_def t1_def t2_def t3_def t4_def made_def t5_def t6_def assigned_def t7_def t8_def t9_def io_init_def
  have a: "io_step pb s t0 t1" "io_step pb s t1 t2"
    unfolding t1_def t2_def by (rule io_arrives, simp add: defs)+
  have b: "io_step pb s t2 t3" "io_step pb s t3 t4"
    unfolding t3_def t4_def by (rule io_no_codec, simp add: defs, simp add: defs)+
  have c: "io_step pb s t4 t5" "io_step pb s t5 t6"
    unfolding t5_def t6_def made_def by (rule io_makes, simp add: defs)+
  have d: "io_step pb s t6 t7" "io_step pb s t8 t9"
    unfolding t7_def t9_def assigned_def by (rule io_assigns, simp add: defs)+
  have e: "io_step pb s t7 t8"
    unfolding t8_def by (rule io_loads) (simp_all add: defs assms)
  have "(io_step pb s)\<^sup>*\<^sup>* t0 t9"
    by (rule converse_rtranclp_into_rtranclp, rule a(1), rule converse_rtranclp_into_rtranclp, rule a(2),
        rule converse_rtranclp_into_rtranclp, rule b(1), rule converse_rtranclp_into_rtranclp, rule b(2),
        rule converse_rtranclp_into_rtranclp, rule c(1), rule converse_rtranclp_into_rtranclp, rule c(2),
        rule converse_rtranclp_into_rtranclp, rule d(1), rule converse_rtranclp_into_rtranclp, rule e,
        rule r_into_rtranclp, rule d(2))
  moreover have "io_pc t9 0 = In_frame 1" "io_heap t9 1 = None"
    by (simp_all add: defs)
  ultimately show ?thesis
    unfolding t0_def by blast
qed

section \<open>Witness\<close>

text \<open>Two clients whose requests arrive before either callback has got further; the first one is answered.\<close>

theorem connections_isolated_witness:
  "\<exists>t. (io_step (sample_legacy_pb [10, 0]) (sample_server (Some (LegacyServerCodec (sample_legacy_pb [10, 0])))))\<^sup>*\<^sup>*
      (io_init (Some (LegacyServerCodec (sample_legacy_pb [10, 0])))) t
    \<and> io_segs t 0 = [legacy_request_frame [10, 0] [7]] \<and> io_segs t 1 = [legacy_request_frame [10, 0] [8]] \<and> io_pc t 0 = Idle
    \<and> io_out t 0 = dispatch (sample_server (Some (LegacyServerCodec (sample_legacy_pb [10, 0]))))
        (LegacyServerCodec (sample_legacy_pb [10, 0])) (legacy_message sample_rh [7])"
proof -
  let ?pb = "sample_legacy_pb [10, 0]"
  let ?s = "sample_server (Some (LegacyServerCodec ?pb))" and ?t0 = "io_init (Some (LegacyServerCodec ?pb))"
  let ?arrive = "\<lambda>t c seg. t\<lparr>io_segs := (io_segs t)(c := io_segs t c @ [seg]), io_input := (io_input t)(c := io_input t c @ seg),
    io_pc := (io_pc t)(c := At_test)\<rparr>"
  let ?t1 = "?arrive ?t0 0 (legacy_request_frame [10, 0] [7])"
  let ?t2 = "?arrive ?t1 1 (legacy_request_frame [10, 0] [8])"
  have a: "io_step ?pb ?s ?t0 ?t1" "io_step ?pb ?s ?t1 ?t2"
    by (rule io_arrives, simp add: io_init_def)+
  have run: "(io_step ?pb ?s)\<^sup>*\<^sup>* ?t0 ?t2"
    by (rule converse_rtranclp_into_rtranclp, rule a(1), rule r_into_rtranclp, rule a(2))
  have segs: "io_segs ?t2 0 = [legacy_request_frame [10, 0] [7]]" "io_segs ?t2 1 = [legacy_request_frame [10, 0] [8]]"
    by (simp_all add: io_init_def)
  have all: "\<forall>c. \<exists>t'. (io_step ?pb ?s)\<^sup>*\<^sup>* ?t2 t' \<and> io_pc t' c = Idle \<and> io_segs t' = io_segs ?t2
      \<and> io_out t' c = snd (snd (receive ?pb ?s [] (io_segs ?t2 c)))"
    by (rule connections_isolated [OF sample_server_codec run, THEN conjunct2, THEN conjunct2])
  obtain t' where t': "(io_step ?pb ?s)\<^sup>*\<^sup>* ?t2 t'" "io_pc t' 0 = Idle" "io_segs t' = io_segs ?t2"
      "io_out t' 0 = snd (snd (receive ?pb ?s [] (io_segs ?t2 0)))"
    using all [THEN spec, of 0] by (elim exE conjE)
  have "snd (snd (receive ?pb ?s [] (io_segs ?t2 0))) = dispatch ?s (LegacyServerCodec ?pb) (legacy_message sample_rh [7])"
    unfolding segs using receive_requests [of ?s ?pb "[([10, 0], [7], sample_rh)]" "[legacy_request_frame [10, 0] [7]]"]
    by (simp add: kMaxFrameSize_def sample_rh_def del: receive.simps)
  then have out: "io_out t' 0 = dispatch ?s (LegacyServerCodec ?pb) (legacy_message sample_rh [7])"
    using t'(4) by (rule trans [rotated])
  have segs': "io_segs t' 0 = [legacy_request_frame [10, 0] [7]]" "io_segs t' 1 = [legacy_request_frame [10, 0] [8]]"
    unfolding t'(3) by (fact segs)+
  show ?thesis
    by (intro exI [of _ t'] conjI rtranclp_trans [OF run t'(1)] segs' t'(2) out)
qed

end
