(* ===== verification/Stream_Format.thy ===== *)
theory Stream_Format
  imports Libc Ieee_Double
begin

text \<open>
  What the manipulators \<^verbatim>\<open>setw\<close>, \<^verbatim>\<open>left\<close>, \<^verbatim>\<open>fixed\<close> and \<^verbatim>\<open>setprecision\<close> of the output streams make of a number,
  for the reports of the library and of the tools.
\<close>

section \<open>Numbers as text\<close>

definition setw :: "nat \<Rightarrow> bytes \<Rightarrow> bytes" where
  "setw w t = replicate (w - length t) (ch CHR '' '') @ t"

definition setw_left :: "nat \<Rightarrow> bytes \<Rightarrow> bytes" where
  "setw_left w t = t @ replicate (w - length t) (ch CHR '' '')"

text \<open>A number in fixed notation: the nearest decimal with \<open>p\<close> places.\<close>

definition decimal :: "nat \<Rightarrow> rat \<Rightarrow> nat" where
  "decimal p x = nat (half_even (\<bar>x\<bar> * 10 ^ p))"

definition fraction_text :: "nat \<Rightarrow> nat \<Rightarrow> bytes" where
  "fraction_text p n = (let t = dec_nat (n mod 10 ^ p) in replicate (p - length t) (digit 0) @ t)"

definition fixed_text :: "nat \<Rightarrow> rat \<Rightarrow> bytes" where
  "fixed_text p x =
     (let n = decimal p x
      in (if x < 0 then [ch CHR ''-''] else []) @ dec_nat (n div 10 ^ p)
           @ (if p = 0 then [] else ch CHR ''.'' # fraction_text p n))"

definition count_line :: "string \<Rightarrow> nat \<Rightarrow> int \<Rightarrow> bytes" where
  "count_line label w n = lit label @ setw w (dec_int n)"

definition figure_line :: "string \<Rightarrow> nat \<Rightarrow> nat \<Rightarrow> rat \<Rightarrow> string \<Rightarrow> bytes" where
  "figure_line label w p x unit_text = lit label @ setw w (fixed_text p x) @ lit unit_text"

text \<open>Characters of the source that are not ASCII, in its encoding: the lines of frames and a full block.\<close>

definition box :: "nat \<Rightarrow> bytes" where
  "box k = [0xE2, 0x95, word_of_nat k]"

definition repeat_text :: "nat \<Rightarrow> bytes \<Rightarrow> bytes" where
  "repeat_text n t = concat (replicate n t)"

definition full_block :: bytes where
  "full_block = [0xE2, 0x96, 0x88]"

section \<open>What the text says\<close>

lemma length_setw: "length (setw w t) = max w (length t)"
  by (simp add: setw_def)

lemma length_setw_left: "length (setw_left w t) = max w (length t)"
  by (simp add: setw_left_def)

lemma length_box [simp]: "length (box k) = 3"
  by (simp add: box_def)

lemma length_repeat_text [simp]: "length (repeat_text n t) = n * length t"
  by (simp add: repeat_text_def length_concat sum_list_replicate)

lemma digits_value_append: "digits_value (a @ b) = digits_value a * 10 ^ length b + digits_value b"
proof (induction b rule: rev_induct)
  case (snoc c b)
  have "digits_value (a @ b @ [c]) = 10 * digits_value (a @ b) + (unat c - 48)"
    using digits_value_snoc [of "a @ b" c] by simp
  with snoc show ?case
    by (simp add: algebra_simps)
qed (simp add: digits_value_def)

lemma digits_value_zeros: "digits_value (replicate k (digit 0)) = 0"
  by (induction k) (simp_all add: digits_value_def unat_digit)

lemma length_dec_nat: "n < 10 ^ p \<Longrightarrow> 0 < p \<Longrightarrow> length (dec_nat n) \<le> p"
proof (induction p arbitrary: n)
  case (Suc p)
  show ?case
  proof (cases "n < 10")
    case True
    then show ?thesis by (subst dec_nat.simps) simp
  next
    case False
    with Suc.prems have "n div 10 < 10 ^ p" "0 < p"
      by (auto intro: Nat.gr0I)
    with Suc.IH [of "n div 10"] False show ?thesis
      by (subst dec_nat.simps) simp
  qed
qed simp

text \<open>The digits on the two sides of the point are those of the rounded number, and that is within half
  a unit of the last place shown.\<close>

lemma fraction_text_value:
  assumes "0 < p"
  shows "length (fraction_text p n) = p" "digits_value (fraction_text p n) = n mod 10 ^ p"
  using length_dec_nat [of "n mod 10 ^ p" p] assms
  by (simp_all add: fraction_text_def Let_def digits_value_append digits_value_zeros digits_value_dec)

lemma decimal_error: "\<bar>of_nat (decimal p x) / 10 ^ p - \<bar>x\<bar>\<bar> \<le> 1 / (2 * 10 ^ p)"
proof -
  have "0 \<le> half_even (\<bar>x\<bar> * 10 ^ p)"
    using half_even_mono [of 0 "\<bar>x\<bar> * 10 ^ p"] half_even_of_int [of 0] by simp
  then have "of_nat (decimal p x) = (of_int (half_even (\<bar>x\<bar> * 10 ^ p)) :: rat)"
    by (simp add: decimal_def)
  then have "of_nat (decimal p x) / 10 ^ p - \<bar>x\<bar> = (of_int (half_even (\<bar>x\<bar> * 10 ^ p)) - \<bar>x\<bar> * 10 ^ p) / 10 ^ p"
    by (simp add: diff_divide_distrib)
  then show ?thesis
    using divide_right_mono [OF half_even_error [of "\<bar>x\<bar> * 10 ^ p"], of "10 ^ p"] by (simp add: abs_divide)
qed

lemma fixed_text_digits:
  assumes "0 \<le> x" "0 < p"
  shows "\<exists>whole frac. fixed_text p x = whole @ ch CHR ''.'' # frac \<and> length frac = p
    \<and> \<bar>of_nat (digits_value (whole @ frac)) / 10 ^ p - x\<bar> \<le> 1 / (2 * 10 ^ p)"
proof (intro exI conjI)
  let ?n = "decimal p x"
  show "fixed_text p x = dec_nat (?n div 10 ^ p) @ ch CHR ''.'' # fraction_text p ?n"
    using assms by (simp add: fixed_text_def Let_def)
  show "length (fraction_text p ?n) = p"
    by (rule fraction_text_value [OF assms(2)])
  have "digits_value (dec_nat (?n div 10 ^ p) @ fraction_text p ?n) = ?n"
    by (simp add: digits_value_append fraction_text_value [OF assms(2)] digits_value_dec div_mult_mod_eq)
  then show "\<bar>of_nat (digits_value (dec_nat (?n div 10 ^ p) @ fraction_text p ?n)) / 10 ^ p - x\<bar> \<le> 1 / (2 * 10 ^ p)"
    using decimal_error [of p x] assms by simp
qed

text \<open>A number below \<open>10\<^sup>k\<close> takes at most \<open>k\<close> digits in front of the point.\<close>

lemma decimal_le: "0 \<le> x \<Longrightarrow> x \<le> of_nat n \<Longrightarrow> decimal p x \<le> n * 10 ^ p"
proof -
  assume "0 \<le> x" "x \<le> of_nat n"
  then have "half_even (\<bar>x\<bar> * 10 ^ p) \<le> half_even (of_int (int (n * 10 ^ p)))"
    by (intro half_even_mono) (simp add: mult_right_mono)
  then show ?thesis
    unfolding half_even_of_int by (simp add: decimal_def nat_le_iff)
qed

lemma length_fixed_text:
  assumes "0 \<le> x" "x \<le> of_nat (10 ^ k - 1)" "0 < k" "0 < p"
  shows "length (fixed_text p x) \<le> k + 1 + p"
proof -
  have "decimal p x div 10 ^ p \<le> 10 ^ k - 1"
    using div_le_mono [OF decimal_le [OF assms(1,2), of p], of "10 ^ p"] by simp
  moreover have "0 < (10 :: nat) ^ k"
    by simp
  ultimately have "decimal p x div 10 ^ p < 10 ^ k"
    by linarith
  with length_dec_nat [OF this assms(3)] show ?thesis
    using assms(1,4) by (simp add: fixed_text_def Let_def fraction_text_value)
qed

end
