(* ===== verification/Ieee_Sqrt.thy ===== *)
theory Ieee_Sqrt
  imports Ieee_Double
begin

text \<open>
  The function \<^verbatim>\<open>std::sqrt\<close> on \<^verbatim>\<open>double\<close>: the exact square root rounded to the nearest number with a 53-bit
  significand. It is computed on integers, and compared with the square root of the reals.
\<close>

section \<open>Integer square root\<close>

fun isqrt :: "nat \<Rightarrow> nat" where
  "isqrt n =
     (if n = 0 then 0
      else let r = 2 * isqrt (n div 4) in if (r + 1) * (r + 1) \<le> n then r + 1 else r)"

declare isqrt.simps [simp del]

lemma isqrt_bounds: "isqrt n * isqrt n \<le> n \<and> n < (isqrt n + 1) * (isqrt n + 1)"
proof (induction n rule: isqrt.induct)
  case (1 n)
  show ?case
  proof (cases "n = 0")
    case True
    then show ?thesis by (simp add: isqrt.simps)
  next
    case False
    define k where "k = isqrt (n div 4)"
    have k: "k * k \<le> n div 4" "n div 4 < (k + 1) * (k + 1)"
      using 1 [OF False] by (simp_all add: k_def)
    then have "4 * (k * k) \<le> n" "n < 4 * ((k + 1) * (k + 1))"
      by linarith+
    then have "2 * k * (2 * k) \<le> n" "n < (2 * k + 1 + 1) * (2 * k + 1 + 1)"
      by (simp_all add: algebra_simps)
    with False show ?thesis
      by (subst (1 2 3 4) isqrt.simps) (simp add: Let_def k_def [symmetric])
  qed
qed

section \<open>The rounded square root\<close>

text \<open>With \<open>y\<close> the argument in units of the last place of the root, the root is \<open>isqrt \<lfloor>y\<rfloor>\<close> or one more,
  whichever is nearer.\<close>

definition nearest_root :: "rat \<Rightarrow> int" where
  "nearest_root y =
     (let r = int (isqrt (nat \<lfloor>y\<rfloor>)); mid = (of_int r + 1/2) * (of_int r + 1/2)
      in if y < mid then r else if mid < y then r + 1 else if even r then r else r + 1)"

definition dsqrt :: "rat \<Rightarrow> rat" where
  "dsqrt x =
     (if x \<le> 0 then 0
      else let u = 2 powi (binade x div 2 - 52) in of_int (nearest_root (x / (u * u))) * u)"

lemma nearest_root_error:
  assumes "0 \<le> y"
  shows "\<bar>of_int (nearest_root y) - sqrt (of_rat y)\<bar> \<le> 1/2"
proof -
  define r where "r = int (isqrt (nat \<lfloor>y\<rfloor>))"
  define mid where "mid = (of_int r + 1/2) * (of_int r + 1/2 :: rat)"
  let ?y = "of_rat y :: real"
  have r: "0 \<le> r" "r * r \<le> \<lfloor>y\<rfloor>" "\<lfloor>y\<rfloor> < (r + 1) * (r + 1)"
    using isqrt_bounds [of "nat \<lfloor>y\<rfloor>", unfolded of_nat_le_iff [where 'a = int, symmetric] of_nat_less_iff [where 'a = int, symmetric]] assms
    by (simp_all add: r_def algebra_simps)
  have "of_int (r * r) \<le> y" "y < of_int ((r + 1) * (r + 1))"
    using r(2,3) by (simp_all add: le_floor_iff floor_less_iff del: of_int_mult)
  then have "real_of_int (r * r) \<le> ?y" "?y < real_of_int ((r + 1) * (r + 1))"
    using of_rat_less_eq [where 'a = real, of "of_int (r * r)" y] of_rat_less [where 'a = real, of y "of_int ((r + 1) * (r + 1))"]
    by (simp_all only: of_rat_of_int_eq)
  then have root: "real_of_int r \<le> sqrt ?y" "sqrt ?y < real_of_int r + 1"
    using r(1) by (auto intro!: real_le_rsqrt real_less_lsqrt simp: power2_eq_square)
  have mid: "real_of_rat mid = (real_of_int r + 1/2) ^ 2"
    by (simp add: mid_def of_rat_mult of_rat_add of_rat_divide power2_eq_square)
  have le: "y \<le> mid \<Longrightarrow> sqrt ?y \<le> real_of_int r + 1/2"
    using r(1) mid by (metis of_rat_less_eq real_le_lsqrt add_nonneg_nonneg of_int_0_le_iff zero_le_divide_1_iff zero_le_numeral)
  have ge: "mid \<le> y \<Longrightarrow> real_of_int r + 1/2 \<le> sqrt ?y"
    using mid by (metis of_rat_less_eq real_le_rsqrt)
  show ?thesis
    using root le ge unfolding nearest_root_def r_def [symmetric] Let_def mid_def [symmetric]
    by (auto simp: abs_le_iff)
qed

lemma nearest_root_nonneg: "0 \<le> nearest_root y"
  by (simp add: nearest_root_def Let_def)

lemma dsqrt_nonneg: "0 \<le> dsqrt x"
  by (simp add: dsqrt_def Let_def nearest_root_nonneg)

lemma dsqrt_0 [simp]: "dsqrt 0 = 0"
  by (simp add: dsqrt_def)

text \<open>The relative error is at most half a unit in the last place.\<close>

lemma dsqrt_error:
  assumes "0 \<le> x"
  shows "\<bar>of_rat (dsqrt x) - sqrt (of_rat x)\<bar> \<le> sqrt (of_rat x) / 2 ^ 53"
proof (cases "x = 0")
  case False
  define h where "h = binade x div 2"
  define u where "u = (2 :: rat) powi (h - 52)"
  have u: "0 < u" "0 < real_of_rat u"
    by (simp_all add: u_def)
  define y where "y = x / (u * u)"
  have y: "0 \<le> y" "x = y * (u * u)"
    using assms u by (simp_all add: y_def)
  have "sqrt (of_rat x) = sqrt (of_rat y) * of_rat u"
    using u by (simp add: y(2) of_rat_mult real_sqrt_mult)
  moreover have "real_of_rat (dsqrt x) = of_int (nearest_root y) * of_rat u"
    using assms False by (simp add: dsqrt_def Let_def u_def y_def h_def of_rat_mult)
  ultimately have "\<bar>of_rat (dsqrt x) - sqrt (of_rat x)\<bar> = \<bar>of_int (nearest_root y) - sqrt (of_rat y)\<bar> * of_rat u"
    using u by (simp add: abs_mult flip: left_diff_distrib)
  also have "\<dots> \<le> 1/2 * of_rat u"
    using nearest_root_error [OF y(1)] u by (intro mult_right_mono) simp_all
  also have "\<dots> = real_of_rat (2 powi h) / 2 ^ 53"
    by (simp add: u_def power_int_diff of_rat_divide of_rat_power)
  also have "\<dots> \<le> sqrt (of_rat x) / 2 ^ 53"
  proof (intro divide_right_mono real_le_rsqrt)
    have "h + h \<le> binade x"
      by (simp add: h_def)
    then have "(2 :: rat) powi (h + h) \<le> 2 powi binade x"
      by (rule power_int_increasing) simp
    also have "\<dots> \<le> x"
      using binade_bounds(1) assms False by simp
    finally have "2 powi h * 2 powi h \<le> x"
      by (simp add: power_int_add [of "2 :: rat" h h, symmetric] del: power_int_add)
    then show "(real_of_rat (2 powi h)) ^ 2 \<le> of_rat x"
      by (simp add: power2_eq_square of_rat_less_eq flip: of_rat_mult)
  qed simp
  finally show ?thesis .
qed simp

end
