(* ===== verification/Throughput_Report.thy ===== *)
theory Throughput_Report
  imports Stream_Format Qps_Monitor Ieee_Sqrt
begin

text \<open>
  The reports at the end of \<^verbatim>\<open>tools/qps_benchmark.cc\<close>, \<^verbatim>\<open>example/caller/client.cc\<close> and
  \<^verbatim>\<open>example/caller/bench_client.cc\<close>: standard deviation, stability, verdicts, and the text of each line. A line is given without the frame drawn
  around it; headings and rulers are left out.
\<close>

section \<open>Spread of the samples\<close>

definition qps_stddev :: "rat list \<Rightarrow> rat" where
  "qps_stddev hist = dsqrt (bench_variance hist)"

definition client_stddev :: "rat list \<Rightarrow> rat" where
  "client_stddev hist = dsqrt (client_variance hist)"

definition stability :: "rat \<Rightarrow> rat \<Rightarrow> rat" where
  "stability avg stddev = (if avg > 0 then rnd (rnd (1 - rnd (stddev / avg)) * 100) else 0)"

definition variation :: "rat \<Rightarrow> rat \<Rightarrow> rat" where
  "variation avg stddev = (if avg > 0 then rnd (rnd (stddev / avg) * 100) else 0)"

datatype stability_verdict = Excellent | Good | High_variance

definition judge_stability :: "rat \<Rightarrow> stability_verdict" where
  "judge_stability s = (if s > 90 then Excellent else if s > 75 then Good else High_variance)"

definition peak_min_ratio :: "rat list \<Rightarrow> rat" where
  "peak_min_ratio hist = (if min_qps hist > 0 then rnd (peak_qps hist / min_qps hist) else 0)"

definition consistent :: "rat list \<Rightarrow> bool" where
  "consistent hist \<longleftrightarrow> min_qps hist > 0 \<and> rnd (peak_qps hist / min_qps hist) < rnd (13/10)"

section \<open>The lines of the monitors\<close>

text \<open>What a monitor prints at a tick: seconds since the start, then the rates of the interval, of the whole run, of
  the successes and of the failures, and the share of successes.\<close>

definition cumulative_qps :: "int \<Rightarrow> int \<Rightarrow> rat" where
  "cumulative_qps calls ns = rnd (rnd (of_int calls) / max (rnd (1/1000)) (seconds ns))"

definition tick_rates :: "int \<Rightarrow> tick \<Rightarrow> 'm qps_monitor_scheme \<Rightarrow> rat list" where
  "tick_rates start t m = (case t of (now, s, f) \<Rightarrow>
     let ns = now - qm_prev_time m; ds = s - qm_prev_success m; df = f - qm_prev_fail m
     in [interval_qps (ds + df) ns, cumulative_qps (s + f) (now - start), interval_qps ds ns, interval_qps df ns])"

definition tick_share :: "rat \<Rightarrow> tick \<Rightarrow> 'm qps_monitor_scheme \<Rightarrow> rat" where
  "tick_share none t m = (case t of (now, s, f) \<Rightarrow>
     let ds = s - qm_prev_success m; n = ds + (f - qm_prev_fail m) in if n > 0 then success_rate ds n else none)"

definition table_line :: "bytes \<Rightarrow> nat \<Rightarrow> int \<Rightarrow> rat list \<Rightarrow> bytes" where
  "table_line bar w secs rates =
     bar @ lit '' '' @ setw 6 (dec_int secs) @ concat (map (\<lambda>x. lit '' '' @ bar @ lit '' '' @ setw w (fixed_text 1 x)) rates)
       @ lit '' '' @ bar @ lit '' ''"

definition client_row :: "int \<Rightarrow> tick \<Rightarrow> client_monitor \<Rightarrow> bytes" where
  "client_row start t m =
     table_line (box 0x91) 8 (trunc (seconds (fst t - start))) (tick_rates start t m)
       @ setw 4 (fixed_text 1 (tick_share 0 t m)) @ lit ''%         '' @ box 0x91"

definition light_bar :: bytes where
  "light_bar = [0xE2, 0x94, 0x82]"

definition too_early :: "tick \<Rightarrow> 'm qps_monitor_scheme \<Rightarrow> bool" where
  "too_early t m \<longleftrightarrow> seconds (fst t - qm_prev_time m) < rnd (1/1000)"

definition qps_row :: "int \<Rightarrow> tick \<Rightarrow> qps_bench_monitor \<Rightarrow> bytes option" where
  "qps_row start t m =
     (if too_early t m then None
      else Some (table_line light_bar 10 (trunc (seconds (fst t - start))) (tick_rates start t m)
        @ setw 5 (fixed_text 1 (tick_share 100 t m)) @ lit ''%       '' @ light_bar))"

definition bench_row :: "int \<Rightarrow> tick \<Rightarrow> qps_monitor \<Rightarrow> bytes option" where
  "bench_row start t m =
     (if too_early t m then None
      else Some (lit ''| '' @ setw 4 (dec_int (trunc (seconds (fst t - start)))) @ lit ''s''
        @ concat (map (\<lambda>x. lit '' | '' @ setw 10 (fixed_text 1 x)) (tick_rates start t m))
        @ lit '' | '' @ setw 7 (fixed_text 1 (tick_share 100 t m)) @ lit ''%      |''))"

section \<open>The three reports\<close>

text \<open>The Chinese name of the coefficient of variation, in the encoding of the source file.\<close>

definition cv_name :: string where
  "cv_name = [CHR 0xE6, CHR 0xB3, CHR 0xA2, CHR 0xE5, CHR 0x8A, CHR 0xA8, CHR 0xE7, CHR 0xB3, CHR 0xBB, CHR 0xE6, CHR 0x95,
     CHR 0xB0]"

text \<open>\<^verbatim>\<open>qps_benchmark.cc\<close>: the figures, one line per segment, and the conclusions.\<close>

definition qps_report_lines :: "int \<Rightarrow> int \<Rightarrow> int \<Rightarrow> int \<Rightarrow> int \<Rightarrow> rat list \<Rightarrow> bytes list" where
  "qps_report_lines total_requests ns success fail lat_us hist =
     (let r = final_report_of ns success fail; avg = avg_interval_qps hist; sd = qps_stddev hist
      in [count_line ''Total Requests:   '' 12 total_requests,
          count_line ''Completed:        '' 12 (fr_total r),
          count_line ''Success:          '' 12 success,
          count_line ''Fail:             '' 12 fail,
          figure_line ''Elapsed:          '' 9 3 (seconds ns) '' s'',
          figure_line ''Success Rate:     '' 9 2 (fr_success_rate r) '' %'',
          figure_line ''Avg Latency:      '' 9 3 (average_latency lat_us success) '' ms'',
          figure_line ''Overall QPS:      '' 12 1 (fr_overall_qps r) ''  req/s'',
          figure_line ''Success QPS:      '' 12 1 (fr_success_qps r) ''  req/s'',
          figure_line ''Peak QPS:         '' 12 1 (peak_qps hist) ''  req/s'',
          figure_line ''Min QPS:          '' 12 1 (shown_min hist) ''  req/s'',
          figure_line ''Avg Interval QPS: '' 12 1 avg ''  req/s'',
          figure_line ''QPS StdDev:       '' 12 1 sd ''  req/s'',
          figure_line ''QPS Stability:    '' 9 1 (stability avg sd) '' %'',
          figure_line (''CV ('' @ cv_name @ ''):    '') 9 1 (variation avg sd) '' %''])"

record segment_row =
  sr_first :: nat
  sr_last :: nat
  sr_qps :: bytes
  sr_rate :: bytes
  sr_latency :: bytes
  sr_bar :: bytes

definition qps_segment_row :: "rat list \<Rightarrow> rat list \<Rightarrow> rat list \<Rightarrow> nat \<times> nat \<Rightarrow> segment_row" where
  "qps_segment_row hist rates lats seg =
     (let seg_avg = segment_average hist seg
      in \<lparr>sr_first = fst seg + 1, sr_last = snd seg,
          sr_qps = setw 8 (fixed_text 1 seg_avg), sr_rate = setw 5 (fixed_text 1 (segment_average rates seg)),
          sr_latency = setw 6 (fixed_text 2 (segment_average lats seg)),
          sr_bar = replicate (nat (qps_bar seg_avg (peak_qps hist))) (ch CHR ''#'')\<rparr>)"

record qps_conclusion =
  qc_stability :: stability_verdict
  qc_ratio :: bytes
  qc_consistent :: bool
  qc_max :: bytes
  qc_efficiency :: bytes
  qc_reliability :: reliability

definition qps_conclude :: "int \<Rightarrow> int \<Rightarrow> int \<Rightarrow> int \<Rightarrow> int \<Rightarrow> rat list \<Rightarrow> qps_conclusion" where
  "qps_conclude thread_count ns success fail lat_us hist =
     (let r = final_report_of ns success fail; lat = average_latency lat_us success
      in \<lparr>qc_stability = judge_stability (stability (avg_interval_qps hist) (qps_stddev hist)),
          qc_ratio = fixed_text 1 (peak_min_ratio hist), qc_consistent = consistent hist,
          qc_max = fixed_text 0 (theoretical_max thread_count lat),
          qc_efficiency = fixed_text 1 (efficiency (fr_overall_qps r) lat thread_count),
          qc_reliability = judge_rate (fr_success_rate r)\<rparr>)"

text \<open>\<^verbatim>\<open>client.cc\<close>: the part on the samples is printed when there are any.\<close>

definition client_report_lines :: "int \<Rightarrow> int \<Rightarrow> int \<Rightarrow> int \<Rightarrow> bytes list" where
  "client_report_lines total_requests ns success fail =
     (let r = final_report_of ns success fail
      in [count_line ''Total Requests:     '' 10 total_requests,
          count_line ''Success Count:      '' 10 success,
          count_line ''Fail Count:         '' 10 fail,
          figure_line ''Elapsed Time:       '' 8 3 (seconds ns) '' s'',
          figure_line ''>> Overall QPS:     '' 10 1 (fr_overall_qps r) ''  req/s'',
          figure_line ''>> Success QPS:     '' 10 1 (fr_success_qps r) ''  req/s'',
          figure_line ''>> Fail QPS:        '' 10 1 (fr_fail_qps r) ''  req/s'',
          figure_line ''>> Success Rate:    '' 8 2 (fr_success_rate r) '' %''])"

definition client_spread_lines :: "client_monitor \<Rightarrow> bytes list" where
  "client_spread_lines m =
     (if cm_samples m > 0
      then let avg = rnd (cm_sum m / rnd (of_nat (cm_samples m)));
               sd = dsqrt (rnd (squares avg (qm_qps m) / rnd (of_nat (cm_samples m))))
           in [figure_line ''Peak QPS:           '' 10 1 (cm_peak m) ''  req/s'',
               figure_line ''Min QPS:            '' 10 1 (if cm_min m < 100000000000000000 then cm_min m else 0) ''  req/s'',
               figure_line ''Avg Interval QPS:   '' 10 1 avg ''  req/s'',
               figure_line ''QPS StdDev:         '' 10 1 sd ''  req/s'',
               figure_line ''QPS Stability:      '' 8 1 (stability avg sd) '' %'']
      else [])"

definition client_segment_row :: "client_monitor \<Rightarrow> nat \<times> nat \<Rightarrow> segment_row" where
  "client_segment_row m seg =
     (let seg_avg = segment_average (qm_qps m) seg
      in \<lparr>sr_first = fst seg + 1, sr_last = snd seg,
          sr_qps = setw 8 (fixed_text 1 seg_avg), sr_rate = setw 5 (fixed_text 1 (segment_average (qm_rate m) seg)),
          sr_latency = [], sr_bar = replicate (nat (client_bar seg_avg (cm_peak m))) (ch CHR ''#'')\<rparr>)"

text \<open>\<^verbatim>\<open>bench_client.cc\<close>.\<close>

definition bench_report_lines :: "int \<Rightarrow> int \<Rightarrow> int \<Rightarrow> int \<Rightarrow> rat list \<Rightarrow> bytes list" where
  "bench_report_lines total_requests ns success fail hist =
     (let r = final_report_of ns success fail; avg = avg_interval_qps hist; sd = qps_stddev hist
      in [count_line '' Total Requests:  '' 0 total_requests,
          count_line '' Completed:       '' 0 (fr_total r),
          count_line '' Success:         '' 0 success,
          count_line '' Fail:            '' 0 fail,
          figure_line '' Elapsed:         '' 0 3 (seconds ns) '' s'',
          figure_line '' Success Rate:    '' 0 2 (fr_success_rate r) ''%'',
          figure_line '' >> Overall QPS:  '' 0 1 (fr_overall_qps r) '' req/s'',
          figure_line '' >> Success QPS:  '' 0 1 (fr_success_qps r) '' req/s'',
          figure_line '' >> Peak QPS:     '' 0 1 (peak_qps hist) '' req/s'',
          figure_line '' >> Min QPS:      '' 0 1 (shown_min hist) '' req/s'',
          figure_line '' >> Avg Intv QPS: '' 0 1 avg '' req/s'',
          figure_line '' >> QPS StdDev:   '' 0 1 sd '' req/s'',
          figure_line '' >> Stability:    '' 0 1 (stability avg sd) ''%''])"

section \<open>Arguments\<close>

text \<open>The numbers of threads, of calls for each, and the period of the monitor in milliseconds.\<close>

record load_args =
  la_threads :: int
  la_calls :: int
  la_monitor_ms :: int

definition int_arg :: "bytes list \<Rightarrow> nat \<Rightarrow> int \<Rightarrow> int" where
  "int_arg argv i dflt = (if length argv > i then sint (atoi (c_str (argv ! i))) else dflt)"

definition qps_args :: "bytes list \<Rightarrow> load_args" where
  "qps_args argv = \<lparr>la_threads = int_arg argv 1 100, la_calls = int_arg argv 2 10000, la_monitor_ms = int_arg argv 3 1000\<rparr>"

definition bench_client_args :: "bytes list \<Rightarrow> (bytes \<times> 32 word \<times> load_args) option" where
  "bench_client_args argv =
     (if length argv < 3 then None
      else Some (c_str (argv ! 1), atoi (c_str (argv ! 2)),
        \<lparr>la_threads = int_arg argv 3 100, la_calls = int_arg argv 4 10000, la_monitor_ms = int_arg argv 5 1000\<rparr>))"

definition total_requests :: "load_args \<Rightarrow> int" where
  "total_requests a = la_threads a * la_calls a"

section \<open>Bounds of the figures\<close>

lemma squares_nonneg: "0 \<le> squares avg hist"
proof -
  have "0 \<le> acc \<Longrightarrow> 0 \<le> foldl (\<lambda>acc q. rnd (acc + rnd (rnd (q - avg) * rnd (q - avg)))) acc hist" for acc
    by (induction hist arbitrary: acc) (simp_all add: rnd_nonneg)
  then show ?thesis
    by (simp add: squares_def)
qed

lemma bench_variance_nonneg: "0 \<le> bench_variance hist"
  by (simp add: bench_variance_def Let_def rnd_nonneg squares_nonneg)

lemma stability_le: "0 \<le> sd \<Longrightarrow> stability avg sd \<le> 100"
proof (cases "avg > 0")
  case True
  assume "0 \<le> sd"
  with True have "0 \<le> rnd (sd / avg)"
    by (simp add: rnd_nonneg)
  then have "rnd (1 - rnd (sd / avg)) \<le> of_int 1"
    by (intro rnd_le_int) simp_all
  then have "rnd (rnd (1 - rnd (sd / avg)) * 100) \<le> of_int 100"
    by (intro rnd_le_int) simp_all
  with True show ?thesis
    by (simp add: stability_def)
qed (simp add: stability_def)

lemma stability_zero: "avg > 0 \<Longrightarrow> stability avg 0 = 100"
  using rnd_of_int [of 1] rnd_of_int [of 100] by (simp add: stability_def)

text \<open>A single sample is always called excellent, and no sample at all gives two verdicts that contradict
  each other.\<close>

lemma single_sample_excellent:
  assumes "0 < q" "rnd q = q"
  shows "judge_stability (stability (avg_interval_qps [q]) (qps_stddev [q])) = Excellent"
proof -
  have "rnd 1 = 1"
    using rnd_of_int [of 1] by simp
  then have "avg_interval_qps [q] = q" "bench_variance [q] = 0"
    using assms by (simp_all add: avg_interval_qps_def bench_variance_def squares_def double_sum_def)
  then show ?thesis
    using stability_zero [OF assms(1)] by (simp add: qps_stddev_def judge_stability_def)
qed

lemma no_sample_verdicts:
  "judge_stability (stability (avg_interval_qps []) (qps_stddev [])) = High_variance" "consistent []"
proof -
  show "judge_stability (stability (avg_interval_qps []) (qps_stddev [])) = High_variance"
    by (simp add: avg_interval_qps_def stability_def judge_stability_def)
  have "rnd 1 \<le> rnd (13/10)"
    by (rule rnd_mono) simp_all
  then show "consistent []"
    using rnd_of_int [of 1] by (simp add: consistent_def min_qps_def peak_qps_def)
qed

text \<open>A line of the monitors agrees with what the tick records.\<close>

lemma client_row_recorded:
  assumes "qm_qps (client_tick t m) = qm_qps m @ [q]"
  shows "hd (tick_rates start t m) = q" "qm_rate (client_tick t m) = qm_rate m @ [tick_share 0 t m]"
  using assms by (cases t; auto simp: tick_rates_def tick_share_def Let_def split: if_splits)+

lemma qps_row_recorded:
  assumes "qm_qps (qps_tick (t, lat) m) = qm_qps m @ [q]"
  shows "qps_row start t m \<noteq> None \<and> hd (tick_rates start t m) = q \<and> qm_rate (qps_tick (t, lat) m) = qm_rate m @ [tick_share 100 t m]"
  using assms by (cases t) (auto simp: qps_row_def too_early_def tick_rates_def tick_share_def Let_def split: if_splits)

lemma bench_row_recorded:
  assumes "qm_qps (bench_tick t m) = qm_qps m @ [q]"
  shows "bench_row start t m \<noteq> None \<and> hd (tick_rates start t m) = q \<and> qm_rate (bench_tick t m) = qm_rate m @ [tick_share 100 t m]"
  using assms by (cases t) (auto simp: bench_row_def too_early_def tick_rates_def tick_share_def Let_def split: if_splits)

section \<open>The spread\<close>

text \<open>What the spread of the samples can be. For any samples between 0 and \<open>10\<^sup>1\<^sup>8\<close> calls a second, the
  standard deviation that \<^verbatim>\<open>qps_benchmark.cc\<close> and \<^verbatim>\<open>bench_client.cc\<close> report is not negative and is the
  real square root of the variance up to half a unit in the last place of a \<^verbatim>\<open>double\<close>; the stability is at
  most 100 percent, and with no deviation it is 100; the ratio of peak and minimum is at least 1, and the
  throughput is called consistent exactly if the ratio is below the rounded 1.3.\<close>

lemma throughput_spread:
  assumes hist: "hist \<noteq> []" "\<forall>q \<in> set hist. 0 < q \<and> q \<le> 1000000000000000000"
  shows "0 \<le> qps_stddev hist
    \<and> \<bar>of_rat (qps_stddev hist) - sqrt (of_rat (bench_variance hist))\<bar> \<le> sqrt (of_rat (bench_variance hist)) / 2 ^ 53
    \<and> stability (avg_interval_qps hist) (qps_stddev hist) \<le> 100
    \<and> (qps_stddev hist = 0 \<and> avg_interval_qps hist > 0 \<longrightarrow> stability (avg_interval_qps hist) (qps_stddev hist) = 100)
    \<and> 1 \<le> peak_min_ratio hist \<and> (consistent hist \<longleftrightarrow> peak_min_ratio hist < rnd (13/10))"
proof -
  have ex: "peak_qps hist = Max (set hist)" "min_qps hist = Min (set hist)"
    using extremes [of hist] hist by (auto intro: less_imp_le)
  have mins: "0 < min_qps hist" "min_qps hist \<le> peak_qps hist"
    using hist by (simp_all add: ex)
  then have "rnd 1 \<le> rnd (peak_qps hist / min_qps hist)"
    by (intro rnd_mono) simp_all
  then have "1 \<le> peak_min_ratio hist"
    using mins rnd_of_int [of 1] by (simp add: peak_min_ratio_def)
  moreover have "0 \<le> qps_stddev hist"
    by (simp add: qps_stddev_def dsqrt_nonneg)
  ultimately show ?thesis
    using mins dsqrt_error [OF bench_variance_nonneg [of hist]] stability_zero
    by (auto simp: stability_le consistent_def peak_min_ratio_def qps_stddev_def)
qed

text \<open>The figures of \<^verbatim>\<open>client.cc\<close> come from the running sums of the monitor, and are those of the history.\<close>

lemma client_spread_of_history:
  assumes "figures_ok m" "qm_qps m \<noteq> []"
  shows "client_spread_lines m =
    [figure_line ''Peak QPS:           '' 10 1 (peak_qps (qm_qps m)) ''  req/s'',
     figure_line ''Min QPS:            '' 10 1 (shown_min (qm_qps m)) ''  req/s'',
     figure_line ''Avg Interval QPS:   '' 10 1 (avg_interval_qps (qm_qps m)) ''  req/s'',
     figure_line ''QPS StdDev:         '' 10 1 (client_stddev (qm_qps m)) ''  req/s'',
     figure_line ''QPS Stability:      '' 8 1 (stability (avg_interval_qps (qm_qps m)) (client_stddev (qm_qps m))) '' %'']"
  using assms
  by (simp add: client_spread_lines_def figures_ok_def Let_def shown_min_def avg_interval_qps_def client_stddev_def client_variance_def)

end
