(* ===== verification/Logger.thy ===== *)
theory Logger
  imports Libc
begin

text \<open>
  The stand-in for glog of \<^verbatim>\<open>common/logger.h\<close>, which the tools have a copy of: a message collects its text in
  a stream of its own and writes it to the standard output when it is destroyed. The state is what has
  been written and the three flags. Other insertions than of strings have been turned to text before.
\<close>

section \<open>Messages\<close>

datatype LogSeverity = INFO | WARNING | ERROR | FATAL

definition label :: "LogSeverity \<Rightarrow> bytes" where
  "label severity = (case severity of INFO \<Rightarrow> lit ''I'' | WARNING \<Rightarrow> lit ''W'' | ERROR \<Rightarrow> lit ''E'' | FATAL \<Rightarrow> lit ''F'')"

record LogMessage =
  lm_stream :: bytes
  lm_severity :: LogSeverity

definition LogMessage_ctor :: "LogSeverity \<Rightarrow> LogMessage" where
  "LogMessage_ctor severity = \<lparr>lm_stream = lit ''['' @ label severity @ lit ''] '', lm_severity = severity\<rparr>"

definition insert_text :: "bytes \<Rightarrow> LogMessage \<Rightarrow> LogMessage" where
  "insert_text t m = m\<lparr>lm_stream := lm_stream m @ t\<rparr>"

record log_state =
  cout :: bytes
  FLAGS_colorlogtostderr :: bool
  FLAGS_logtostderr :: bool
  FLAGS_minloglevel :: LogSeverity

definition log_init :: log_state where
  "log_init = \<lparr>cout = [], FLAGS_colorlogtostderr = False, FLAGS_logtostderr = True, FLAGS_minloglevel = INFO\<rparr>"

definition LogMessage_destroy :: "LogMessage \<Rightarrow> log_state \<Rightarrow> log_state" where
  "LogMessage_destroy m st = st\<lparr>cout := cout st @ lm_stream m @ [newline]\<rparr>"

text \<open>A statement \<^verbatim>\<open>LOG(severity) << t1 << t2 ...;\<close>, and the conditional form.\<close>

definition LOG :: "LogSeverity \<Rightarrow> bytes list \<Rightarrow> log_state \<Rightarrow> log_state" where
  "LOG severity ts st = LogMessage_destroy (fold insert_text ts (LogMessage_ctor severity)) st"

definition LOG_IF :: "LogSeverity \<Rightarrow> bool \<Rightarrow> bytes list \<Rightarrow> log_state \<Rightarrow> log_state" where
  "LOG_IF severity condition ts st = (if \<not> condition then st else LOG severity ts st)"

definition Logger_ctor :: "log_state \<Rightarrow> log_state" where
  "Logger_ctor st = st\<lparr>FLAGS_colorlogtostderr := True, FLAGS_logtostderr := True, FLAGS_minloglevel := INFO\<rparr>"

definition Info :: "bytes \<Rightarrow> log_state \<Rightarrow> log_state" where
  "Info message = LOG INFO [message]"

definition Warning :: "bytes \<Rightarrow> log_state \<Rightarrow> log_state" where
  "Warning message = LOG WARNING [message]"

definition Error :: "bytes \<Rightarrow> log_state \<Rightarrow> log_state" where
  "Error message = LOG ERROR [message]"

definition Fatal :: "bytes \<Rightarrow> log_state \<Rightarrow> log_state" where
  "Fatal message = LOG FATAL [message]"

section \<open>The log can be read back\<close>

text \<open>A reader of the log: the lines, each with the severity its first bytes say.\<close>

definition read_label :: "byte \<Rightarrow> LogSeverity" where
  "read_label b = (if b = ch CHR ''I'' then INFO else if b = ch CHR ''W'' then WARNING
     else if b = ch CHR ''E'' then ERROR else FATAL)"

fun read_log :: "bytes \<Rightarrow> bytes \<Rightarrow> (LogSeverity \<times> bytes) list" where
  "read_log line [] = []"
| "read_log line (b # bs) =
     (if b = newline then (read_label (line ! 1), drop 4 line) # read_log [] bs else read_log (line @ [b]) bs)"

definition log_line :: "LogSeverity \<times> bytes \<Rightarrow> bytes" where
  "log_line m = lit ''['' @ label (fst m) @ lit ''] '' @ snd m @ [newline]"

lemma LOG_cout: "cout (LOG severity ts st) = cout st @ log_line (severity, concat ts)"
proof -
  have "lm_stream (fold insert_text ts m) = lm_stream m @ concat ts" for m
    by (induction ts arbitrary: m) (simp_all add: insert_text_def)
  then show ?thesis
    by (simp add: LOG_def LogMessage_destroy_def LogMessage_ctor_def log_line_def)
qed

lemma fold_LOG_cout:
  "cout (fold (\<lambda>(severity, ts). LOG severity ts) msgs st)
     = cout st @ concat (map (\<lambda>(severity, ts). log_line (severity, concat ts)) msgs)"
  by (induction msgs arbitrary: st) (auto simp: LOG_cout)

lemma read_log_prefix: "newline \<notin> set t \<Longrightarrow> read_log line (t @ bs) = read_log (line @ t) bs"
  by (induction t arbitrary: line) auto

lemma label_char: "\<exists>b. label severity = [b] \<and> read_label b = severity \<and> b \<noteq> newline"
  by (cases severity) (auto simp: label_def read_label_def ch_def newline_def)

lemma read_log_line:
  assumes "newline \<notin> set t"
  shows "read_log [] (log_line (severity, t) @ bs) = (severity, t) # read_log [] bs"
proof -
  obtain c where c: "label severity = [c]" "read_label c = severity" "c \<noteq> newline"
    using label_char by blast
  have frame: "newline \<notin> set (lit ''['' @ label severity @ lit ''] '' @ t)"
    using assms c by (auto simp: ch_def newline_def)
  have line: "log_line (severity, t) @ bs = (lit ''['' @ label severity @ lit ''] '' @ t) @ newline # bs"
    by (simp add: log_line_def)
  show ?thesis
    unfolding line read_log_prefix [OF frame] by (simp add: c)
qed

text \<open>Messages of one line each come back from the output as they were, in their order and with their
  severities, whatever the flags say: none is filtered, and a fatal one does not end the program.\<close>

lemma log_read_back:
  assumes "\<forall>(severity, ts) \<in> set msgs. newline \<notin> set (concat ts)"
  shows "read_log [] (cout (fold (\<lambda>(severity, ts). LOG severity ts) msgs (st\<lparr>cout := []\<rparr>)))
     = map (\<lambda>(severity, ts). (severity, concat ts)) msgs"
proof -
  have "read_log [] (concat (map (\<lambda>(severity, ts). log_line (severity, concat ts)) msgs))
      = map (\<lambda>(severity, ts). (severity, concat ts)) msgs"
    using assms by (induction msgs) (auto simp: read_log_line)
  then show ?thesis
    by (simp add: fold_LOG_cout)
qed

end
