(* ===== verification/Stats_Print.thy ===== *)
theory Stats_Print
  imports Stats_Report Stream_Format Logger
begin

text \<open>
  The text that \<^verbatim>\<open>RuntimeStats::PrintDetailedReport\<close> in \<^verbatim>\<open>src/monitor/runtime_stats.cc\<close> writes through the logger,
  byte for byte: the frame, a row per stage, the analysis of the bottlenecks and the warning.
\<close>

section \<open>Lines\<close>

definition stage_name :: "Stage \<Rightarrow> bytes" where
  "stage_name st = (case st of ZK_QUERY \<Rightarrow> lit ''ZK_QUERY'' | LOAD_BALANCE \<Rightarrow> lit ''LOAD_BALANCE'' | CONNECT \<Rightarrow> lit ''CONNECT''
     | SERIALIZE_REQ \<Rightarrow> lit ''SERIALIZE_REQ'' | ENCODE_REQ \<Rightarrow> lit ''ENCODE_REQ'' | NET_IO \<Rightarrow> lit ''NET_IO''
     | DECODE_RES \<Rightarrow> lit ''DECODE_RES'' | DESERIALIZE_RES \<Rightarrow> lit ''DESERIALIZE_RES'' | TOTAL \<Rightarrow> lit ''TOTAL'')"

abbreviation side :: bytes where
  "side \<equiv> box 0x91"

abbreviation column_end :: bytes where
  "column_end \<equiv> lit '' '' @ side @ lit '' ''"

definition rule_of :: "nat \<Rightarrow> bytes" where
  "rule_of n = repeat_text n (box 0x90)"

definition table_rule :: "nat \<Rightarrow> nat \<Rightarrow> nat \<Rightarrow> bytes" where
  "table_rule l m r = box l @ rule_of 18 @ box m @ rule_of 10 @ box m @ rule_of 10 @ box m @ rule_of 10 @ box m @ rule_of 10
     @ box m @ rule_of 14 @ box r"

definition table_head :: "bytes list" where
  "table_head =
     [[],
      box 0x94 @ rule_of 78 @ box 0x97,
      side @ lit ''                     XRPC Performance Statistics Report                      '' @ side,
      table_rule 0xA0 0xA6 0xA3,
      side @ lit '' Stage            '' @ side @ lit ''   Count  '' @ side @ lit ''  Avg ms  '' @ side @ lit ''  P50 ms  ''
        @ side @ lit ''  P95 ms  '' @ side @ lit ''  P99 / Max  '' @ side,
      table_rule 0xA0 0xAC 0xA3]"

definition stage_row :: "Stage \<times> PercentileResult \<Rightarrow> bytes" where
  "stage_row = (\<lambda>(st, r).
     side @ lit '' '' @ setw_left 16 (stage_name st) @ column_end @ setw 8 (dec_int (sint (pr_count r)))
       @ column_end @ setw 8 (fixed_text 3 (avg_ms r)) @ column_end @ setw 8 (fixed_text 3 (p50_ms r))
       @ column_end @ setw 8 (fixed_text 3 (p95_ms r))
       @ (if st = TOTAL
          then column_end @ setw 5 (fixed_text 3 (p99_ms r)) @ lit '' / '' @ setw 5 (fixed_text 3 (max_ms r)) @ lit '' '' @ side
          else column_end @ setw 12 (fixed_text 3 (p99_ms r)) @ lit '' '' @ side))"

text \<open>The length of the bar is undefined when the conversion of the share overflows.\<close>

definition bottleneck_line :: "StageWeight \<times> int option \<Rightarrow> bytes option" where
  "bottleneck_line = (\<lambda>(w, bar). map_option (\<lambda>n.
     lit ''  '' @ setw_left 16 (stage_name (sw_stage w)) @ lit '' '' @ setw 6 (fixed_text 2 (sw_p50 w)) @ lit ''ms | ''
       @ setw 5 (fixed_text 1 (sw_pct w)) @ lit ''% '' @ repeat_text (nat n) full_block) bar)"

definition warning_sign :: bytes where
  "warning_sign = [0xE2, 0x9A, 0xA0, 0xEF, 0xB8, 0x8F]"

definition tail_line :: "PercentileResult \<Rightarrow> bytes" where
  "tail_line r =
     warning_sign @ lit ''  Long-tail detected: P99 ('' @ fixed_text 2 (p99_ms r)
       @ lit ''ms) >> P95 ('' @ fixed_text 2 (p95_ms r) @ lit ''ms), ratio='' @ fixed_text 1 (rnd (p99_ms r / p95_ms r)) @ lit ''x''"

section \<open>The report\<close>

fun all_defined :: "'a option list \<Rightarrow> 'a list option" where
  "all_defined [] = Some []"
| "all_defined (x # xs) = (case (x, all_defined xs) of (Some y, Some ys) \<Rightarrow> Some (y # ys) | _ \<Rightarrow> None)"

definition analysis_lines :: "RuntimeStats \<Rightarrow> bytes list option" where
  "analysis_lines s =
     (if p50_ms (ComputePercentiles s TOTAL) > 0
      then map_option (\<lambda>ls. [[], lit ''--- Bottleneck Analysis (P50-based) ---''] @ ls @ [[]])
             (all_defined (map bottleneck_line (bottlenecks s)))
      else Some [])"

definition report_messages :: "RuntimeStats \<Rightarrow> (LogSeverity \<times> bytes list) list option" where
  "report_messages s =
     map_option (\<lambda>analysis.
       map (\<lambda>l. (INFO, [l])) (table_head @ map stage_row (report_rows s) @ [table_rule 0x9A 0xA9 0x9D] @ analysis)
       @ (if long_tail s then [(WARNING, [tail_line (ComputePercentiles s TOTAL)])] else []))
     (analysis_lines s)"

definition PrintDetailedReport :: "RuntimeStats \<Rightarrow> log_state \<Rightarrow> log_state option" where
  "PrintDetailedReport s st = map_option (\<lambda>msgs. fold (\<lambda>(severity, ts). LOG severity ts) msgs st) (report_messages s)"

section \<open>Every message is one line\<close>

text \<open>No byte of a formatted number, of a frame or of a text of the program is a line end.\<close>

lemma ch_newline [simp]: "ch c = newline \<longleftrightarrow> c = CHR 0x0A" "newline = ch c \<longleftrightarrow> c = CHR 0x0A"
proof -
  have "ch c = word_of_nat (of_char c)"
    by (simp add: ch_def of_char_def)
  then have "unat (ch c) = of_char c"
    using nat_of_char_less_256 [of c] by (simp add: unat_of_nat del: of_nat_of_char)
  moreover have "of_char c = (10 :: nat) \<Longrightarrow> c = CHR 0x0A"
    using of_char_eqI [where 'a = nat, of c "CHR 0x0A"] by simp
  ultimately show "ch c = newline \<longleftrightarrow> c = CHR 0x0A"
    by (auto simp: newline_def ch_def)
  then show "newline = ch c \<longleftrightarrow> c = CHR 0x0A"
    by auto
qed

lemma newline_digit [simp]: "newline \<noteq> digit 0"
  by (simp add: newline_def digit_def)

lemma newline_dec [simp]: "newline \<notin> set (dec_nat n)" "newline \<notin> set (dec_int i)"
  by (auto simp: isdigit_def newline_def ch_def dest!: dec_nat_digits dec_int_chars)

lemma newline_fixed [simp]: "newline \<notin> set (fixed_text p x)"
  by (auto simp: fixed_text_def fraction_text_def Let_def)

lemma newline_setw [simp]:
  "newline \<in> set (setw w t) \<longleftrightarrow> newline \<in> set t" "newline \<in> set (setw_left w t) \<longleftrightarrow> newline \<in> set t"
  by (auto simp: setw_def setw_left_def)

lemma newline_repeat [simp]: "newline \<notin> set t \<Longrightarrow> newline \<notin> set (repeat_text n t)"
  by (auto simp: repeat_text_def)

lemma newline_box [simp]: "newline \<notin> set (box 0x90)" "newline \<notin> set (box 0x91)" "newline \<notin> set (box 0x94)"
  "newline \<notin> set (box 0x97)" "newline \<notin> set (box 0x9A)" "newline \<notin> set (box 0x9D)" "newline \<notin> set (box 0xA0)"
  "newline \<notin> set (box 0xA3)" "newline \<notin> set (box 0xA6)" "newline \<notin> set (box 0xA9)" "newline \<notin> set (box 0xAC)"
  "newline \<notin> set full_block" "newline \<notin> set warning_sign"
  by (simp_all add: box_def newline_def full_block_def warning_sign_def)

lemma newline_rule [simp]: "newline \<notin> set (rule_of n)"
  by (simp add: rule_of_def)

lemma newline_stage [simp]: "newline \<notin> set (stage_name st)"
  by (cases st) (simp_all add: stage_name_def)

lemma newline_table_rule [simp]:
  "newline \<notin> set (table_rule 0xA0 0xA6 0xA3)" "newline \<notin> set (table_rule 0xA0 0xAC 0xA3)" "newline \<notin> set (table_rule 0x9A 0xA9 0x9D)"
  by (simp_all add: table_rule_def)

lemma newline_head: "\<forall>l \<in> set table_head. newline \<notin> set l"
  by (simp add: table_head_def)

lemma newline_row [simp]: "newline \<notin> set (stage_row x)"
  by (cases x) (simp add: stage_row_def)

lemma newline_bottleneck: "bottleneck_line x = Some l \<Longrightarrow> newline \<notin> set l"
  by (cases x) (auto simp: bottleneck_line_def)

lemma newline_tail [simp]: "newline \<notin> set (tail_line r)"
  by (simp add: tail_line_def)

lemma all_defined_mem: "all_defined xs = Some ys \<Longrightarrow> y \<in> set ys \<Longrightarrow> Some y \<in> set xs"
  by (induction xs arbitrary: ys) (auto split: option.splits)

lemma all_defined_Some: "\<forall>x \<in> set xs. \<exists>y. x = Some y \<Longrightarrow> \<exists>ys. all_defined xs = Some ys"
  by (induction xs) (auto split: option.splits)

lemma analysis_line:
  assumes "analysis_lines s = Some analysis" "l \<in> set analysis"
  shows "l = [] \<or> l = lit ''--- Bottleneck Analysis (P50-based) ---'' \<or> (\<exists>x. bottleneck_line x = Some l)"
proof (cases "p50_ms (ComputePercentiles s TOTAL) > 0")
  case True
  then obtain ls where ls: "all_defined (map bottleneck_line (bottlenecks s)) = Some ls"
      "analysis = [[], lit ''--- Bottleneck Analysis (P50-based) ---''] @ ls @ [[]]"
    using assms(1) by (auto simp: analysis_lines_def simp del: lit_Cons)
  have "\<exists>x. bottleneck_line x = Some l" if "l \<in> set ls"
    using all_defined_mem [OF ls(1) that] by (auto simp: eq_commute)
  then show ?thesis
    using assms(2) unfolding ls(2) by (auto simp del: lit_Cons)
next
  case False
  with assms show ?thesis
    by (simp add: analysis_lines_def)
qed

lemma report_messages_lines:
  assumes "report_messages s = Some msgs"
  shows "\<forall>(severity, ts) \<in> set msgs. newline \<notin> set (concat ts)"
proof -
  obtain analysis where a: "analysis_lines s = Some analysis"
    "msgs = map (\<lambda>l. (INFO, [l])) (table_head @ map stage_row (report_rows s) @ [table_rule 0x9A 0xA9 0x9D] @ analysis)
       @ (if long_tail s then [(WARNING, [tail_line (ComputePercentiles s TOTAL)])] else [])"
    using assms by (auto simp: report_messages_def)
  have "newline \<notin> set l" if "l \<in> set analysis" for l
    using analysis_line [OF a(1) that] by (auto simp: newline_bottleneck)
  with a(2) newline_head show ?thesis
    by auto
qed

text \<open>The report can be read back from the log: the messages between frame and warning are the rows of the
  recorded stages and the lines of the analysis, in this order.\<close>

lemma report_read_back:
  assumes "PrintDetailedReport s (st\<lparr>cout := []\<rparr>) = Some st'" "report_messages s = Some msgs"
  shows "read_log [] (cout st') = map (\<lambda>(severity, ts). (severity, concat ts)) msgs"
  using assms log_read_back [OF report_messages_lines [OF assms(2)], of st] by (simp add: PrintDetailedReport_def)

text \<open>On recorded times nothing in the report is undefined.\<close>

lemma report_defined:
  assumes "tracks s evs"
  shows "PrintDetailedReport s st \<noteq> None"
proof -
  have bar: "\<exists>n. bar_length (sw_pct (stage_weight s st)) = Some n" for st
    using bar_length_range [OF assms, of st] by auto
  have "\<forall>x \<in> set (map bottleneck_line (bottlenecks s)). \<exists>y. x = Some y"
    by (auto simp: bottlenecks_def bottleneck_line_def stage_weights_def intro: bar split: if_splits)
  from all_defined_Some [OF this]
  show ?thesis
    by (auto simp: PrintDetailedReport_def report_messages_def analysis_lines_def)
qed

text \<open>With figures that fit their columns the rows have one length, that of the frame, except the row of the
  total, which is a column wider than the frame.\<close>

definition row_fits :: "PercentileResult \<Rightarrow> bool" where
  "row_fits r \<longleftrightarrow> 0 \<le> sint (pr_count r) \<and> sint (pr_count r) < 10 ^ 8
     \<and> (\<forall>x \<in> {avg_ms r, p50_ms r, p95_ms r}. 0 \<le> x \<and> x \<le> 999) \<and> (\<forall>x \<in> {p99_ms r, max_ms r}. 0 \<le> x \<and> x \<le> 9)"

lemma length_stage_name: "length (stage_name st) \<le> 16"
  by (cases st) (simp_all add: stage_name_def)

lemma length_fixed_ge: "0 < p \<Longrightarrow> p + 2 \<le> length (fixed_text p x)"
  using dec_nat_not_Nil [of "decimal p x div 10 ^ p"]
  by (cases "dec_nat (decimal p x div 10 ^ p)") (auto simp: fixed_text_def Let_def fraction_text_value)

lemma row_length:
  assumes "row_fits r"
  shows "length (stage_row (st, r)) = (if st = TOTAL then 94 else 93)"
proof -
  have wide: "length (fixed_text 3 x) \<le> 8" if "x \<in> {avg_ms r, p50_ms r, p95_ms r}" for x
    using length_fixed_text [of x 3 3] assms that by (auto simp: row_fits_def)
  have narrow: "length (fixed_text 3 x) = 5" if "x \<in> {p99_ms r, max_ms r}" for x
    using length_fixed_text [of x 1 3] length_fixed_ge [of 3 x] assms that by (auto simp: row_fits_def)
  have count: "length (dec_int (sint (pr_count r))) \<le> 8"
    using length_dec_nat [of "nat (sint (pr_count r))" 8] assms by (auto simp: row_fits_def dec_int_def nat_less_iff)
  show ?thesis
    using wide [of "avg_ms r"] wide [of "p50_ms r"] wide [of "p95_ms r"] narrow [of "p99_ms r"] narrow [of "max_ms r"] count
      length_stage_name [of st]
    by (simp add: stage_row_def length_setw length_setw_left max_absorb1)
qed

end
