(* ===== verification/Benchmark_Reports.thy ===== *)
theory Benchmark_Reports
  imports Real_Benchmark Rcu_Benchmark Stream_Format
begin

text \<open>
  The figures that \<^verbatim>\<open>tools/real_benchmark.cc\<close> and \<^verbatim>\<open>tools/rcu_benchmark.cc\<close> print, line by line and without the
  frames. The texts in Chinese are left out: of a verdict the value of \<open>tail_verdict\<close> or \<open>winner\<close> remains.
\<close>

section \<open>The real-link benchmark\<close>

text \<open>There is no report when the quotient by the elapsed time has no value.\<close>

definition tail_ratio :: "LatencyStats \<Rightarrow> rat" where
  "tail_ratio s = (if ls_p50 s > rnd (1/1000) then rnd (ls_p999 s / ls_p50 s) else 0)"

definition real_report_lines :: "bench_report \<Rightarrow> bytes list option" where
  "real_report_lines r = map_option (\<lambda>qps.
     let s = br_stats r; ms = (\<lambda>label x. figure_line label 8 3 x '' ms'')
     in [count_line ''Total:     '' 10 (br_calls r), count_line ''Success:   '' 10 (br_success r), count_line ''Fail:      '' 10 (br_fail r),
         figure_line ''Elapsed:   '' 7 3 (br_elapsed r) '' s'', figure_line ''Success Rate: '' 5 2 (br_succ_rate r) '' %'',
         figure_line ''Overall QPS:  '' 10 1 qps '' req/s'',
         lit ''[Latency]  (samples: '' @ dec_nat (ls_count s) @ lit '')'',
         ms ''Avg:  '' (ls_avg s), ms ''P50:  '' (ls_p50 s), ms ''P99:  '' (ls_p99 s), ms ''P999: '' (ls_p999 s), ms ''Max:  '' (ls_max s),
         figure_line ''P999/P50: '' 6 1 (tail_ratio s) ''x'']) (br_qps r)"

text \<open>The verdict behind the last line is that of the report.\<close>

lemma real_tail_ratio: "br_tail (real_report t0 t1 tot) = tail_of_ratio (tail_ratio (br_stats (real_report t0 t1 tot)))"
  by (simp add: real_report_def real_tail_def tail_ratio_def Let_def)

section \<open>The route table benchmark\<close>

definition in_us :: "rat \<Rightarrow> rat" where
  "in_us ns = rnd (ns / 1000)"

definition tail_factor :: "LatencyStats \<Rightarrow> rat" where
  "tail_factor s = (if ls_p50 s > 0 then rnd (ls_p999 s / ls_p50 s) else 0)"

definition PrintSection :: "bytes \<Rightarrow> LatencyStats \<Rightarrow> bytes list \<times> tail_verdict" where
  "PrintSection title s =
     (let us = (\<lambda>x. fixed_text 1 (in_us x) @ lit ''us'')
      in ([lit ''  '' @ title @ lit '' ('' @ dec_nat (ls_count s) @ lit '' samples):'',
           lit ''    avg='' @ us (ls_avg s) @ lit ''  P50='' @ us (ls_p50 s) @ lit ''  P99='' @ us (ls_p99 s)
             @ lit ''  P999='' @ us (ls_p999 s) @ lit ''  max='' @ us (ls_max s),
           lit ''    tail-ratio(P999/P50)='' @ fixed_text 1 (tail_factor s) @ lit ''x''],
          tail_of_ratio (tail_factor s)))"

text \<open>A row of the table that compares the three, with the ratio at its end.\<close>

definition compare_row :: "bytes \<Rightarrow> LatencyStats \<Rightarrow> bytes" where
  "compare_row name s =
     (let us = (\<lambda>x. lit '' '' @ setw 7 (fixed_text 1 (in_us x)) @ lit ''us '' @ box 0x91)
      in lit ''  '' @ box 0x91 @ lit '' '' @ setw_left 9 name @ box 0x91 @ us (ls_p50 s) @ us (ls_p99 s) @ us (ls_p999 s)
           @ lit '' '' @ setw 6 (fixed_text 1 (tail_factor s)) @ lit ''x '' @ box 0x91)"

definition round_report :: "int list list \<Rightarrow> int list list \<Rightarrow> int list list \<Rightarrow> bytes list \<times> bytes list \<times> winner" where
  "round_report rcu_readings rwl_readings mtx_readings =
     (let srcu = ComputePercentiles_ns (RunLatencyBench rcu_readings);
          srwl = ComputePercentiles_ns (RunLatencyBench rwl_readings);
          smtx = ComputePercentiles_ns (RunLatencyBench mtx_readings)
      in (fst (PrintSection (lit ''RCU'') srcu) @ fst (PrintSection (lit ''RwLock'') srwl) @ fst (PrintSection (lit ''Mutex'') smtx),
          [compare_row (lit ''RCU'') srcu, compare_row (lit ''RwLock'') srwl, compare_row (lit ''Mutex'') smtx],
          conclude srcu srwl smtx))"

lemma section_verdict: "snd (PrintSection title s) = rcu_tail s"
  by (simp add: PrintSection_def rcu_tail_def tail_factor_def Let_def)

lemma round_report_winner: "snd (snd (round_report a b c)) = snd (round_result a b c)"
  by (simp add: round_report_def round_result_def Let_def)

text \<open>Rows have one length as long as the times stay below 100 milliseconds and the ratio below ten thousand.\<close>

lemma compare_row_length:
  assumes "length name \<le> 9" "\<forall>x \<in> {ls_p50 s, ls_p99 s, ls_p999 s}. 0 \<le> in_us x \<and> in_us x \<le> 99999"
    "0 \<le> tail_factor s" "tail_factor s \<le> 9999"
  shows "length (compare_row name s) = 72"
proof -
  have us: "length (fixed_text 1 (in_us x)) \<le> 7" if "x \<in> {ls_p50 s, ls_p99 s, ls_p999 s}" for x
    using length_fixed_text [of "in_us x" 5 1] assms(2) that by auto
  have "length (fixed_text 1 (tail_factor s)) \<le> 6"
    using length_fixed_text [of "tail_factor s" 4 1] assms(3,4) by simp
  with us [of "ls_p50 s"] us [of "ls_p99 s"] us [of "ls_p999 s"] assms(1) show ?thesis
    by (simp add: compare_row_def Let_def length_setw length_setw_left max_absorb1)
qed

end
