(* ===== verification/Spec2Isabelle.thy ===== *)
theory Spec2Isabelle
  imports Example_Client Real_Benchmark Rcu_Benchmark Concurrent_Stats Monitored_Run Server_Programs
    Server_Connections Throughput_Report Stats_Print Benchmark_Reports
begin

text \<open>
  A verification library for the RPC framework under \<^verbatim>\<open>src/\<close>: a server that publishes services in
  ZooKeeper and answers calls over TCP, and a client channel that finds a server and calls it, in an
  old (legacy) and a new wire protocol; with an example server, two example clients, two stand-alone
  servers and four benchmarks. Paths below are relative to \<^verbatim>\<open>src/src/\<close>, and to \<^verbatim>\<open>src/\<close> for \<^verbatim>\<open>tools/\<close> and
  \<^verbatim>\<open>example/\<close>; headers are under \<^verbatim>\<open>include/xrpc/\<close>.

  \<^bold>\<open>The program and its model.\<close> A call goes from \<^verbatim>\<open>RpcChannel::CallMethod\<close> through a client codec to a
  socket, from the socket of the server through a server codec to \<^verbatim>\<open>RpcServer::OnMessage\<close>, to the
  service, and back. Addresses go from \<^verbatim>\<open>RpcServer::Run\<close> into ZooKeeper and from there through the
  route cache and a load balancer to the channel.

  \<^item> \<open>Prelude\<close>, \<open>Libc\<close>, \<open>Ieee_Double\<close>, \<open>Ieee_Sqrt\<close>, \<open>Stream_Format\<close>, \<open>Thread_Lists\<close>: bytes, byte order, string
    and number functions of the C library, rounding and square root of \<^verbatim>\<open>double\<close>, output formats, lists of threads.
  \<^item> \<open>Noncontiguous_Buffer\<close> (\<^verbatim>\<open>codec/noncontiguous_buffer.cc\<close>): the chain of blocks with its read offset.
  \<^item> \<open>Protocol_Message\<close> (\<^verbatim>\<open>codec/protocol_message.cc\<close>, \<^verbatim>\<open>codec/xrpc_codec.h\<close>): the message, the packed
    16-byte header and its memory image, the generated protobuf classes as a parameter.
  \<^item> \<open>Codec\<close> (\<^verbatim>\<open>codec/codec.h\<close>): the interface of the server codecs as the locale \<open>server_codec\<close>, which
    \<open>Xrpc_Codec\<close> and \<open>Legacy_Codec\<close> interpret; \<open>Codec_Factory\<close> chooses between them.
  \<^item> \<open>Rpc_Server\<close> (\<^verbatim>\<open>rpc/server.cc\<close>): registration, the message callback, dispatch and responses, proved
    once for every codec of the interface; \<open>Service_Registration\<close>: \<^verbatim>\<open>Run\<close>; \<open>Service_Table\<close>: the tables that
    registration builds, their invariant, and dispatch as a search in the list of services;
    \<open>Server_Connections\<close>: the callbacks of several connections as interleaved steps, with the codec object
    they share.
  \<^item> \<open>Controller\<close>, \<open>Config\<close>, \<open>Logger\<close> (\<^verbatim>\<open>rpc/controller.cc\<close>, \<^verbatim>\<open>common/config.cc\<close>, \<^verbatim>\<open>common/application.cc\<close>,
    \<^verbatim>\<open>common/logger.h\<close>).
  \<^item> \<open>Zookeeper_Client\<close>, \<open>Route_Manager\<close>, \<open>Load_Balancer\<close> (\<^verbatim>\<open>registry/\<close>): the ZooKeeper wrapper over a
    parameter for the C client, the route cache as one thread and as many threads see it, and the two
    strategies behind the locale \<open>load_balancer\<close>.
  \<^item> \<open>Runtime_Stats\<close> (\<^verbatim>\<open>monitor/runtime_stats.cc\<close>): counters, histogram, timers and percentiles;
    \<open>Stats_Report\<close>: the content of the report, and \<^verbatim>\<open>tools/benchmark_stats.cc\<close>, which fills it;
    \<open>Stats_Print\<close>: its text in the log; \<open>Concurrent_Stats\<close>: \<^verbatim>\<open>Record\<close> as the atomic steps of many threads.
  \<^item> \<open>Rpc_Channel\<close>, \<open>Channel_Calls\<close> (\<^verbatim>\<open>rpc/channel.cc\<close>): the channel and its calls. The locales
    \<open>call_logic\<close> and \<open>channel_logic\<close> reduce a property of all calls to the elementary steps of a call;
    seven interpretations give the invariants.
  \<^item> \<open>Reactor\<close>, \<open>Mini_Server\<close> (\<^verbatim>\<open>tools/mini_server_reactor.cc\<close>, \<^verbatim>\<open>tools/mini_server.cc\<close>): the two
    stand-alone servers; \<open>Server_Programs\<close>: their \<^verbatim>\<open>main\<close> functions, the reactor with its threads.
  \<^item> \<open>User_Service\<close> (\<^verbatim>\<open>example/callee/server.cc\<close>), \<open>Example_Client\<close> (\<^verbatim>\<open>example/caller/\<close>): the example
    service, its program, and the threads of the two clients.
  \<^item> \<open>Real_Benchmark\<close> (\<^verbatim>\<open>tools/real_benchmark.cc\<close>): a client that builds its frames by hand;
    \<open>Latency_Stats\<close>: the percentiles from sorted samples that two of the tools compute.
  \<^item> \<open>Route_Locks\<close>, \<open>Rcu_Benchmark\<close> (\<^verbatim>\<open>tools/rcu_benchmark.cc\<close>): three route tables as step relations,
    which interpret the locales \<open>writer_protocol\<close> (the lock discipline of a writer) and \<open>route_store\<close>
    (refinement of an atomic table); the measurement around them. \<open>Benchmark_Reports\<close>: what the last two
    tools print.
  \<^item> \<open>Qps_Monitor\<close> (\<^verbatim>\<open>tools/qps_benchmark.cc\<close> and the monitors of the clients): three monitors that
    interpret the locale \<open>interval_counter\<close>, their figures and segments, and the simulated calls;
    \<open>Monitored_Run\<close>: the three programs with workers, monitor and main thread interleaved, where the
    locale \<open>monitored_run\<close> extends \<open>interval_counter\<close> and is interpreted for each of them;
    \<open>Throughput_Report\<close>: deviation, stability, verdicts and the lines that the monitors and the
    final reports print.

  \<^bold>\<open>State and effects.\<close> Objects are records that operations take and return. What the operating
  system, ZooKeeper and the network do is an argument: a script of the results of \<^verbatim>\<open>recv\<close>, \<^verbatim>\<open>send\<close>,
  \<^verbatim>\<open>connect\<close>, \<^verbatim>\<open>poll\<close> and \<^verbatim>\<open>accept\<close>, and for ZooKeeper a record of functions whose documented
  behaviour on well-formed paths and under parents that are not ephemeral is the hypothesis \<open>zk_tree\<close>,
  which the sample instance \<open>list_zoo\<close> satisfies. A script that
  ends is a call that blocks, a value of its own. Failures, exits, exceptions and undefined behaviour
  are values too. Machine integers are words where they can wrap around.

  \<^bold>\<open>What is shown.\<close> The codecs: round trips of requests and responses field by field, rejection of exactly the input
  that no continuation can complete, detection of the protocol, and the limits of the length fields.
  The server: the same answers however TCP cuts the stream, every request dispatched once and in
  order, what is published where. The channel: reading independent of segments, descriptors closed
  exactly once, no exception, every outcome reported, and what an address or a protocol choice fixes.
  The registry: updates of the cache are atomic under every interleaving, and what can still go stale.
  The statistics: percentiles within half a bucket of the true order statistics, and concurrent calls
  that amount to sequential ones, without locks. The stand-alone servers: every ready connection served
  once, every descriptor with one owner and closed once, every complete request answered in full.
  Connections of the server do not disturb each other once its codec exists. The programs around the
  library: registration keeps the tables well formed; every call of a benchmark is counted once, and how
  \<^verbatim>\<open>client.cc\<close> counts after its first failure; the raw client and the blocking
  server agree on the format; connecting ends; the three route tables are linearisable and those with
  a plain pointer free of races; the monitors lose no interval, in whole runs too; which samples the
  segments leave out; the reported deviation is the correctly rounded root, and printed digits are
  within half a unit of the last place.
  This theory composes them: a call over both directions of the network returns what the service
  computes, and a client that knows no address finds the server that registered itself and logs in.

  \<^bold>\<open>Loops.\<close> All functions are total and no fuel is used: the loops over bytes end because every turn
  consumes some (\<open>message_loop\<close>, \<open>load_lines\<close>, \<open>handle_client\<close>), those over scripts and lists by
  structure, the scan of the ready descriptors because the entries not yet looked at get fewer, and
  \<open>connect_loop\<close> because it gives up after twenty attempts.

  \<^bold>\<open>Threads.\<close> Where threads share state, a step relation has one step per access to an atomic, per
  critical section or per load of a shared pointer, and an execution is any sequence of such steps:
  \<open>rcu_step\<close>, the tables of \<open>Route_Locks\<close>, \<open>stats_step\<close>, \<open>run_step\<close>, \<open>reactor_step\<close> and \<open>io_step\<close>. Properties
  of what is reached are invariants by rule induction; that an execution can end is shown by a
  decreasing measure. The steps are sequentially consistent, although some atomics of the source are
  accessed with \<^verbatim>\<open>memory_order_relaxed\<close>; in \<open>run_step\<close> the clock that the monitors read does not go back. The
  programs of the two clients and of \<^verbatim>\<open>qps_benchmark.cc\<close> are \<open>client_run\<close>, \<open>bench_run\<close> and \<open>qps_run\<close>.

  \<^bold>\<open>Not modelled.\<close> The generated protobuf classes, ZooKeeper's C client and the muduo network library
  (parameters, scripts, or the arrival steps of \<open>io_step\<close>); headings, frames and Chinese texts of the tools'
  reports; socket options; the random distributions of the simulated calls,
  whose numbers are arguments; the completion closure of a call, which the code never runs.
\<close>

section \<open>A call from end to end\<close>

text \<open>The whole call: client, both directions of the network, server and service.\<close>

text \<open>C1: a remote call computes the service's method. A client with an open legacy connection makes its
  first call, to the \<open>i\<close>-th method of a service that a server has registered; the server may be fresh, the request
  may reach it in any segments, and its answer may reach the client in any segments. Then the call
  returns the client's reading of exactly what the service computes from the server's reading of the
  arguments, and nothing of the answer is left unread.\<close>

theorem legacy_rpc_end_to_end:
  assumes client: "m_clientfd (chan s) \<noteq> -1" "\<not> useXrpcProtocol (chan s)"
      "clientCodec (chan s) = LegacyClientCodec pb" "rc_service_name (chan s) = []"
    and header: "hdr = \<lparr>rh_service_name = svc_name svc, rh_method_name = svc_methods svc ! i,
        rh_args_size = word_of_nat (length args)\<rparr>"
      "SerializeRpcHeader pb hdr = Some h" "roundtrips (SerializeRpcHeader pb) (ParseRpcHeader pb) hdr"
      "4 + length h + length args \<le> kMaxFrameSize"
    and server: "map_of (service_map srv) (svc_name svc) = None" "distinct (svc_methods svc)"
      "i < length (svc_methods svc)" "serverCodec srv = None \<or> serverCodec srv = Some (LegacyServerCodec pb)"
    and service: "svc_parse_request svc i args = Some req" "svc_call svc i req = Some resp"
      "svc_serialize svc resp = Some body" "length body \<le> kMaxFrameSize"
    and there: "sends (wrld s) = Some k # ss" "length (legacy_request_frame h args) \<le> k"
      "concat segs = legacy_request_frame h args" "segs \<noteq> []"
    and reply: "live_stream (incoming (wrld s))" "stream_bytes (incoming (wrld s)) =
        sent_bytes (snd (snd (receive pb (NotifyService svc srv) [] segs)))"
    and parse: "parse body = Some r"
  shows "\<exists>s'. CallMethod zk (svc_name svc, svc_methods svc ! i) (Some args) parse s = Ok r s'
    \<and> sent (wrld s') = sent (wrld s) @ concat segs \<and> stream_bytes (incoming (wrld s')) = []
    \<and> ctl s' = ctl s"
proof -
  have "length h < 2 ^ 32"
    using header(4) by (simp add: kMaxFrameSize_def)
  have "snd (snd (receive pb (NotifyService svc srv) [] segs)) = [Send (legacy_response_frame body)]"
    by (rule legacy_served [OF header(1) roundtripsD [OF header(3,2)] header(4) server service there(3,4)])
  then have stream: "stream_bytes (incoming (wrld s)) = legacy_response_frame body @ []"
    using reply(2) by simp
  show ?thesis
    using legacy_call_ok [where parse = parse and zk = zk, OF client(1-3) _ _ \<open>length h < 2 ^ 32\<close> there(1,2) reply(1)
        stream service(4) parse, of "(svc_name svc, svc_methods svc ! i)" "(svc_name svc, svc_methods svc ! i)"]
      client(4) header(1,2) there(3) by auto
qed

section \<open>Discovery from end to end\<close>

lemma select_host_mem: "nodes \<noteq> [] \<Longrightarrow> fst (select_host w nodes) \<in> set nodes"
  using round_robin.select_mem random.select_mem by (simp add: select_host_def)

lemma query_singleton:
  assumes path: "path = lit ''/'' @ sn @ lit ''/'' @ mn"
    and empty: "GetRouteNodes (route_table (wrld s)) path = []"
    and kids: "set (fst (GetChildren zk (c_str path) True (zk_state (wrld s)))) = {host}"
    and host: "host \<noteq> []" "str_find (ch CHR '':'') host = Some i"
  shows "\<exists>s'. QueryServiceHost zk sn mn idx s = (host, int i, s')"
proof -
  obtain ns z where ns: "GetChildren zk (c_str path) True (zk_state (wrld s)) = (ns, z)"
    by fastforce
  let ?w = "(wrld s)\<lparr>route_table := (route_table (wrld s))(path \<mapsto> ns), zk_state := z\<rparr>"
  have w: "filled_world zk path (wrld s) = ?w"
    using empty ns by (simp add: filled_world_def UpdateRouteTable_def)
  have "fst (select_host ?w ns) = host"
    using select_host_mem [of ns ?w] kids ns by (cases ns) auto
  with w host show ?thesis
    by (auto simp: QueryServiceHost_filled path [symmetric] Let_def GetRouteNodes_def simp del: lit_Cons
        split: prod.splits)
qed

text \<open>The client reads back the address and the port that the server printed.\<close>

lemma address_split:
  assumes "ch CHR '':'' \<notin> set ip" "0 \<notin> set ip"
  shows "str_find (ch CHR '':'') (method_path_data ip port) = Some (length ip)"
    and "substr (method_path_data ip port) 0 (int (length ip)) = Some ip"
    and "\<exists>p. substr (method_path_data ip port) (int (length ip) + 1)
        (int (length (method_path_data ip port)) - int (length ip)) = Some p \<and> atoi (c_str p) = port"
proof -
  have data: "method_path_data ip port = ip @ ch CHR '':'' # dec_int (sint port)"
    using assms(2) by (simp add: method_path_data_def c_str_id)
  show "str_find (ch CHR '':'') (method_path_data ip port) = Some (length ip)"
    using assms(1) by (simp add: data str_find_append)
  show "substr (method_path_data ip port) 0 (int (length ip)) = Some ip"
    by (simp add: data substr_def)
  have "substr (method_path_data ip port) (int (length ip) + 1)
        (int (length (method_path_data ip port)) - int (length ip)) = Some (dec_int (sint port))"
    by (simp add: data substr_def nat_add_distrib)
  then show "\<exists>p. substr (method_path_data ip port) (int (length ip) + 1)
        (int (length (method_path_data ip port)) - int (length ip)) = Some p \<and> atoi (c_str p) = port"
    by (simp add: c_str_id atoi_dec)
qed

lemma zk_connect_singleton:
  assumes start: "zk_sessions (wrld s) = evs # more_evs"
      "Start zk (app_config (wrld s)) evs ZookeeperClient_init = Started client"
    and path: "path = lit ''/'' @ rc_service_name (chan s) @ lit ''/'' @ rc_method_name (chan s)"
    and empty: "GetRouteNodes (route_table (wrld s)) path = []"
    and kids: "set (fst (GetChildren zk (c_str path) True (zk_state (wrld s)))) = {method_path_data ip port}"
    and ip: "ch CHR '':'' \<notin> set ip" "0 \<notin> set ip"
    and conn: "connects (wrld s) = Connected fd inc # cs"
  shows "\<exists>s'. zk_connect zk s = Ok () s' \<and> m_clientfd (chan s') = fd \<and> m_ip (chan s') = ip
    \<and> m_port (chan s') = ucast port \<and> dialled (wrld s') = dialled (wrld s) @ [(ip, ucast port)]
    \<and> incoming (wrld s') = inc \<and> sends (wrld s') = sends (wrld s) \<and> sent (wrld s') = sent (wrld s) \<and> ctl s' = ctl s
    \<and> rc_service_name (chan s') = rc_service_name (chan s) \<and> rc_method_name (chan s') = rc_method_name (chan s)
    \<and> useXrpcProtocol (chan s') = useXrpcProtocol (chan s) \<and> clientCodec (chan s') = clientCodec (chan s)"
proof -
  define s1 where "s1 = record_stage ZK_QUERY (s\<lparr>wrld := (wrld s)\<lparr>zk_sessions := more_evs\<rparr>\<rparr>)"
  have z: "scoped ZK_QUERY (zk_start zk s) = Ok client s1"
    using start by (simp add: zk_start_def s1_def)
  have same: "chan s1 = chan s" "route_table (wrld s1) = route_table (wrld s)" "zk_state (wrld s1) = zk_state (wrld s)"
    by (simp_all add: s1_def record_stage_def)
  let ?data = "method_path_data ip port"
  obtain s2 where q: "QueryServiceHost zk (rc_service_name (chan s)) (rc_method_name (chan s)) (m_idx (chan s)) s1
      = (?data, int (length ip), s2)"
    using query_singleton [OF path, of s1 zk ?data "length ip" "m_idx (chan s)"] empty kids
      address_split(1) [OF ip, of port] by (auto simp: same)
  obtain t zz d where s2: "s2 = record_stage LOAD_BALANCE
      (s1\<lparr>wrld := (wrld s1)\<lparr>route_table := t, zk_state := zz, draws := d\<rparr>\<rparr>)"
    using query_frame [OF q] by blast
  obtain p where p: "substr ?data (int (length ip) + 1) (int (length ?data) - int (length ip)) = Some p"
    "atoi (c_str p) = port"
    using address_split(3) [OF ip] by blast
  show ?thesis
    unfolding zk_connect_def z and_then.simps same q prod.case
    using address_split(2) [OF ip, of port] p conn ip(2)
    by (simp add: Let_def s2 s1_def record_stage_def newConnect_def close_zk_def c_str_id)
qed

text \<open>A client finds a server that has registered itself. After \<^verbatim>\<open>Run\<close> has published a method, and
  if no other server offered it before, a channel that knows no address yet and calls that method
  asks ZooKeeper, takes the one node it finds apart, and connects to the very address and port the
  server listens on.\<close>

lemma discovery_connects:
  assumes zk: "zk_tree zk nodes eph" "eph z0 \<inter> route_paths (service_map srv) = {}"
    and server: "Start zk cfg events ZookeeperClient_init = Started c0" "plain_services srv"
      "ip = Load cfg (lit ''rpcserverip'')" "port = atoi (c_str (Load cfg (lit ''rpcserverport'')))"
      "plain_text ip" "ch CHR '':'' \<notin> set ip" "length (method_path_data ip port) < 128"
    and run: "Run zk cfg events srv z0 = Serving listen_ip listen_port z"
    and published: "(sn, info) \<in> set (service_map srv)" "(mn, i) \<in> set (si_method_map info)"
    and alone: "\<And>c. slash \<notin> set c \<Longrightarrow> (slash # sn @ slash # mn) @ slash # c \<notin> nodes z0"
    and client: "m_clientfd (chan s) = -1" "m_ip (chan s) = []" "rc_service_name (chan s) = []"
      "zk_state (wrld s) = z" "GetRouteNodes (route_table (wrld s)) (slash # sn @ slash # mn) = []"
      "zk_sessions (wrld s) = evs # more_evs"
      "Start zk (app_config (wrld s)) evs ZookeeperClient_init = Started c1"
      "connects (wrld s) = Connected fd inc # cs"
  shows "\<exists>s'. ensure_connected zk (sn, mn) s = Ok () s' \<and> m_clientfd (chan s') = fd
    \<and> dialled (wrld s') = dialled (wrld s) @ [(listen_ip, listen_port)]
    \<and> incoming (wrld s') = inc \<and> sends (wrld s') = sends (wrld s) \<and> sent (wrld s') = sent (wrld s) \<and> ctl s' = ctl s
    \<and> (rc_service_name (chan s'), rc_method_name (chan s')) = (sn, mn)
    \<and> useXrpcProtocol (chan s') = useXrpcProtocol (chan s) \<and> clientCodec (chan s') = clientCodec (chan s)"
proof -
  let ?data = "method_path_data ip port" and ?path = "slash # sn @ slash # mn"
  obtain z' where "Run zk cfg events srv z0 = Serving ip (ucast port) z'"
    and kids': "set (fst (GetChildren zk ?path True z')) = insert ?data
      (c_str ` {c. c \<noteq> [] \<and> slash \<notin> set c \<and> ?path @ slash # c \<in> nodes z0})"
    using run_lists_routes [OF zk server(1,3,4,2,5,7) published(1,2), where w = True] by blast
  with run have serving: "listen_ip = ip" "listen_port = ucast port" and z: "z' = z"
    by simp_all
  have none: "{c. c \<noteq> [] \<and> slash \<notin> set c \<and> ?path @ slash # c \<in> nodes z0} = {}"
    using alone by blast
  have kids: "set (fst (GetChildren zk ?path True z)) = {?data}"
    using kids' unfolding z none image_empty .
  have plain: "0 \<notin> set ?path" "sn \<noteq> []" "0 \<notin> set ip"
    using plain_servicesD [OF server(2) published(1)] published(2) plain_text_chars [OF server(5)]
    by (auto dest: plain_nameD)
  let ?s = "s\<lparr>chan := (chan s)\<lparr>rc_service_name := sn, rc_method_name := mn\<rparr>\<rparr>"
  show ?thesis
    using zk_connect_singleton [of ?s evs more_evs zk c1 ?path ip port fd inc cs] client kids plain server(6)
    by (auto simp: ensure_connected_def Let_def serving c_str_id)
qed

section \<open>Discovery and call\<close>

text \<open>Connecting is done once: a call from the connected state goes the same way.\<close>

lemma CallMethod_connected:
  assumes "ensure_connected zk mth s = Ok () s1" "m_clientfd (chan s1) \<noteq> -1" "rc_service_name (chan s1) \<noteq> []"
  shows "CallMethod zk mth request parse s = CallMethod zk mth request parse s1"
proof -
  have "ensure_connected zk mth s1 = Ok () s1"
    using assms(2,3) by (simp add: ensure_connected_def Let_def)
  then show ?thesis
    by (simp add: CallMethod_def call_body_def assms(1))
qed

text \<open>C2: from nothing to a login. The example server has been started on a configuration file and
  has published its service in a ZooKeeper where no other server offers it (nor has an ephemeral node on
  the paths of the service and its methods). A channel of the legacy
  protocol that knows no address calls \<^verbatim>\<open>Login\<close>: it finds the server, connects to the address and port
  that server listens on, sends one request, and, whatever the segments in both directions, returns
  the client's reading of the response of the service, with success reported and nothing left unread.\<close>

theorem fresh_client_login:
  assumes zk: "zk_tree zk nodes eph" "eph z0 \<inter> route_paths [(lit ''UserServiceRpc'', user_info up)] = {}"
    and server: "Application_Init fs argv Map.empty = Some cfg" "Start zk cfg events ZookeeperClient_init = Started c0"
      "ip = Load cfg (lit ''rpcserverip'')" "port = atoi (c_str (Load cfg (lit ''rpcserverport'')))"
      "plain_text ip" "ch CHR '':'' \<notin> set ip" "length (method_path_data ip port) < 128"
    and run: "callee_main up fs argv zk events z0 = Serving listen_ip listen_port z"
    and alone: "\<And>c. slash \<notin> set c \<Longrightarrow> (slash # lit ''UserServiceRpc'' @ slash # lit ''Login'') @ slash # c \<notin> nodes z0"
    and client: "chan s = new_channel pb [] garbage False" "zk_state (wrld s) = z"
      "GetRouteNodes (route_table (wrld s)) (slash # lit ''UserServiceRpc'' @ slash # lit ''Login'') = []"
      "zk_sessions (wrld s) = evs # more_evs"
      "Start zk (app_config (wrld s)) evs ZookeeperClient_init = Started c1"
      "connects (wrld s) = Connected fd inc # cs" "0 \<le> fd"
    and msgs: "login_messages pb up h args body login_ok"
      "roundtrips (SerializeRpcHeader pb) (ParseRpcHeader pb) \<lparr>rh_service_name = fst login_names,
        rh_method_name = snd login_names, rh_args_size = word_of_nat (length args)\<rparr>"
      "ParseLoginRequest up args = Some req" "SerializeLoginResponse up login_ok = Some body"
    and there: "sends (wrld s) = [Some k]" "8 + length h + length args \<le> k"
      "concat segs = legacy_request_frame h args" "segs \<noteq> []"
    and answers: "live_stream inc" "stream_bytes inc = sent_bytes
        (snd (snd (receive pb (NotifyService (UserService up) RpcServer_init) [] segs)))"
  shows "\<exists>s'. stub_Login up zk resp s = Ok login_ok s'
    \<and> dialled (wrld s') = dialled (wrld s) @ [(listen_ip, listen_port)]
    \<and> sent (wrld s') = sent (wrld s) @ concat segs \<and> stream_bytes (incoming (wrld s')) = [] \<and> ctl s' = ctl s"
proof -
  have run': "Run zk cfg events (NotifyService (UserService up) RpcServer_init) z0 = Serving listen_ip listen_port z"
    using run by (simp only: callee_main_def server(1) option.case)
  have there1: "concat segs = concat (replicate 1 (legacy_request_frame h args))" "1 \<noteq> (0 :: nat)"
    using there(3) by simp_all
  have published: "(lit ''UserServiceRpc'', user_info up) \<in> set (service_map (NotifyService (UserService up) RpcServer_init))"
      "(lit ''Login'', 0) \<in> set (si_method_map (user_info up))"
    by (simp_all add: user_server_map user_info_def)
  have no_eph: "eph z0 \<inter> route_paths (service_map (NotifyService (UserService up) RpcServer_init)) = {}"
    using zk(2) by (simp only: user_server_map)
  have fresh: "m_clientfd (chan s) = -1" "m_ip (chan s) = []" "rc_service_name (chan s) = []"
      "\<not> useXrpcProtocol (chan s)" "clientCodec (chan s) = LegacyClientCodec pb"
    by (simp_all add: client(1) new_channel_def CreateClientCodec_def)
  obtain s1 where s1: "ensure_connected zk login_names s = Ok () s1" "m_clientfd (chan s1) = fd"
      "dialled (wrld s1) = dialled (wrld s) @ [(listen_ip, listen_port)]" "incoming (wrld s1) = inc"
      "sends (wrld s1) = [Some k]" "sent (wrld s1) = sent (wrld s)" "ctl s1 = ctl s"
      "(rc_service_name (chan s1), rc_method_name (chan s1)) = login_names"
      "\<not> useXrpcProtocol (chan s1)" "clientCodec (chan s1) = LegacyClientCodec pb"
    using discovery_connects [OF zk(1) no_eph server(2) user_server_plain server(3-7) run' published alone fresh(1-3) client(2-6)]
      fresh(4,5) there(1) by metis
  have "snd (snd (receive pb (NotifyService (UserService up) RpcServer_init) [] segs)) = replicate 1 (Send (legacy_response_frame body))"
    by (rule user_service_served [OF msgs there1(1) there(4) there1(2)])
  then have "login_ready pb h args body k (Suc 0) s1"
    using s1 there(2) answers client(7) by (simp add: login_ready_def del: lit_Cons)
  from stub_login_ready [OF msgs(1) this, of zk resp] obtain s' where s': "stub_Login up zk resp s1 = Ok login_ok s'"
      "login_ready pb h args body k 0 s'" "ctl s' = ctl s1" "sent (wrld s') = sent (wrld s1) @ legacy_request_frame h args"
      "dialled (wrld s') = dialled (wrld s1)"
    by blast
  have "stub_Login up zk resp s = stub_Login up zk resp s1"
    using CallMethod_connected [where request = "SerializeLoginRequest up login_request" and parse = "ParseLoginResponse up", OF s1(1)]
      s1(2,8) client(7) by (simp add: stub_Login_def)
  moreover have "stream_bytes (incoming (wrld s')) = []"
    using s'(2) by (simp add: login_ready_def del: lit_Cons)
  ultimately show ?thesis
    using s' s1 there(3) by simp
qed

section \<open>Witnesses\<close>

definition sample_caller :: "bytes list call_state" where
  "sample_caller = (sample_channel False 4)\<lparr>wrld := sample_world\<lparr>incoming :=
     [Data (take 2 (legacy_response_frame [10, 1, 97])), Eintr, Data (drop 2 (legacy_response_frame [10, 1, 97]))]\<rparr>\<rparr>"

theorem legacy_rpc_end_to_end_witness:
  "\<exists>s'. CallMethod list_zoo (lit ''UserServiceRpc'', lit ''Login'') (Some [10, 1, 97]) Some sample_caller
      = Ok [10, 1, 97] s'"
proof -
  let ?pb = "sample_legacy_pb [10, 0]" and ?args = "[10, 1, 97] :: bytes"
  let ?hdr = "\<lparr>rh_service_name = svc_name echo_service, rh_method_name = svc_methods echo_service ! 0,
      rh_args_size = word_of_nat (length ?args)\<rparr>"
  let ?f = "legacy_request_frame [10, 0] ?args"
  have hdr: "?hdr = rpc_header ClientContext_init sample_legacy_request"
    by (simp add: rpc_header_def echo_service_def sample_legacy_request_def ProtocolMessage_init_def)
  have srv: "map_of (service_map RpcServer_init) (svc_name echo_service) = None" "distinct (svc_methods echo_service)"
    "0 < length (svc_methods echo_service)" "serverCodec RpcServer_init = None"
    by (simp_all add: RpcServer_init_def echo_service_def ch_def)
  have parsed: "ParseRpcHeader ?pb [10, 0] = Some ?hdr"
    by (simp only: hdr) simp
  have echo: "svc_parse_request echo_service 0 ?args = Some ?args" "svc_call echo_service 0 ?args = Some ?args"
      "svc_serialize echo_service ?args = Some ?args"
    by (simp_all add: echo_service_def)
  have reply: "snd (snd (receive ?pb (NotifyService echo_service RpcServer_init) []
      [take 5 ?f, drop 5 ?f])) = [Send (legacy_response_frame ?args)]"
    by (rule legacy_served [OF refl parsed _ srv(1-3) disjI1 [OF srv(4)] echo]) (simp_all add: kMaxFrameSize_def)
  have stream: "live_stream (incoming (wrld sample_caller))"
    "stream_bytes (incoming (wrld sample_caller)) = legacy_response_frame ?args"
    by (simp_all add: sample_caller_def legacy_response_frame_def flip: length_greater_0_conv)
  have c: "m_clientfd (chan sample_caller) \<noteq> -1" "\<not> useXrpcProtocol (chan sample_caller)"
    "clientCodec (chan sample_caller) = LegacyClientCodec ?pb" "rc_service_name (chan sample_caller) = []"
    "sends (wrld sample_caller) = Some 1000 # []"
    by (simp_all add: sample_caller_def sample_channel_def new_channel_def CreateClientCodec_def sample_world_def)
  have names: "(svc_name echo_service, svc_methods echo_service ! 0) = (lit ''UserServiceRpc'', lit ''Login'')"
    by (simp add: echo_service_def)
  have ser: "SerializeRpcHeader ?pb ?hdr = Some [10, 0]"
    by (simp only: hdr) simp
  have answer: "stream_bytes (incoming (wrld sample_caller)) =
      sent_bytes (snd (snd (receive ?pb (NotifyService echo_service RpcServer_init) [] [take 5 ?f, drop 5 ?f])))"
    unfolding reply by (simp add: stream)
  have sizes: "4 + length [10 :: byte, 0] + length ?args \<le> kMaxFrameSize" "length ?args \<le> kMaxFrameSize"
      "length ?f \<le> 1000" "concat [take 5 ?f, drop 5 ?f] = ?f" "[take 5 ?f, drop 5 ?f] \<noteq> []"
    by (simp_all add: kMaxFrameSize_def)
  from legacy_rpc_end_to_end [where parse = Some and zk = list_zoo, OF c(1-4) refl ser sample_legacy_simps(4) sizes(1) srv(1-3)
      disjI1 [OF srv(4)] echo sizes(2) c(5) sizes(3-5) stream(1) answer refl]
  show ?thesis unfolding names by blast
qed

text \<open>The server of this sample is started with its address on the command line; the client starts
  without one.\<close>

definition sample_argv :: "bytes list" where
  "sample_argv = [lit ''server'', lit ''-i'', lit ''f'', lit ''-a'', lit ''127.0.0.1'', lit ''-p8000'']"

lemma sample_init: "Application_Init [lit ''f'' \<mapsto> []] sample_argv Map.empty = Some sample_config"
proof -
  have "getopt_all (lit ''iap'') (tl sample_argv)
      = [Some (ch CHR ''i'', lit ''f''), Some (ch CHR ''a'', lit ''127.0.0.1''), Some (ch CHR ''p'', lit ''8000'')]"
    by (simp add: sample_argv_def ch_def)
  moreover have "c_str (lit ''f'') = lit ''f''"
    by (simp add: c_str_id ch_def)
  ultimately show ?thesis
    by (simp add: Application_Init_def sample_argv_def LoadConfigFile_def Write_def sample_config_def ch_def load_lines.simps)
qed

definition sample_seeker :: "bytes list \<Rightarrow> bytes list call_state" where
  "sample_seeker z = (sample_channel False (-1))\<lparr>chan := new_channel (sample_legacy_pb [10, 0]) [] 0 False,
     wrld := sample_world\<lparr>app_config := sample_config, zk_state := z, route_table := Map.empty,
     zk_sessions := [[ZOO_SESSION_EVENT ZOO_CONNECTED_STATE]],
     connects := [Connected 5 [Data (legacy_response_frame [10, 0, 16, 1])]]\<rparr>\<rparr>"

theorem fresh_client_login_witness:
  "\<exists>z s'. callee_main sample_user_pb [lit ''f'' \<mapsto> []] sample_argv list_zoo [ZOO_SESSION_EVENT ZOO_CONNECTED_STATE] []
       = Serving (lit ''127.0.0.1'') 8000 z
     \<and> stub_Login sample_user_pb list_zoo LoginResponse_init (sample_seeker z) = Ok login_ok s'
     \<and> dialled (wrld s') = [(lit ''127.0.0.1'', 8000)]"
proof -
  let ?evs = "[ZOO_SESSION_EVENT ZOO_CONNECTED_STATE]" and ?ip = "lit ''127.0.0.1''" and ?pb = "sample_legacy_pb [10, 0]"
  let ?args = "[10, 1, 97] :: bytes" and ?body = "[10, 0, 16, 1] :: bytes"
  let ?segs = "[legacy_request_frame [10, 0] ?args]" and ?inc = "[Data (legacy_response_frame ?body)]"
  have port: "8000 = atoi (c_str (Load sample_config (lit ''rpcserverport'')))"
    by (simp only: sample_port)
  have ip: "plain_text ?ip" "ch CHR '':'' \<notin> set ?ip"
    by (simp_all add: plain_text_def ch_def)
  obtain z where run: "callee_main sample_user_pb [lit ''f'' \<mapsto> []] sample_argv list_zoo ?evs [] = Serving ?ip (ucast (8000 :: 32 word)) z"
    using callee_main_serves [OF list_zoo_tree sample_init sample_start sample_config_loads(1) [symmetric] port ip(1) sample_fits,
        of "lit ''Login''" 0 sample_user_pb "[]" True, OF _ Int_empty_left] by (auto simp: user_info_def simp del: lit_Cons)
  have seeker: "chan (sample_seeker z) = new_channel ?pb [] 0 False" "zk_state (wrld (sample_seeker z)) = z"
      "GetRouteNodes (route_table (wrld (sample_seeker z))) (slash # lit ''UserServiceRpc'' @ slash # lit ''Login'') = []"
      "zk_sessions (wrld (sample_seeker z)) = ?evs # []"
      "Start list_zoo (app_config (wrld (sample_seeker z))) ?evs ZookeeperClient_init
        = Started \<lparr>is_connected = True, m_zhandle = True\<rparr>"
      "connects (wrld (sample_seeker z)) = Connected 5 ?inc # []" "dialled (wrld (sample_seeker z)) = []"
      "sends (wrld (sample_seeker z)) = [Some 1000]"
    by (simp_all add: sample_seeker_def sample_channel_def sample_world_def GetRouteNodes_def sample_start)
  have none: "(slash # lit ''UserServiceRpc'' @ slash # lit ''Login'') @ slash # c \<notin> set []" for c
    by simp
  have up: "ParseLoginRequest sample_user_pb ?args = Some login_request"
      "SerializeLoginResponse sample_user_pb login_ok = Some ?body"
    by (simp_all add: sample_user_pb_def)
  have "snd (snd (receive ?pb (NotifyService (UserService sample_user_pb) RpcServer_init) [] ?segs))
      = replicate 1 (Send (legacy_response_frame ?body))"
    by (rule user_service_served [OF sample_login_messages sample_legacy_simps(4) up]) simp_all
  then have answer: "stream_bytes ?inc = sent_bytes
      (snd (snd (receive ?pb (NotifyService (UserService sample_user_pb) RpcServer_init) [] ?segs)))"
    by simp
  have live: "live_stream ?inc"
    by (simp add: legacy_response_frame_def flip: length_greater_0_conv)
  have sizes: "0 \<le> (5 :: int)" "8 + length [10 :: byte, 0] + length ?args \<le> 1000" "concat ?segs = legacy_request_frame [10, 0] ?args"
      "?segs \<noteq> []"
    by simp_all
  from fresh_client_login [OF list_zoo_tree Int_empty_left sample_init sample_start sample_config_loads(1) [symmetric] port ip sample_fits run
      none seeker(1-6) sizes(1) sample_login_messages sample_legacy_simps(4) up seeker(8) sizes(2-4) live answer, of LoginResponse_init]
  show ?thesis using run seeker(7) by (auto simp del: lit_Cons)
qed

end
